(* ===== verification/Transport_Prelude.thy ===== *)
theory Transport_Prelude
  imports Main "HOL-Library.Word" "HOL-Library.AList" "HOL-Library.List_Lexorder" "HOL-Library.Char_ord"
begin

text \<open>
  Shared vocabulary of the development: machine integers, byte strings, results, the two map
  containers the code uses (hash maps and ordered maps) behind one interface, and the generic
  lemmas on them that the component theories rely on.

  Conventions. A Rust \<open>String\<close> or \<open>&str\<close> is its UTF-8 byte sequence, a \<^typ>\<open>string\<close> (an Isabelle
  \<^typ>\<open>char\<close> is one byte), so \<^const>\<open>length\<close> is Rust's \<open>len()\<close>. Lengths and indices (\<open>usize\<close>) are
  natural numbers; the saturating and checked operations the code writes out are bounded by
  \<open>usize_max\<close> (a 64-bit target). Instants and durations are natural numbers of nanoseconds. A
  fallible operation returns a sum with the error message on the left.
\<close>

named_theorems policy_defs \<open>numeric resource limits of the program\<close>

section \<open>Machine integers and results\<close>

type_synonym u8 = "8 word"
type_synonym u16 = "16 word"
type_synonym u32 = "32 word"
type_synonym u64 = "64 word"
type_synonym bytes = "u8 list"
type_synonym instant = nat
type_synonym 'a port_result = "string + 'a"

definition usize_max :: nat where
  "usize_max = 2 ^ 64 - 1"

definition sat_add :: "nat \<Rightarrow> nat \<Rightarrow> nat" where
  "sat_add a b = min (a + b) usize_max"

definition sat_mul :: "nat \<Rightarrow> nat \<Rightarrow> nat" where
  "sat_mul a b = min (a * b) usize_max"

definition sat_inc_u64 :: "u64 \<Rightarrow> u64" where
  "sat_inc_u64 w = (if w = - 1 then w else w + 1)"

definition secs :: "nat \<Rightarrow> nat" where
  "secs n = n * 1000000000"

lemma sat_add_le: "sat_add a b \<le> a + b"
  by (simp add: sat_add_def)

lemma sat_add_exact: "a + b \<le> usize_max \<Longrightarrow> sat_add a b = a + b"
  by (simp add: sat_add_def)

lemma sat_add_small: "sat_add a b \<le> n \<Longrightarrow> n < usize_max \<Longrightarrow> sat_add a b = a + b"
  by (simp add: sat_add_def min_def split: if_splits)

lemma sat_mul_small: "sat_mul a b \<le> n \<Longrightarrow> n < usize_max \<Longrightarrow> sat_mul a b = a * b"
  by (simp add: sat_mul_def min_def split: if_splits)

lemma unat_sat_inc_u64: "unat (sat_inc_u64 w) = min (Suc (unat w)) (2 ^ 64 - 1)"
proof (cases "w = - 1")
  case True
  then show ?thesis by (simp add: sat_inc_u64_def unsigned_minus_1_eq_mask mask_eq_exp_minus_1)
next
  case False
  then have "1 + w \<noteq> 0"
    by (metis add.commute add_eq_0_iff)
  then have step: "unat (w + 1) = Suc (unat w)"
    using unatSuc [of w] by (simp add: add.commute)
  moreover have "unat (w + 1) < 2 ^ 64"
    using unsigned_less [of "w + 1"] by simp
  ultimately show ?thesis using False by (simp add: sat_inc_u64_def)
qed

text \<open>The \<open>?\<close> operator and \<open>Result::map_err\<close>.\<close>

fun and_then :: "'e + 'a \<Rightarrow> ('a \<Rightarrow> 'e + 'b) \<Rightarrow> 'e + 'b" where
  "and_then (Inl e) f = Inl e"
| "and_then (Inr x) f = f x"

fun map_err :: "('e \<Rightarrow> 'f) \<Rightarrow> 'e + 'a \<Rightarrow> 'f + 'a" where
  "map_err g (Inl e) = Inl (g e)"
| "map_err g (Inr x) = Inr x"

lemma and_then_Inr_iff: "and_then r f = Inr y \<longleftrightarrow> (\<exists>x. r = Inr x \<and> f x = Inr y)"
  by (cases r) auto

lemma and_then_Inl_iff: "and_then r f = Inl e \<longleftrightarrow> r = Inl e \<or> (\<exists>x. r = Inr x \<and> f x = Inl e)"
  by (cases r) auto

lemma map_err_Inr_iff [simp]: "map_err g r = Inr y \<longleftrightarrow> r = Inr y"
  by (cases r) auto

section \<open>Slices\<close>

text \<open>\<open>slice::get(start..end)\<close>: the sub-slice, or nothing when the range is not inside the slice.\<close>

definition get_range :: "'a list \<Rightarrow> nat \<Rightarrow> nat \<Rightarrow> 'a list option" where
  "get_range xs i j = (if i \<le> j \<and> j \<le> length xs then Some (take (j - i) (drop i xs)) else None)"

lemma get_range_Some_iff:
  "get_range xs i j = Some ys \<longleftrightarrow> i \<le> j \<and> j \<le> length xs \<and> ys = take (j - i) (drop i xs)"
  by (auto simp: get_range_def)

lemma get_range_append:
  "get_range (xs @ ys @ zs) (length xs) (length xs + length ys) = Some ys"
  by (simp add: get_range_def)

lemma get_range_length: "get_range xs i j = Some ys \<Longrightarrow> length ys = j - i"
  by (auto simp: get_range_def split: if_splits)

section \<open>Maps\<close>

text \<open>
  \<open>HashMap\<close> is an association list with distinct keys (iteration order is not observed by the
  code), \<open>BTreeMap\<close> an association list with strictly increasing keys. Both implement one
  interface; what the components need to know about sizes and sums over the values is proved once
  for the interface.
\<close>

type_synonym ('k, 'v) hash_map = "('k \<times> 'v) list"
type_synonym ('k, 'v) btree_map = "('k \<times> 'v) list"

definition hm_invar :: "('k, 'v) hash_map \<Rightarrow> bool" where
  "hm_invar m \<longleftrightarrow> distinct (map fst m)"

definition hm_remove :: "'k \<Rightarrow> ('k, 'v) hash_map \<Rightarrow> ('k, 'v) hash_map" where
  "hm_remove k m = filter (\<lambda>p. fst p \<noteq> k) m"

definition hm_insert :: "'k \<Rightarrow> 'v \<Rightarrow> ('k, 'v) hash_map \<Rightarrow> ('k, 'v) hash_map" where
  "hm_insert k v m = AList.update k v m"

fun bt_insert :: "'k::linorder \<Rightarrow> 'v \<Rightarrow> ('k, 'v) btree_map \<Rightarrow> ('k, 'v) btree_map" where
  "bt_insert k v [] = [(k, v)]"
| "bt_insert k v (p # m) =
     (if k < fst p then (k, v) # p # m
      else if fst p < k then p # bt_insert k v m
      else (k, v) # m)"

definition bt_remove :: "'k \<Rightarrow> ('k, 'v) btree_map \<Rightarrow> ('k, 'v) btree_map" where
  "bt_remove k m = filter (\<lambda>p. fst p \<noteq> k) m"

definition bt_invar :: "('k::linorder, 'v) btree_map \<Rightarrow> bool" where
  "bt_invar m \<longleftrightarrow> sorted_wrt (<) (map fst m)"

locale finite_map =
  fixes lookup :: "'m \<Rightarrow> 'k \<Rightarrow> 'v option"
    and insert :: "'k \<Rightarrow> 'v \<Rightarrow> 'm \<Rightarrow> 'm"
    and remove :: "'k \<Rightarrow> 'm \<Rightarrow> 'm"
    and entries :: "'m \<Rightarrow> ('k \<times> 'v) list"
    and invar :: "'m \<Rightarrow> bool"
  assumes entries_distinct: "invar m \<Longrightarrow> distinct (map fst (entries m))"
    and lookup_entries: "invar m \<Longrightarrow> lookup m k = map_of (entries m) k"
    and lookup_insert: "invar m \<Longrightarrow> lookup (insert k v m) = (lookup m)(k \<mapsto> v)"
    and lookup_remove: "invar m \<Longrightarrow> lookup (remove k m) = (lookup m)(k := None)"
    and invar_insert: "invar m \<Longrightarrow> invar (insert k v m)"
    and invar_remove: "invar m \<Longrightarrow> invar (remove k m)"
begin

definition weight :: "('v \<Rightarrow> nat) \<Rightarrow> 'm \<Rightarrow> nat" where
  "weight f m = sum_list (map (\<lambda>p. f (snd p)) (entries m))"

lemma dom_entries: "invar m \<Longrightarrow> dom (lookup m) = set (map fst (entries m))"
  by (auto simp: lookup_entries dom_map_of_conv_image_fst dom_def map_of_eq_None_iff
      image_iff set_eq_iff intro: ccontr)

lemma finite_dom: "invar m \<Longrightarrow> finite (dom (lookup m))"
  by (simp add: dom_entries)

lemma weight_dom: "invar m \<Longrightarrow> weight f m = (\<Sum>k\<in>dom (lookup m). f (the (lookup m k)))"
proof -
  assume inv: "invar m"
  have "weight f m = (\<Sum>p\<leftarrow>entries m. f (the (lookup m (fst p))))"
    unfolding weight_def
    by (intro arg_cong [where f = sum_list] map_cong)
      (auto simp: lookup_entries [OF inv] entries_distinct [OF inv] map_of_eq_Some_iff)
  also have "\<dots> = (\<Sum>k\<leftarrow>map fst (entries m). f (the (lookup m k)))"
    by (simp add: comp_def)
  also have "\<dots> = (\<Sum>k\<in>set (map fst (entries m)). f (the (lookup m k)))"
    using entries_distinct [OF inv] by (simp only: sum_list_distinct_conv_sum_set)
  finally show ?thesis by (simp add: dom_entries [OF inv])
qed

lemma card_entries: "invar m \<Longrightarrow> length (entries m) = card (dom (lookup m))"
  by (metis dom_entries distinct_card entries_distinct length_map)

lemma weight_remove:
  assumes "invar m" and "lookup m k = Some v"
  shows "weight f m = f v + weight f (remove k m)"
proof -
  have "k \<in> dom (lookup m)" using assms(2) by auto
  then have "weight f m = f v + (\<Sum>x\<in>dom (lookup m) - {k}. f (the (lookup m x)))"
    using assms by (simp add: weight_dom finite_dom sum.remove [of _ k])
  also have "(\<Sum>x\<in>dom (lookup m) - {k}. f (the (lookup m x))) = weight f (remove k m)"
    using assms by (auto simp: weight_dom invar_remove lookup_remove intro!: sum.cong)
  finally show ?thesis .
qed

lemma weight_insert_new:
  assumes "invar m" and "lookup m k = None"
  shows "weight f (insert k v m) = f v + weight f m"
proof -
  have k: "k \<notin> dom (lookup m)" using assms(2) by auto
  have "weight f (insert k v m) =
      (\<Sum>x\<in>Set.insert k (dom (lookup m)). f (the (((lookup m)(k \<mapsto> v)) x)))"
    using assms by (simp add: weight_dom invar_insert lookup_insert)
  also have "\<dots> = f v + (\<Sum>x\<in>dom (lookup m). f (the (((lookup m)(k \<mapsto> v)) x)))"
    using k assms by (simp add: finite_dom)
  also have "(\<Sum>x\<in>dom (lookup m). f (the (((lookup m)(k \<mapsto> v)) x))) = weight f m"
    using k assms by (auto simp: weight_dom intro!: sum.cong)
  finally show ?thesis .
qed

lemma weight_insert_over:
  assumes "invar m" and "lookup m k = Some w"
  shows "weight f (insert k v m) + f w = f v + weight f m"
proof -
  have "lookup (insert k v m) = lookup (insert k v (remove k m))"
    using assms by (simp add: lookup_insert lookup_remove invar_remove)
  then have "weight f (insert k v m) = weight f (insert k v (remove k m))"
    using assms by (simp add: weight_dom invar_insert invar_remove)
  also have "\<dots> = f v + weight f (remove k m)"
    using assms by (simp add: weight_insert_new invar_remove lookup_remove)
  finally show ?thesis
    using weight_remove [OF assms, of f] by simp
qed

lemma size_insert:
  "invar m \<Longrightarrow> length (entries (insert k v m)) =
     (if lookup m k = None then Suc (length (entries m)) else length (entries m))"
  by (auto simp: card_entries invar_insert lookup_insert finite_dom insert_absorb domIff)

lemma size_remove:
  "invar m \<Longrightarrow> length (entries (remove k m)) =
     (if lookup m k = None then length (entries m) else length (entries m) - 1)"
  by (auto simp: card_entries invar_remove lookup_remove finite_dom domIff)

lemma size_remove_le: "invar m \<Longrightarrow> length (entries (remove k m)) \<le> length (entries m)"
  by (simp add: size_remove)

lemma weight_member_le:
  assumes "invar m" and "lookup m k = Some v"
  shows "f v \<le> weight f m"
  using weight_remove [OF assms, of f] by simp

lemma weight_remove_le: "invar m \<Longrightarrow> weight f (remove k m) \<le> weight f m"
  by (cases "lookup m k")
    (simp_all add: weight_dom invar_remove lookup_remove weight_remove domIff sum_mono2 finite_dom)

end

lemma map_of_filter_key: "map_of (filter (\<lambda>p. fst p \<noteq> k) m) = (map_of m)(k := None)"
  by (induction m) (auto simp: fun_eq_iff)

interpretation hm: finite_map map_of hm_insert hm_remove "\<lambda>m. m" hm_invar
  by unfold_locales
    (auto simp: hm_invar_def hm_insert_def hm_remove_def map_of_filter_key update_conv'
      intro: distinct_update distinct_map_filter)

lemma bt_insert_keys: "set (map fst (bt_insert k v m)) = insert k (set (map fst m))"
  by (induction m) auto

lemma bt_insert_sorted: "bt_invar m \<Longrightarrow> bt_invar (bt_insert k v m)"
proof (induction m)
  case Nil
  then show ?case by (simp add: bt_invar_def)
next
  case (Cons p m)
  then have "bt_invar (bt_insert k v m)" and "\<forall>x\<in>set (map fst m). fst p < x"
    by (auto simp: bt_invar_def)
  with Cons.prems show ?case
    using bt_insert_keys [of k v m] by (auto simp: bt_invar_def)
qed

lemma map_of_bt_insert: "bt_invar m \<Longrightarrow> map_of (bt_insert k v m) = (map_of m)(k \<mapsto> v)"
proof (induction m)
  case Nil
  then show ?case by simp
next
  case (Cons p m)
  from Cons.prems have "bt_invar m" by (simp add: bt_invar_def)
  then have "map_of (bt_insert k v m) = (map_of m)(k \<mapsto> v)" by (rule Cons.IH)
  with Cons.prems show ?case by (cases p) (auto simp: bt_invar_def fun_upd_twist)
qed

interpretation bt: finite_map map_of bt_insert bt_remove "\<lambda>m. m" bt_invar
proof unfold_locales
  fix m :: "('a::linorder, 'b) btree_map" and k :: 'a and v :: 'b
  assume inv: "bt_invar m"
  then show "distinct (map fst m)"
    by (simp add: bt_invar_def strict_sorted_iff)
  show "map_of m k = map_of m k" ..
  show "map_of (bt_insert k v m) = (map_of m)(k \<mapsto> v)"
    using inv by (rule map_of_bt_insert)
  show "map_of (bt_remove k m) = (map_of m)(k := None)"
    by (simp add: bt_remove_def map_of_filter_key)
  show "bt_invar (bt_insert k v m)"
    using inv by (rule bt_insert_sorted)
  show "bt_invar (bt_remove k m)"
    using inv unfolding bt_invar_def bt_remove_def
    by (induction m) auto
qed

lemma bt_unique:
  assumes "bt_invar m" and "bt_invar m'" and "map_of m = map_of m'"
  shows "m = m'"
proof -
  have keys: "map fst m = map fst m'"
  proof (rule sorted_distinct_set_unique)
    show "sorted (map fst m)" "distinct (map fst m)" "sorted (map fst m')" "distinct (map fst m')"
      using assms(1,2) by (auto simp: bt_invar_def strict_sorted_iff)
    show "set (map fst m) = set (map fst m')"
      using assms by (metis bt.dom_entries)
  qed
  have vals: "snd p = the (map_of m (fst p))" if "p \<in> set m" for p
    using that bt.entries_distinct [OF assms(1)] by (metis map_of_is_SomeI option.sel prod.collapse)
  have vals': "snd p = the (map_of m (fst p))" if "p \<in> set m'" for p
    using that assms(3) bt.entries_distinct [OF assms(2)] by (metis map_of_is_SomeI option.sel prod.collapse)
  have "m = map (\<lambda>k. (k, the (map_of m k))) (map fst m)"
    using vals by (auto simp: map_idI prod_eq_iff comp_def intro!: map_idI [symmetric])
  also have "\<dots> = map (\<lambda>k. (k, the (map_of m k))) (map fst m')"
    by (simp only: keys)
  also have "\<dots> = m'"
    using vals' by (auto simp: prod_eq_iff intro!: map_idI)
  finally show ?thesis .
qed

lemma hm_remove_insert: "hm_remove k (hm_insert k v m) = hm_remove k m"
  unfolding hm_remove_def hm_insert_def by (induction m) auto

lemma hm_insert_insert: "hm_insert k v (hm_insert k w m) = hm_insert k v m"
  unfolding hm_insert_def by (induction m) auto

lemma hm_remove_absent: "map_of m k = None \<Longrightarrow> hm_remove k m = m"
  unfolding hm_remove_def by (induction m) (auto split: if_splits)

end
