(* ===== verification/Ieee_Float.thy ===== *)
theory Ieee_Float
  imports Transport_Prelude
begin

text \<open>
  The part of Rust's \<open>f64\<close> and \<open>f32\<close> the code uses: finiteness, comparison with zero, conversion
  from integers, narrowing, multiplication, addition and division, each rounding to nearest with ties to even.
  A finite value is a sign, a natural mantissa and a binary exponent with no trailing zero in the
  mantissa, so equal values are equal terms (zero keeps its sign).
\<close>

datatype fval = NaN | Infinite bool | Finite bool nat int

record float_format =
  precision :: nat
  min_exp :: int \<comment> \<open>exponent of the least significant bit of a subnormal\<close>
  max_exp :: int \<comment> \<open>finite values are below two to this power\<close>

definition binary32 :: float_format where
  "binary32 = \<lparr>precision = 24, min_exp = - 149, max_exp = 128\<rparr>"

definition binary64 :: float_format where
  "binary64 = \<lparr>precision = 53, min_exp = - 1074, max_exp = 1024\<rparr>"

fun bit_len :: "nat \<Rightarrow> nat" where
  "bit_len n = (if n = 0 then 0 else Suc (bit_len (n div 2)))"

declare bit_len.simps [simp del]

fun strip_zeros :: "nat \<Rightarrow> int \<Rightarrow> nat \<times> int" where
  "strip_zeros m e = (if m = 0 then (0, 0) else if even m then strip_zeros (m div 2) (e + 1) else (m, e))"

declare strip_zeros.simps [simp del]

definition mk_finite :: "bool \<Rightarrow> nat \<Rightarrow> int \<Rightarrow> fval" where
  "mk_finite s m e = (case strip_zeros m e of (m', e') \<Rightarrow> Finite s m' e')"

text \<open>The mantissa divided by a power of two, to nearest, ties to even.\<close>

definition round_shift :: "nat \<Rightarrow> nat \<Rightarrow> nat" where
  "round_shift m k =
     (let q = m div 2 ^ k; r = m mod 2 ^ k
      in if 2 ^ k < 2 * r \<or> (2 ^ k = 2 * r \<and> odd q) then q + 1 else q)"

definition round_to :: "float_format \<Rightarrow> bool \<Rightarrow> nat \<Rightarrow> int \<Rightarrow> fval" where
  "round_to fmt s m e =
     (let k = nat (max (int (bit_len m) - int (precision fmt)) (min_exp fmt - e));
          m' = round_shift m k; e' = e + int k
      in if int (bit_len m') + e' > max_exp fmt then Infinite s else mk_finite s m' e')"

definition float_of_nat :: "float_format \<Rightarrow> nat \<Rightarrow> fval" where
  "float_of_nat fmt n = round_to fmt False n 0"

definition float_of_int :: "float_format \<Rightarrow> int \<Rightarrow> fval" where
  "float_of_int fmt n = round_to fmt (n < 0) (nat \<bar>n\<bar>) 0"

fun is_finite :: "fval \<Rightarrow> bool" where
  "is_finite (Finite _ _ _) = True"
| "is_finite _ = False"

text \<open>\<open>x <= 0.0\<close>, false on NaN.\<close>

fun le_zero :: "fval \<Rightarrow> bool" where
  "le_zero NaN = False"
| "le_zero (Infinite s) = s"
| "le_zero (Finite s m e) = (s \<or> m = 0)"

text \<open>The cast \<open>as f32\<close>.\<close>

fun narrow :: "float_format \<Rightarrow> fval \<Rightarrow> fval" where
  "narrow fmt (Finite s m e) = round_to fmt s m e"
| "narrow fmt x = x"

fun fmul :: "float_format \<Rightarrow> fval \<Rightarrow> fval \<Rightarrow> fval" where
  "fmul fmt (Finite s m e) (Finite t n d) = round_to fmt (s \<noteq> t) (m * n) (e + d)"
| "fmul fmt NaN _ = NaN"
| "fmul fmt _ NaN = NaN"
| "fmul fmt (Infinite s) (Infinite t) = Infinite (s \<noteq> t)"
| "fmul fmt (Infinite s) (Finite t n d) = (if n = 0 then NaN else Infinite (s \<noteq> t))"
| "fmul fmt (Finite s m e) (Infinite t) = (if m = 0 then NaN else Infinite (s \<noteq> t))"

definition signed_mant :: "bool \<Rightarrow> nat \<Rightarrow> int" where
  "signed_mant s m = (if s then - int m else int m)"

fun fadd :: "float_format \<Rightarrow> fval \<Rightarrow> fval \<Rightarrow> fval" where
  "fadd fmt (Finite s m e) (Finite t n d) =
     (let c = min e d;
          x = signed_mant s m * 2 ^ nat (e - c) + signed_mant t n * 2 ^ nat (d - c)
      in if x = 0 then Finite (s \<and> t) 0 0 else round_to fmt (x < 0) (nat \<bar>x\<bar>) c)"
| "fadd fmt NaN _ = NaN"
| "fadd fmt _ NaN = NaN"
| "fadd fmt (Infinite s) (Infinite t) = (if s = t then Infinite s else NaN)"
| "fadd fmt (Infinite s) (Finite _ _ _) = Infinite s"
| "fadd fmt (Finite _ _ _) (Infinite t) = Infinite t"

text \<open>Subtraction and the comparison \<open>x >= y\<close> (false on NaN).\<close>

fun fneg :: "fval \<Rightarrow> fval" where
  "fneg NaN = NaN"
| "fneg (Infinite s) = Infinite (\<not> s)"
| "fneg (Finite s m e) = Finite (\<not> s) m e"

definition fsub :: "float_format \<Rightarrow> fval \<Rightarrow> fval \<Rightarrow> fval" where
  "fsub fmt x y = fadd fmt x (fneg y)"

fun fge :: "fval \<Rightarrow> fval \<Rightarrow> bool" where
  "fge NaN _ = False"
| "fge _ NaN = False"
| "fge (Infinite s) (Infinite t) = (\<not> s \<or> t)"
| "fge (Infinite s) (Finite _ _ _) = (\<not> s)"
| "fge (Finite _ _ _) (Infinite t) = t"
| "fge (Finite s m e) (Finite t n d) =
     (let c = min e d in signed_mant s m * 2 ^ nat (e - c) \<ge> signed_mant t n * 2 ^ nat (d - c))"

text \<open>Division: the quotient with enough bits beyond the precision and a last bit that says whether it is
  exact, rounded.\<close>

fun fdiv :: "float_format \<Rightarrow> fval \<Rightarrow> fval \<Rightarrow> fval" where
  "fdiv fmt (Finite s m e) (Finite t n d) =
     (if n = 0 then (if m = 0 then NaN else Infinite (s \<noteq> t))
      else let k = precision fmt + bit_len n + 2;
               sticky = (if m * 2 ^ k mod n = 0 then 0 else 1)
           in round_to fmt (s \<noteq> t) (2 * (m * 2 ^ k div n) + sticky) (e - d - int k - 1))"
| "fdiv fmt NaN _ = NaN"
| "fdiv fmt _ NaN = NaN"
| "fdiv fmt (Infinite s) (Infinite t) = NaN"
| "fdiv fmt (Infinite s) (Finite t n d) = Infinite (s \<noteq> t)"
| "fdiv fmt (Finite s m e) (Infinite t) = Finite (s \<noteq> t) 0 0"

section \<open>Exactness of small integers\<close>

lemma bit_len_0 [simp]: "bit_len 0 = 0"
  by (simp add: bit_len.simps)

lemma bit_len_bounds: "0 < n \<Longrightarrow> 2 ^ (bit_len n - 1) \<le> n \<and> n < 2 ^ bit_len n \<and> 0 < bit_len n"
proof (induction n rule: bit_len.induct)
  case (1 n)
  show ?case
  proof (cases "n = 1")
    case True
    then show ?thesis by (simp add: bit_len.simps)
  next
    case False
    with "1.prems" have half: "0 < n div 2" by simp
    obtain k where k: "bit_len (n div 2) = Suc k"
      using "1.IH" "1.prems" half gr0_implies_Suc by blast
    have "2 ^ k \<le> n div 2" and "n div 2 < 2 ^ Suc k"
      using "1.IH" "1.prems" half k by auto
    then have "2 ^ Suc k \<le> n" and "n < 2 ^ Suc (Suc k)" by auto
    with k "1.prems" show ?thesis by (simp add: bit_len.simps [of n])
  qed
qed

lemma bit_len_le: "n < 2 ^ k \<Longrightarrow> bit_len n \<le> k"
proof (cases "n = 0")
  case True
  then show ?thesis by simp
next
  case False
  assume "n < 2 ^ k"
  with bit_len_bounds [of n] False have "(2::nat) ^ (bit_len n - 1) < 2 ^ k" by linarith
  then have "bit_len n - 1 < k" by (simp add: power_strict_increasing_iff)
  then show ?thesis by simp
qed

lemma round_shift_0 [simp]: "round_shift m 0 = m"
  by (simp add: round_shift_def)

lemma round_to_exact:
  "bit_len m \<le> precision fmt \<Longrightarrow> min_exp fmt \<le> e \<Longrightarrow> int (bit_len m) + e \<le> max_exp fmt \<Longrightarrow>
     round_to fmt s m e = mk_finite s m e"
  by (simp add: round_to_def)

lemma float_of_nat_binary32: "n < 2 ^ 24 \<Longrightarrow> float_of_nat binary32 n = mk_finite False n 0"
  using bit_len_le [of n 24] by (simp add: float_of_nat_def binary32_def round_to_exact)

text \<open>Evaluation rules.\<close>

lemma bit_len_step: "0 < n \<Longrightarrow> bit_len n = Suc (bit_len (n div 2))"
  by (simp add: bit_len.simps [of n])

lemma strip_zeros_step:
  "strip_zeros 0 e = (0, 0)" "odd m \<Longrightarrow> strip_zeros m e = (m, e)"
  "0 < m \<Longrightarrow> even m \<Longrightarrow> strip_zeros m e = strip_zeros (m div 2) (e + 1)"
  by (auto simp: strip_zeros.simps [of m] strip_zeros.simps [of 0])

lemmas float_eval =
  bit_len_step strip_zeros_step round_to_def round_shift_def mk_finite_def float_of_nat_def signed_mant_def
  binary32_def binary64_def

end
