(* ===== verification/Json_Value.thy ===== *)
theory Json_Value
  imports Ieee_Float
begin

text \<open>
  JSON values as the code sees them, and \<open>src/src/protocol/models.rs\<close>: request identities, ingress
  messages and callback events.

  The code matches on \<open>serde_json::Value\<close> directly, so the enum is a datatype with the same
  constructors; \<open>Map\<close> is the ordered map of the crate's default features, its accessors
  (\<open>get\<close>, \<open>as_str\<close>, \<open>pointer\<close>, indexed assignment) follow the crate's documentation. A number is an
  integer or a double; the crate's \<open>as_i64\<close>/\<open>as_u64\<close> succeed exactly on integers in range. JSON text
  (parsing and printing) is a parameter of the definitions that use it.
\<close>

datatype number = NInt int | NFloat fval

datatype json =
    JNull
  | JBool bool
  | JNumber number
  | JString string
  | JArray "json list"
  | JObject "(string \<times> json) list"

fun jget :: "string \<Rightarrow> json \<Rightarrow> json option" where
  "jget k (JObject m) = map_of m k"
| "jget k _ = None"

fun as_str :: "json \<Rightarrow> string option" where
  "as_str (JString s) = Some s"
| "as_str _ = None"

fun as_i64 :: "json \<Rightarrow> int option" where
  "as_i64 (JNumber (NInt n)) = (if - (2 ^ 63) \<le> n \<and> n < 2 ^ 63 then Some n else None)"
| "as_i64 _ = None"

fun as_u64 :: "json \<Rightarrow> nat option" where
  "as_u64 (JNumber (NInt n)) = (if 0 \<le> n \<and> n < 2 ^ 64 then Some (nat n) else None)"
| "as_u64 _ = None"

fun as_f64 :: "json \<Rightarrow> fval option" where
  "as_f64 (JNumber (NInt n)) = Some (float_of_int binary64 n)"
| "as_f64 (JNumber (NFloat x)) = Some x"
| "as_f64 _ = None"

fun as_bool :: "json \<Rightarrow> bool option" where
  "as_bool (JBool b) = Some b"
| "as_bool _ = None"

fun as_array :: "json \<Rightarrow> json list option" where
  "as_array (JArray vs) = Some vs"
| "as_array _ = None"

fun as_object :: "json \<Rightarrow> (string, json) btree_map option" where
  "as_object (JObject m) = Some m"
| "as_object _ = None"

definition is_object :: "json \<Rightarrow> bool" where
  "is_object v \<longleftrightarrow> as_object v \<noteq> None"

text \<open>\<open>Value::pointer\<close> for a path of field names (the code's pointers hold no array index), and the
  assignment through \<open>Value::pointer_mut\<close>; \<open>None\<close> is the panic of the following \<open>expect\<close>.\<close>

fun jpointer :: "string list \<Rightarrow> json \<Rightarrow> json option" where
  "jpointer [] v = Some v"
| "jpointer (k # ks) v = (case jget k v of None \<Rightarrow> None | Some w \<Rightarrow> jpointer ks w)"

fun jpointer_set :: "string list \<Rightarrow> json \<Rightarrow> json \<Rightarrow> json option" where
  "jpointer_set [] x v = Some x"
| "jpointer_set (k # ks) x (JObject m) =
     (case map_of m k of
        None \<Rightarrow> None
      | Some w \<Rightarrow> map_option (\<lambda>w'. JObject (bt_insert k w' m)) (jpointer_set ks x w))"
| "jpointer_set (k # ks) x _ = None"

text \<open>The assignment \<open>v[k] = x\<close>: inserts into an object, turns null into an object, panics otherwise.\<close>

fun jindex_set :: "string \<Rightarrow> json \<Rightarrow> json \<Rightarrow> json option" where
  "jindex_set k x (JObject m) = Some (JObject (bt_insert k x m))"
| "jindex_set k x JNull = Some (JObject [(k, x)])"
| "jindex_set k x _ = None"

definition jobject :: "(string \<times> json) list \<Rightarrow> json" where
  "jobject kvs = JObject (foldl (\<lambda>m (k, v). bt_insert k v m) [] kvs)"

text \<open>Values the crate can hold: ordered object keys, integers of 64 bits, finite doubles.\<close>

function json_wf :: "json \<Rightarrow> bool" where
  "json_wf JNull = True"
| "json_wf (JBool b) = True"
| "json_wf (JNumber (NInt n)) = (- (2 ^ 63) \<le> n \<and> n < 2 ^ 64)"
| "json_wf (JNumber (NFloat x)) = is_finite x"
| "json_wf (JString s) = True"
| "json_wf (JArray vs) = list_all json_wf vs"
| "json_wf (JObject m) = (bt_invar m \<and> list_all (\<lambda>p. json_wf (snd p)) m)"
  by pat_completeness auto
termination
  by (relation "measure size")
    (auto simp: less_Suc_eq_le intro: size_list_estimation'
      dest!: size_list_estimation' [where f = "size_prod (\<lambda>_. 0) size", OF _ order_refl])

section \<open>Rendering of scalars\<close>

definition digit_char :: "nat \<Rightarrow> char" where
  "digit_char d = char_of (48 + d)"

fun show_nat :: "nat \<Rightarrow> string" where
  "show_nat n = (if n < 10 then [digit_char n] else show_nat (n div 10) @ [digit_char (n mod 10)])"

declare show_nat.simps [simp del]

definition show_int :: "int \<Rightarrow> string" where
  "show_int n = (if n < 0 then CHR ''-'' # show_nat (nat (- n)) else show_nat (nat n))"

definition show_bool :: "bool \<Rightarrow> string" where
  "show_bool b = (if b then ''true'' else ''false'')"

section \<open>Request identities\<close>

text \<open>\<open>fmt_f64\<close> is the standard library's decimal rendering of a double; nothing below depends on it.\<close>

definition nested_scalar_to_string :: "(fval \<Rightarrow> string) \<Rightarrow> json \<Rightarrow> string list \<Rightarrow> string option" where
  "nested_scalar_to_string fmt_f64 payload keys =
     (case jpointer keys payload of
        None \<Rightarrow> None
      | Some current \<Rightarrow>
          (case as_str current of Some s \<Rightarrow> Some s | None \<Rightarrow>
          (case as_i64 current of Some n \<Rightarrow> Some (show_int n) | None \<Rightarrow>
          (case as_u64 current of Some n \<Rightarrow> Some (show_nat n) | None \<Rightarrow>
          (case as_f64 current of Some x \<Rightarrow> Some (fmt_f64 x) | None \<Rightarrow>
          (case as_bool current of Some b \<Rightarrow> Some (show_bool b) | None \<Rightarrow> None))))))"

definition unwrap_or_default :: "string option \<Rightarrow> string" where
  "unwrap_or_default s = (case s of None \<Rightarrow> [] | Some x \<Rightarrow> x)"

definition correlation_key :: "string \<Rightarrow> string \<Rightarrow> string" where
  "correlation_key ty topic = ty @ '' $ '' @ topic"

definition extract_key :: "(fval \<Rightarrow> string) \<Rightarrow> json \<Rightarrow> string option" where
  "extract_key fmt_f64 payload =
     (case nested_scalar_to_string fmt_f64 payload [''uuid''] of Some v \<Rightarrow> Some v | None \<Rightarrow>
     (case nested_scalar_to_string fmt_f64 payload [''header'', ''identity'', ''id''] of Some v \<Rightarrow> Some v | None \<Rightarrow>
     (case nested_scalar_to_string fmt_f64 payload [''req_uuid''] of Some v \<Rightarrow> Some v | None \<Rightarrow>
       (let ty = unwrap_or_default (nested_scalar_to_string fmt_f64 payload [''type'']);
            topic = unwrap_or_default (nested_scalar_to_string fmt_f64 payload [''topic''])
        in if ty = [] \<and> topic = [] then None else Some (correlation_key ty topic)))))"

section \<open>Messages and events\<close>

datatype dc_message = Text string | Binary bytes | TransportFault string

record ingress_message =
  im_generation :: u64
  im_payload :: dc_message

definition for_generation :: "dc_message \<Rightarrow> u64 \<Rightarrow> ingress_message" where
  "for_generation m g = \<lparr>im_generation = g, im_payload = m\<rparr>"

datatype callback_event =
    TopicCallback (ce_topic: string) (ce_payload: json)
  | LidarCallback (ce_topic: string) (ce_payload: json) (ce_points: "fval list")
  | VideoFrame (vf_data: bytes) (vf_width: nat) (vf_height: nat)
  | AudioFrame (af_data: "int list") (af_sample_rate: nat) (af_channels: nat)
  | FutureResolve (fr_key: string) (fr_result: json)

section \<open>Lemmas\<close>

lemma jget_Some_object: "jget k v = Some w \<Longrightarrow> \<exists>m. v = JObject m \<and> map_of m k = Some w"
  by (cases v) auto

lemma jpointer_append:
  "jpointer (xs @ ys) v = (case jpointer xs v of None \<Rightarrow> None | Some w \<Rightarrow> jpointer ys w)"
  by (induction xs arbitrary: v) (auto split: option.splits)

lemma jpointer_set_total: "jpointer ks v = Some w \<Longrightarrow> \<exists>v'. jpointer_set ks x v = Some v'"
proof (induction ks arbitrary: v)
  case Nil
  then show ?case by simp
next
  case (Cons k ks)
  then obtain m u where v: "v = JObject m" "map_of m k = Some u" "jpointer ks u = Some w"
    by (auto split: option.splits dest!: jget_Some_object)
  with Cons.IH show ?case by fastforce
qed

lemma list_all_bt_insert:
  "P (k, v) \<Longrightarrow> list_all P m \<Longrightarrow> list_all P (bt_insert k v m)"
  by (induction m) auto

lemma json_wf_lookup: "json_wf (JObject m) \<Longrightarrow> map_of m k = Some w \<Longrightarrow> json_wf w"
  by (auto simp: list_all_iff dest!: map_of_SomeD)

lemma json_wf_insert: "json_wf (JObject m) \<Longrightarrow> json_wf w \<Longrightarrow> json_wf (JObject (bt_insert k w m))"
  by (simp add: bt_insert_sorted list_all_bt_insert)

lemma jpointer_wf: "jpointer ks v = Some w \<Longrightarrow> json_wf v \<Longrightarrow> json_wf w"
  by (induction ks arbitrary: v)
    (auto split: option.splits dest!: jget_Some_object dest: json_wf_lookup simp del: json_wf.simps)

lemma jpointer_set_get:
  "jpointer_set ks x v = Some v' \<Longrightarrow> json_wf v \<Longrightarrow> jpointer ks v' = Some x"
proof (induction ks arbitrary: v v')
  case Nil
  then show ?case by simp
next
  case (Cons k ks)
  then obtain m w w' where
    v: "v = JObject m" "map_of m k = Some w" "jpointer_set ks x w = Some w'"
       "v' = JObject (bt_insert k w' m)"
    by (cases v) (auto split: option.splits)
  moreover have "json_wf w" using v Cons.prems(2) by (blast intro: json_wf_lookup)
  ultimately show ?case
    using Cons.IH Cons.prems(2) by (simp add: map_of_bt_insert)
qed

text \<open>Decimal rendering is injective, so distinct integer identities give distinct keys.\<close>

lemma digit_char_inj: "d < 10 \<Longrightarrow> e < 10 \<Longrightarrow> digit_char d = digit_char e \<Longrightarrow> d = e"
  by (auto simp: digit_char_def char_of_eq_iff take_bit_nat_def dest!: arg_cong [where f = "of_char :: char \<Rightarrow> nat"])

lemma show_nat_nonempty: "show_nat n \<noteq> []"
  by (subst show_nat.simps) simp

lemma show_nat_inj: "show_nat a = show_nat b \<Longrightarrow> a = b"
proof (induction a arbitrary: b rule: show_nat.induct)
  case (1 a)
  have a: "show_nat a = (if a < 10 then [] else show_nat (a div 10)) @ [digit_char (a mod 10)]"
    by (subst show_nat.simps) simp
  have b: "show_nat b = (if b < 10 then [] else show_nat (b div 10)) @ [digit_char (b mod 10)]"
    by (subst show_nat.simps) simp
  from "1.prems" a b have dig: "a mod 10 = b mod 10"
    and pre: "(if a < 10 then [] else show_nat (a div 10)) = (if b < 10 then [] else show_nat (b div 10))"
    by (auto intro: digit_char_inj)
  show ?case
  proof (cases "a < 10")
    case True
    with pre have "b < 10" using show_nat_nonempty [of "b div 10"] by (auto split: if_splits)
    with True dig show ?thesis by simp
  next
    case False
    with pre have "\<not> b < 10" and "show_nat (a div 10) = show_nat (b div 10)"
      using show_nat_nonempty [of "a div 10"] by (auto split: if_splits)
    with False "1.IH" have "a div 10 = b div 10" by blast
    with dig show ?thesis by (metis div_mult_mod_eq)
  qed
qed

lemma show_nat_digits: "set (show_nat n) \<subseteq> digit_char ` {0..<10}"
proof (induction n rule: show_nat.induct)
  case (1 n)
  then show ?case by (subst show_nat.simps) auto
qed

lemma minus_not_digit: "CHR ''-'' \<notin> digit_char ` {0..<10}"
  by (auto simp: digit_char_def dest!: arg_cong [where f = "of_char :: char \<Rightarrow> nat"])

lemma show_int_inj: "show_int a = show_int b \<Longrightarrow> a = b"
proof -
  assume eq: "show_int a = show_int b"
  have hd: "show_nat n \<noteq> CHR ''-'' # cs" for n cs
    using show_nat_digits [of n] minus_not_digit by auto
  show "a = b"
  proof (cases "a < 0"; cases "b < 0")
    assume "a < 0" "b < 0"
    with eq show ?thesis by (auto simp: show_int_def dest: show_nat_inj)
  next
    assume "\<not> a < 0" "\<not> b < 0"
    with eq show ?thesis by (auto simp: show_int_def dest: show_nat_inj)
  qed (use eq hd in \<open>auto simp: show_int_def dest: sym\<close>)
qed

end
