(* ===== verification/Ingress.thy ===== *)
theory Ingress
  imports Json_Value
begin

text \<open>
  \<open>src/src/protocol/ingress.rs\<close>: bounded admission of ingress JSON. The lexical work of the JSON
  crate is a parameter \<open>deserialize\<close>: it maps the input bytes to the visitor calls the crate would
  make (a \<open>raw_json\<close>, in which object entries keep their order and duplicates), or to nothing when
  the text is malformed or has trailing data. The visitor \<open>JsonAdmission\<close> and the key seed \<open>JsonKey\<close>
  are the code: each value and each key is charged before it is built, and containers are bounded in
  depth. A budget is threaded through the traversal as the remaining number of nodes.
\<close>

definition MAX_TEXT_BYTES :: nat where [policy_defs]: "MAX_TEXT_BYTES = 1024 * 1024"
definition MAX_BINARY_BYTES :: nat where [policy_defs]: "MAX_BINARY_BYTES = 1152 * 1024"
definition MAX_BINARY_HEADER_BYTES :: nat where [policy_defs]: "MAX_BINARY_HEADER_BYTES = 64 * 1024"
definition MAX_BINARY_EXPANSION_BYTES :: nat where
  [policy_defs]: "MAX_BINARY_EXPANSION_BYTES = 1024 * 1024"
definition MAX_JSON_NODES :: nat where [policy_defs]: "MAX_JSON_NODES = 65536"
definition MAX_JSON_DEPTH :: nat where [policy_defs]: "MAX_JSON_DEPTH = 64"

datatype raw_json =
    VisitUnit
  | VisitBool bool
  | VisitInt int \<comment> \<open>\<open>visit_i64\<close> and \<open>visit_u64\<close>\<close>
  | VisitF64 fval
  | VisitStr string
  | VisitSeq "raw_json list"
  | VisitMap "(string \<times> raw_json) list"

datatype json_error = NodeBudgetExceeded | DepthBudgetExceeded | NonfiniteNumber

fun admit :: "nat \<Rightarrow> nat \<Rightarrow> raw_json \<Rightarrow> json_error + json \<times> nat"
  and admit_seq :: "nat \<Rightarrow> nat \<Rightarrow> raw_json list \<Rightarrow> json_error + json list \<times> nat"
  and admit_map :: "nat \<Rightarrow> nat \<Rightarrow> (string, json) btree_map \<Rightarrow> (string \<times> raw_json) list
        \<Rightarrow> json_error + (string, json) btree_map \<times> nat"
where
  "admit 0 depth r = Inl NodeBudgetExceeded"
| "admit (Suc left) depth VisitUnit = Inr (JNull, left)"
| "admit (Suc left) depth (VisitBool b) = Inr (JBool b, left)"
| "admit (Suc left) depth (VisitInt n) = Inr (JNumber (NInt n), left)"
| "admit (Suc left) depth (VisitF64 x) =
     (if is_finite x then Inr (JNumber (NFloat x), left) else Inl NonfiniteNumber)"
| "admit (Suc left) depth (VisitStr s) = Inr (JString s, left)"
| "admit (Suc left) depth (VisitSeq rs) =
     (if depth \<ge> MAX_JSON_DEPTH then Inl DepthBudgetExceeded
      else case admit_seq left (Suc depth) rs of
             Inl e \<Rightarrow> Inl e
           | Inr (vs, left') \<Rightarrow> Inr (JArray vs, left'))"
| "admit (Suc left) depth (VisitMap kvs) =
     (if depth \<ge> MAX_JSON_DEPTH then Inl DepthBudgetExceeded
      else case admit_map left (Suc depth) [] kvs of
             Inl e \<Rightarrow> Inl e
           | Inr (m, left') \<Rightarrow> Inr (JObject m, left'))"
| "admit_seq left depth [] = Inr ([], left)"
| "admit_seq left depth (r # rs) =
     (case admit left depth r of
        Inl e \<Rightarrow> Inl e
      | Inr (v, left1) \<Rightarrow>
          (case admit_seq left1 depth rs of
             Inl e \<Rightarrow> Inl e
           | Inr (vs, left2) \<Rightarrow> Inr (v # vs, left2)))"
| "admit_map left depth m [] = Inr (m, left)"
| "admit_map left depth m ((k, r) # kvs) =
     (case left of
        0 \<Rightarrow> Inl NodeBudgetExceeded
      | Suc left0 \<Rightarrow>
          (case admit left0 depth r of
             Inl e \<Rightarrow> Inl e
           | Inr (v, left1) \<Rightarrow> admit_map left1 depth (bt_insert k v m) kvs))"

definition parse_json :: "(bytes \<Rightarrow> raw_json option) \<Rightarrow> bytes \<Rightarrow> string + json" where
  "parse_json deserialize data =
     (if length data > MAX_TEXT_BYTES then Inl ''Ingress JSON exceeds 1 MiB''
      else case deserialize data of
             None \<Rightarrow> Inl ''Invalid ingress JSON or resource budget exceeded''
           | Some r \<Rightarrow>
               (case admit MAX_JSON_NODES 0 r of
                  Inl _ \<Rightarrow> Inl ''Invalid ingress JSON or resource budget exceeded''
                | Inr (v, _) \<Rightarrow> Inr v))"

section \<open>Specification\<close>

text \<open>The number of visited nodes (values and keys, duplicates included), the nesting of containers,
  finiteness of every number, and the tree in which the last entry of a key wins.\<close>

fun nodes :: "raw_json \<Rightarrow> nat" where
  "nodes (VisitSeq rs) = Suc (sum_list (map nodes rs))"
| "nodes (VisitMap kvs) = Suc (sum_list (map (\<lambda>p. Suc (nodes (snd p))) kvs))"
| "nodes _ = 1"

fun nesting :: "raw_json \<Rightarrow> nat" where
  "nesting (VisitSeq rs) = Suc (fold max (map nesting rs) 0)"
| "nesting (VisitMap kvs) = Suc (fold max (map (\<lambda>p. nesting (snd p)) kvs) 0)"
| "nesting _ = 0"

fun all_finite :: "raw_json \<Rightarrow> bool" where
  "all_finite (VisitF64 x) = is_finite x"
| "all_finite (VisitSeq rs) = list_all all_finite rs"
| "all_finite (VisitMap kvs) = list_all (\<lambda>p. all_finite (snd p)) kvs"
| "all_finite _ = True"

fun build :: "raw_json \<Rightarrow> json" where
  "build VisitUnit = JNull"
| "build (VisitBool b) = JBool b"
| "build (VisitInt n) = JNumber (NInt n)"
| "build (VisitF64 x) = JNumber (NFloat x)"
| "build (VisitStr s) = JString s"
| "build (VisitSeq rs) = JArray (map build rs)"
| "build (VisitMap kvs) = JObject (foldl (\<lambda>m p. bt_insert (fst p) (build (snd p)) m) [] kvs)"

fun ints_in_range :: "raw_json \<Rightarrow> bool" where
  "ints_in_range (VisitInt n) = (- (2 ^ 63) \<le> n \<and> n < 2 ^ 64)"
| "ints_in_range (VisitSeq rs) = list_all ints_in_range rs"
| "ints_in_range (VisitMap kvs) = list_all (\<lambda>p. ints_in_range (snd p)) kvs"
| "ints_in_range _ = True"

definition within_budget :: "raw_json \<Rightarrow> bool" where
  "within_budget r \<longleftrightarrow> nodes r \<le> MAX_JSON_NODES \<and> nesting r \<le> MAX_JSON_DEPTH \<and> all_finite r"

section \<open>The traversal against its specification\<close>

lemma fold_max_le: "fold max xs (a::nat) \<le> b \<longleftrightarrow> a \<le> b \<and> (\<forall>x\<in>set xs. x \<le> b)"
  by (induction xs arbitrary: a) auto

lemma nested_le:
  "depth + Suc (fold max (map f xs) 0) \<le> b \<longleftrightarrow> depth < b \<and> (\<forall>x\<in>set xs. f x = 0 \<or> Suc depth + f x \<le> (b::nat))"
proof -
  have "depth + Suc (fold max (map f xs) 0) \<le> b \<longleftrightarrow> depth < b \<and> fold max (map f xs) 0 \<le> b - Suc depth"
    by linarith
  also have "\<dots> \<longleftrightarrow> depth < b \<and> (\<forall>x\<in>set xs. f x = 0 \<or> Suc depth + f x \<le> b)"
    by (fastforce simp: fold_max_le)
  finally show ?thesis .
qed

definition fits :: "nat \<Rightarrow> nat \<Rightarrow> raw_json \<Rightarrow> bool" where
  "fits left depth r \<longleftrightarrow> nodes r \<le> left \<and> (nesting r = 0 \<or> depth + nesting r \<le> MAX_JSON_DEPTH) \<and> all_finite r"

definition fits_seq :: "nat \<Rightarrow> nat \<Rightarrow> raw_json list \<Rightarrow> bool" where
  "fits_seq left depth rs \<longleftrightarrow>
     sum_list (map nodes rs) \<le> left \<and> 
     (\<forall>r\<in>set rs. (nesting r = 0 \<or> depth + nesting r \<le> MAX_JSON_DEPTH) \<and> all_finite r)"

definition fits_map :: "nat \<Rightarrow> nat \<Rightarrow> (string \<times> raw_json) list \<Rightarrow> bool" where
  "fits_map left depth kvs \<longleftrightarrow>
     sum_list (map (\<lambda>p. Suc (nodes (snd p))) kvs) \<le> left \<and>
     (\<forall>p\<in>set kvs. (nesting (snd p) = 0 \<or> depth + nesting (snd p) \<le> MAX_JSON_DEPTH) \<and> all_finite (snd p))"

lemma fits_VisitSeq:
  "fits (Suc left) depth (VisitSeq rs) \<longleftrightarrow> depth < MAX_JSON_DEPTH \<and> fits_seq left (Suc depth) rs"
  by (auto simp: fits_def fits_seq_def nested_le list_all_iff simp del: add_Suc_right)

lemma fits_VisitMap:
  "fits (Suc left) depth (VisitMap kvs) \<longleftrightarrow> depth < MAX_JSON_DEPTH \<and> fits_map left (Suc depth) kvs"
  by (auto simp: fits_def fits_map_def nested_le list_all_iff simp del: add_Suc_right)

lemma fits_seq_Cons:
  "fits_seq left depth (r # rs) \<longleftrightarrow> fits left depth r \<and> fits_seq (left - nodes r) depth rs"
  by (auto simp: fits_seq_def fits_def)

lemma fits_map_Cons:
  "fits_map (Suc left) depth ((k, r) # kvs) \<longleftrightarrow> fits left depth r \<and> fits_map (left - nodes r) depth kvs"
  by (auto simp: fits_map_def fits_def)

lemma nodes_pos: "0 < nodes r"
  by (cases r) auto

lemma admit_spec:
  "case admit left depth r of
     Inl _ \<Rightarrow> \<not> fits left depth r
   | Inr (v, left') \<Rightarrow> fits left depth r \<and> v = build r \<and> left' = left - nodes r"
  and admit_seq_spec:
  "case admit_seq left depth rs of
     Inl _ \<Rightarrow> \<not> fits_seq left depth rs
   | Inr (vs, left') \<Rightarrow> fits_seq left depth rs \<and> vs = map build rs \<and> left' = left - sum_list (map nodes rs)"
  and admit_map_spec:
  "case admit_map left depth m kvs of
     Inl _ \<Rightarrow> \<not> fits_map left depth kvs
   | Inr (m', left') \<Rightarrow> fits_map left depth kvs \<and>
       m' = foldl (\<lambda>m p. bt_insert (fst p) (build (snd p)) m) m kvs \<and>
       left' = left - sum_list (map (\<lambda>p. Suc (nodes (snd p))) kvs)"
proof (induction left depth r and left depth rs and left depth m kvs
    rule: admit_admit_seq_admit_map.induct)
  case (1 depth r)
  then show ?case using nodes_pos [of r] by (simp add: fits_def)
next
  case (7 left depth rs)
  then show ?case
    by (auto simp: fits_VisitSeq not_less split: sum.splits prod.splits)
next
  case (8 left depth kvs)
  then show ?case
    by (auto simp: fits_VisitMap not_less split: sum.splits prod.splits)
next
  case (10 left depth r rs)
  show ?case
  proof (cases "admit left depth r")
    case (Inl e)
    with 10(1) show ?thesis by (simp add: fits_seq_Cons)
  next
    case (Inr p)
    with 10(1) have p: "p = (build r, left - nodes r)" and "fits left depth r"
      by auto
    with 10(2) [OF Inr, of "build r" "left - nodes r"] Inr show ?thesis
      by (auto simp: fits_seq_Cons split: sum.splits)
  qed
next
  case (12 left depth m k r kvs)
  show ?case
  proof (cases left)
    case 0
    then show ?thesis by (simp add: fits_map_def)
  next
    case (Suc left0)
    show ?thesis
    proof (cases "admit left0 depth r")
      case (Inl e)
      with 12(1) [OF Suc] Suc show ?thesis by (simp add: fits_map_Cons)
    next
      case (Inr p)
      with 12(1) [OF Suc] have p: "p = (build r, left0 - nodes r)" and "fits left0 depth r"
        by auto
      with 12(2) [OF Suc Inr, of "build r" "left0 - nodes r"] Inr Suc show ?thesis
        by (auto simp: fits_map_Cons split: sum.splits)
    qed
  qed
qed (auto simp: fits_def fits_seq_def fits_map_def MAX_JSON_DEPTH_def)

section \<open>The admitted tree\<close>

fun json_nodes :: "json \<Rightarrow> nat" where
  "json_nodes (JArray vs) = Suc (sum_list (map json_nodes vs))"
| "json_nodes (JObject m) = Suc (sum_list (map (\<lambda>p. Suc (json_nodes (snd p))) m))"
| "json_nodes _ = 1"

fun json_nesting :: "json \<Rightarrow> nat" where
  "json_nesting (JArray vs) = Suc (fold max (map json_nesting vs) 0)"
| "json_nesting (JObject m) = Suc (fold max (map (\<lambda>p. json_nesting (snd p)) m) 0)"
| "json_nesting _ = 0"

abbreviation insert_entries ::
    "(string, json) btree_map \<Rightarrow> (string \<times> raw_json) list \<Rightarrow> (string, json) btree_map" where
  "insert_entries m kvs \<equiv> foldl (\<lambda>m p. bt_insert (fst p) (build (snd p)) m) m kvs"

lemma insert_entries_invar: "bt_invar m \<Longrightarrow> bt_invar (insert_entries m kvs)"
  by (induction kvs arbitrary: m) (auto simp: bt_insert_sorted)

lemma insert_entries_all:
  "list_all (\<lambda>p. P (snd p)) m \<Longrightarrow> (\<And>p. p \<in> set kvs \<Longrightarrow> P (build (snd p))) \<Longrightarrow>
     list_all (\<lambda>p. P (snd p)) (insert_entries m kvs)"
proof (induction kvs arbitrary: m)
  case Nil
  then show ?case by simp
next
  case (Cons p kvs)
  have "list_all (\<lambda>p. P (snd p)) (bt_insert (fst p) (build (snd p)) m)"
    using Cons.prems by (intro list_all_bt_insert) auto
  then show ?case using Cons.IH Cons.prems(2) by simp
qed

lemma bt_weight_insert_le:
  "bt_invar m \<Longrightarrow> bt.weight f (bt_insert k v m) \<le> f v + bt.weight f m"
  by (cases "map_of m k")
    (auto simp: bt.weight_insert_new dest: bt.weight_insert_over [where f = f and v = v])

lemma insert_entries_weight:
  "bt_invar m \<Longrightarrow> bt.weight f (insert_entries m kvs) \<le> bt.weight f m + sum_list (map (\<lambda>p. f (build (snd p))) kvs)"
proof (induction kvs arbitrary: m)
  case Nil
  then show ?case by simp
next
  case (Cons p kvs)
  have "bt.weight f (insert_entries (bt_insert (fst p) (build (snd p)) m) kvs) \<le>
      bt.weight f (bt_insert (fst p) (build (snd p)) m) + sum_list (map (\<lambda>p. f (build (snd p))) kvs)"
    using Cons.prems by (intro Cons.IH bt_insert_sorted)
  with bt_weight_insert_le [OF Cons.prems, of f "fst p" "build (snd p)"] show ?case by simp
qed

lemma build_wf: "all_finite r \<Longrightarrow> ints_in_range r \<Longrightarrow> json_wf (build r)"
proof (induction r rule: build.induct)
  case (7 kvs)
  then have "list_all (\<lambda>p. json_wf (snd p)) (insert_entries [] kvs)"
    by (intro insert_entries_all) (auto simp: list_all_iff)
  moreover have "bt_invar (insert_entries [] kvs)"
    by (rule insert_entries_invar) (simp add: bt_invar_def)
  ultimately show ?case by simp
qed (auto simp: list_all_iff)

lemma build_nodes: "json_nodes (build r) \<le> nodes r"
proof (induction r rule: build.induct)
  case (6 rs)
  then show ?case by (auto intro: sum_list_mono)
next
  case (7 kvs)
  have "bt.weight (\<lambda>v. Suc (json_nodes v)) (insert_entries [] kvs)
      \<le> sum_list (map (\<lambda>p. Suc (json_nodes (build (snd p)))) kvs)"
    using insert_entries_weight [of "[]" _ kvs] by (simp add: bt_invar_def bt.weight_def)
  also have "\<dots> \<le> sum_list (map (\<lambda>p. Suc (nodes (snd p))) kvs)"
    using 7 by (intro sum_list_mono) auto
  finally show ?case by (simp add: bt.weight_def)
qed auto

lemma build_nesting: "json_nesting (build r) \<le> nesting r"
proof (induction r rule: build.induct)
  case (6 rs)
  have "nesting x \<le> fold max (map nesting rs) 0" if "x \<in> set rs" for x
    using fold_max_le [of "map nesting rs" 0 "fold max (map nesting rs) 0"] that by auto
  with 6 show ?case by (fastforce simp: fold_max_le intro: order_trans)
next
  case (7 kvs)
  let ?b = "fold max (map (\<lambda>p. nesting (snd p)) kvs) 0"
  have "nesting (snd x) \<le> ?b" if "x \<in> set kvs" for x
    using fold_max_le [of "map (\<lambda>p. nesting (snd p)) kvs" 0 ?b] that by auto
  with 7 have "list_all (\<lambda>p. json_nesting (snd p) \<le> ?b) (insert_entries [] kvs)"
    by (intro insert_entries_all) (auto intro: order_trans [OF 7(1)])
  then show ?case by (simp add: fold_max_le list_all_iff)
qed auto

lemma admit_iff: "(\<exists>left. admit MAX_JSON_NODES 0 r = Inr (v, left)) \<longleftrightarrow> within_budget r \<and> v = build r"
  using admit_spec [of MAX_JSON_NODES 0 r]
  by (auto simp: within_budget_def fits_def split: sum.splits)

lemma parse_json_spec:
  "parse_json deserialize data =
     (if MAX_TEXT_BYTES < length data then Inl ''Ingress JSON exceeds 1 MiB''
      else case deserialize data of
             None \<Rightarrow> Inl ''Invalid ingress JSON or resource budget exceeded''
           | Some r \<Rightarrow> if within_budget r then Inr (build r)
                       else Inl ''Invalid ingress JSON or resource budget exceeded'')"
proof (cases "deserialize data")
  case None
  then show ?thesis by (simp add: parse_json_def)
next
  case (Some r)
  then show ?thesis
    using admit_spec [of MAX_JSON_NODES 0 r]
    by (auto simp: parse_json_def within_budget_def fits_def split: sum.splits)
qed

section \<open>Properties\<close>

text \<open>
  Property C35. Admission is exact: an input of at most 1 MiB is accepted if and only if it is JSON
  text whose tree has at most 65536 visited values and keys (overwritten duplicate keys included), at
  most 64 nested containers and only finite numbers; the result is then that tree, the last entry of a
  repeated key winning. Every other input gives a fixed message that does not depend on its content.
\<close>

theorem parse_json_exact:
  "parse_json deserialize data =
     (if MAX_TEXT_BYTES < length data then Inl ''Ingress JSON exceeds 1 MiB''
      else case deserialize data of
             None \<Rightarrow> Inl ''Invalid ingress JSON or resource budget exceeded''
           | Some r \<Rightarrow> if within_budget r then Inr (build r)
                       else Inl ''Invalid ingress JSON or resource budget exceeded'')"
  by (rule parse_json_spec)

text \<open>
  Property C36. Whatever the peer sends, an admitted document is a well-formed value (ordered object
  keys, 64-bit integers, finite doubles) of at most 65536 nodes and 64 nested containers, provided the
  JSON crate reports integers of 64 bits.
\<close>

theorem parse_json_bounded:
  assumes "\<And>r. deserialize data = Some r \<Longrightarrow> ints_in_range r"
    and "parse_json deserialize data = Inr v"
  shows "json_wf v \<and> json_nodes v \<le> 65536 \<and> json_nesting v \<le> 64"
proof -
  obtain r where r: "deserialize data = Some r" "within_budget r" "v = build r"
    using assms(2) by (auto simp: parse_json_spec split: if_splits option.splits)
  with assms(1) build_wf build_nodes [of r] build_nesting [of r] show ?thesis
    by (auto simp: within_budget_def MAX_JSON_NODES_def MAX_JSON_DEPTH_def)
qed

theorem parse_json_bounded_witness:
  "let v = JObject [(''a'', JArray [JNull]), (''b'', JNumber (NInt 7))]
   in json_wf v \<and> json_nodes v \<le> 65536 \<and> json_nesting v \<le> 64"
proof -
  let ?d = "\<lambda>_ :: bytes. Some (VisitMap [(''b'', VisitInt 1), (''a'', VisitSeq [VisitUnit]), (''b'', VisitInt 7)])"
  show ?thesis
    unfolding Let_def
    by (rule parse_json_bounded [of ?d "[]"])
      (simp_all add: parse_json_spec within_budget_def policy_defs)
qed

end
