(* ===== verification/Python_Values.thy ===== *)
theory Python_Values
  imports Ingress
begin

text \<open>
  \<open>src/src/interface/utils.rs\<close>: conversion between Python objects and JSON values. Python objects live in a
  heap of cells, so that containers can be shared and cyclic as in the interpreter; the heap does not
  change while an object is converted (the interpreter lock is held). An object that is none of the
  built-in types is known by what its conversions to a boolean, an integer and a float yield.
\<close>

section \<open>Objects\<close>

type_synonym py_ref = nat

datatype py_object =
  PyNone
| PyBool bool
| PyInt int
| PyFloat fval
| PyStr "string option" \<comment> \<open>\<open>None\<close>: text that has no UTF-8 form (lone surrogates)\<close>
| PyList "py_ref list"
| PyDict "(py_ref \<times> py_ref) list" \<comment> \<open>keys and values in insertion order\<close>
| PyForeign "bool option" "int option" "fval option"

type_synonym py_heap = "py_object list"

datatype py_error =
  PyValueError string | PyTypeError string | PyUnicodeError | PyRuntimeError string | PyNotImplementedError string

fun extract_bool :: "py_object \<Rightarrow> bool option" where
  "extract_bool (PyBool b) = Some b"
| "extract_bool (PyForeign b _ _) = b"
| "extract_bool _ = None"

fun extract_index :: "py_object \<Rightarrow> int option" where
  "extract_index (PyBool b) = Some (if b then 1 else 0)"
| "extract_index (PyInt n) = Some n"
| "extract_index (PyForeign _ n _) = n"
| "extract_index _ = None"

definition extract_i64 :: "py_object \<Rightarrow> int option" where
  "extract_i64 ob = (case extract_index ob of Some n \<Rightarrow> if - (2 ^ 63) \<le> n \<and> n < 2 ^ 63 then Some n else None | None \<Rightarrow> None)"

definition extract_u64 :: "py_object \<Rightarrow> int option" where
  "extract_u64 ob = (case extract_index ob of Some n \<Rightarrow> if 0 \<le> n \<and> n < 2 ^ 64 then Some n else None | None \<Rightarrow> None)"

fun extract_f64 :: "py_object \<Rightarrow> fval option" where
  "extract_f64 (PyFloat x) = Some x"
| "extract_f64 (PyForeign _ _ x) = x"
| "extract_f64 _ = None"

fun is_py_int :: "py_object \<Rightarrow> bool" where
  "is_py_int (PyBool _) = True"
| "is_py_int (PyInt _) = True"
| "is_py_int _ = False"

section \<open>Python to JSON\<close>

definition PY_MAX_JSON_DEPTH :: nat where [policy_defs]: "PY_MAX_JSON_DEPTH = 64"
definition PY_MAX_JSON_NODES :: nat where [policy_defs]: "PY_MAX_JSON_NODES = 16384"
definition PY_MAX_JSON_BYTES :: nat where [policy_defs]: "PY_MAX_JSON_BYTES = 1024 * 1024"

text \<open>\<open>size_of::<Value>()\<close> and \<open>size_of::<String>()\<close> of the target.\<close>

record value_sizes =
  size_of_value :: nat
  size_of_string :: nat

record json_budget =
  remaining_nodes :: nat
  remaining_bytes :: nat

definition charge_bytes :: "nat \<Rightarrow> json_budget \<Rightarrow> py_error + json_budget" where
  "charge_bytes n b =
     (if n > remaining_bytes b then Inl (PyValueError ''JSON byte budget exceeded'')
      else Inr (b\<lparr>remaining_bytes := remaining_bytes b - n\<rparr>))"

definition charge_node :: "value_sizes \<Rightarrow> json_budget \<Rightarrow> py_error + json_budget" where
  "charge_node Z b =
     (if remaining_nodes b = 0 then Inl (PyValueError ''JSON node budget exceeded'')
      else charge_bytes (size_of_value Z) (b\<lparr>remaining_nodes := remaining_nodes b - 1\<rparr>))"

definition check_children :: "value_sizes \<Rightarrow> nat \<Rightarrow> json_budget \<Rightarrow> py_error + unit" where
  "check_children Z count b =
     (if count > remaining_nodes b then Inl (PyValueError ''JSON node budget exceeded'')
      else if count > remaining_bytes b div size_of_value Z then Inl (PyValueError ''JSON byte budget exceeded'')
      else Inr ())"

definition copy_string :: "py_object \<Rightarrow> json_budget \<Rightarrow> py_error + string \<times> json_budget" where
  "copy_string ob b =
     (case ob of
        PyStr (Some s) \<Rightarrow> and_then (charge_bytes (length s) b) (\<lambda>b1. Inr (s, b1))
      | PyStr None \<Rightarrow> Inl PyUnicodeError
      | _ \<Rightarrow> Inl (PyTypeError ''object cannot be cast to str''))"

text \<open>The conversion of a scalar; \<open>None\<close> for what is left to the container cases.\<close>

definition convert_scalar :: "py_object \<Rightarrow> json_budget \<Rightarrow> (py_error + json \<times> json_budget) option" where
  "convert_scalar ob b =
     (if ob = PyNone then Some (Inr (JNull, b))
      else case extract_bool ob of Some v \<Rightarrow> Some (Inr (JBool v, b)) | None \<Rightarrow>
      case extract_i64 ob of Some n \<Rightarrow> Some (Inr (JNumber (NInt n), b)) | None \<Rightarrow>
      case extract_u64 ob of Some n \<Rightarrow> Some (Inr (JNumber (NInt n), b)) | None \<Rightarrow>
      if is_py_int ob then Some (Inl (PyValueError ''JSON integer must fit signed or unsigned 64-bit range''))
      else case extract_f64 ob of
        Some x \<Rightarrow>
          Some (if is_finite x then Inr (JNumber (NFloat x), b) else Inl (PyValueError ''JSON numbers must be finite''))
      | None \<Rightarrow>
          (case ob of
             PyStr _ \<Rightarrow> Some (and_then (copy_string ob b) (\<lambda>(s, b1). Inr (JString s, b1)))
           | PyList _ \<Rightarrow> None
           | PyDict _ \<Rightarrow> None
           | _ \<Rightarrow> Some (Inl (PyTypeError ''Unsupported type for JSON conversion''))))"

text \<open>\<open>convert_json\<close> with the set of the containers on the current path and the budget passed through; the loops
  over the elements of a list and the entries of a dictionary are the two functions beside it.\<close>

function convert_json :: "value_sizes \<Rightarrow> py_heap \<Rightarrow> py_ref \<Rightarrow> nat \<Rightarrow> py_ref set \<Rightarrow> json_budget \<Rightarrow>
    py_error + json \<times> py_ref set \<times> json_budget"
  and convert_items :: "value_sizes \<Rightarrow> py_heap \<Rightarrow> py_ref list \<Rightarrow> nat \<Rightarrow> py_ref set \<Rightarrow> json_budget \<Rightarrow>
    py_error + json list \<times> py_ref set \<times> json_budget"
  and convert_entries :: "value_sizes \<Rightarrow> py_heap \<Rightarrow> (py_ref \<times> py_ref) list \<Rightarrow> nat \<Rightarrow> py_ref set \<Rightarrow> (string, json) btree_map \<Rightarrow>
    json_budget \<Rightarrow> py_error + (string, json) btree_map \<times> py_ref set \<times> json_budget" where
  "convert_json Z h r depth active b =
     (case charge_node Z b of
        Inl err \<Rightarrow> Inl err
      | Inr b1 \<Rightarrow>
          (case convert_scalar (h ! r) b1 of
             Some (Inl err) \<Rightarrow> Inl err
           | Some (Inr (v, b2)) \<Rightarrow> Inr (v, active, b2)
           | None \<Rightarrow>
               if depth \<ge> PY_MAX_JSON_DEPTH then Inl (PyValueError ''JSON container depth exceeds 64'')
               else if r \<in> active then Inl (PyValueError ''Cyclic JSON container'')
               else
                 (case h ! r of
                    PyList items \<Rightarrow>
                      (case check_children Z (length items) b1 of
                         Inl err \<Rightarrow> Inl err
                       | Inr _ \<Rightarrow>
                           (case convert_items Z h items (Suc depth) (insert r active) b1 of
                              Inl err \<Rightarrow> Inl err
                            | Inr (vs, active1, b2) \<Rightarrow> Inr (JArray vs, active1 - {r}, b2)))
                  | PyDict entries \<Rightarrow>
                      (case check_children Z (length entries) b1 of
                         Inl err \<Rightarrow> Inl err
                       | Inr _ \<Rightarrow>
                           (case convert_entries Z h entries (Suc depth) (insert r active) [] b1 of
                              Inl err \<Rightarrow> Inl err
                            | Inr (m, active1, b2) \<Rightarrow> Inr (JObject m, active1 - {r}, b2)))
                  | _ \<Rightarrow> Inl (PyTypeError ''Unsupported type for JSON conversion''))))"
| "convert_items Z h [] depth active b = Inr ([], active, b)"
| "convert_items Z h (x # xs) depth active b =
     (case convert_json Z h x depth active b of
        Inl err \<Rightarrow> Inl err
      | Inr (v, active1, b1) \<Rightarrow>
          (case convert_items Z h xs depth active1 b1 of
             Inl err \<Rightarrow> Inl err
           | Inr (vs, active2, b2) \<Rightarrow> Inr (v # vs, active2, b2)))"
| "convert_entries Z h [] depth active m b = Inr (m, active, b)"
| "convert_entries Z h ((k, x) # es) depth active m b =
     (case and_then (charge_bytes (size_of_string Z) b) (copy_string (h ! k)) of
        Inl err \<Rightarrow> Inl err
      | Inr (key, b1) \<Rightarrow>
          (case convert_json Z h x depth active b1 of
             Inl err \<Rightarrow> Inl err
           | Inr (v, active1, b2) \<Rightarrow> convert_entries Z h es depth active1 (bt_insert key v m) b2))"
  by pat_completeness auto

text \<open>The depth check makes the conversion terminate on every heap, cyclic ones included.\<close>

termination
  by (relation "inv_image (less_than <*lex*> less_than) (\<lambda>a. case a of
      Inl (Z, h, r, depth, active, b) \<Rightarrow> (65 - depth, 0)
    | Inr (Inl (Z, h, xs, depth, active, b)) \<Rightarrow> (65 - depth, Suc (length xs))
    | Inr (Inr (Z, h, es, depth, active, m, b)) \<Rightarrow> (65 - depth, Suc (length es)))")
    (auto simp: policy_defs)

definition py_any_to_json_value :: "value_sizes \<Rightarrow> py_heap \<Rightarrow> py_ref \<Rightarrow> py_error + json" where
  "py_any_to_json_value Z h r =
     and_then (convert_json Z h r 0 {} \<lparr>remaining_nodes = PY_MAX_JSON_NODES, remaining_bytes = PY_MAX_JSON_BYTES\<rparr>)
       (\<lambda>(v, _, _). Inr v)"

declare convert_json.simps [simp del]

section \<open>JSON to Python\<close>

definition py_alloc :: "py_object \<Rightarrow> py_heap \<Rightarrow> py_ref \<times> py_heap" where
  "py_alloc ob h = (length h, h @ [ob])"

definition list_append :: "py_ref \<Rightarrow> py_ref \<Rightarrow> py_heap \<Rightarrow> py_heap" where
  "list_append r x h = (case h ! r of PyList xs \<Rightarrow> h[r := PyList (xs @ [x])] | _ \<Rightarrow> h)"

text \<open>\<open>PyDict::set_item\<close> with a string key: a key with the same text keeps its place.\<close>

definition dict_set_item :: "py_ref \<Rightarrow> string \<Rightarrow> py_ref \<Rightarrow> py_heap \<Rightarrow> py_heap" where
  "dict_set_item r key x h =
     (let (k, h1) = py_alloc (PyStr (Some key)) h in
      case h1 ! r of
        PyDict es \<Rightarrow>
          if (\<exists>e\<in>set es. h1 ! fst e = PyStr (Some key))
          then h1[r := PyDict (map (\<lambda>(k', x'). if h1 ! k' = PyStr (Some key) then (k', x) else (k', x')) es)]
          else h1[r := PyDict (es @ [(k, x)])]
      | _ \<Rightarrow> h1)"

definition number_to_py :: "number \<Rightarrow> py_object" where
  "number_to_py n =
     (case as_i64 (JNumber n) of
        Some i \<Rightarrow> PyInt i
      | None \<Rightarrow>
          (case as_u64 (JNumber n) of
             Some u \<Rightarrow> PyInt (int u)
           | None \<Rightarrow> (case as_f64 (JNumber n) of Some f \<Rightarrow> PyFloat f | None \<Rightarrow> PyNone)))"

function json_value_to_py :: "json \<Rightarrow> py_heap \<Rightarrow> py_ref \<times> py_heap"
  and append_all :: "py_ref \<Rightarrow> json list \<Rightarrow> py_heap \<Rightarrow> py_heap"
  and set_all :: "py_ref \<Rightarrow> (string \<times> json) list \<Rightarrow> py_heap \<Rightarrow> py_heap" where
  "json_value_to_py JNull h = py_alloc PyNone h"
| "json_value_to_py (JBool v) h = py_alloc (PyBool v) h"
| "json_value_to_py (JNumber n) h = py_alloc (number_to_py n) h"
| "json_value_to_py (JString s) h = py_alloc (PyStr (Some s)) h"
| "json_value_to_py (JArray vs) h = (let (r, h1) = py_alloc (PyList []) h in (r, append_all r vs h1))"
| "json_value_to_py (JObject m) h = (let (r, h1) = py_alloc (PyDict []) h in (r, set_all r m h1))"
| "append_all r [] h = h"
| "append_all r (v # vs) h = (let (x, h1) = json_value_to_py v h in append_all r vs (list_append r x h1))"
| "set_all r [] h = h"
| "set_all r ((k, v) # es) h = (let (x, h1) = json_value_to_py v h in set_all r es (dict_set_item r k x h1))"
  by pat_completeness auto
termination
  by (relation "measure (\<lambda>a. case a of Inl (v, h) \<Rightarrow> size v | Inr (Inl (r, vs, h)) \<Rightarrow> size_list size vs
      | Inr (Inr (r, es, h)) \<Rightarrow> size_list (size_prod (\<lambda>_. 0) size) es)") auto

definition to_py_error :: "string \<Rightarrow> py_error" where
  "to_py_error err =
     (if \<exists>i \<le> length err. take (length ''not implemented'') (drop i err) = ''not implemented''
      then PyNotImplementedError err else PyRuntimeError err)"

section \<open>Bounds of the conversion\<close>

fun value_nodes :: "json \<Rightarrow> nat" where
  "value_nodes (JArray vs) = Suc (sum_list (map value_nodes vs))"
| "value_nodes (JObject m) = Suc (sum_list (map (\<lambda>p. value_nodes (snd p)) m))"
| "value_nodes _ = 1"

fun value_bytes :: "value_sizes \<Rightarrow> json \<Rightarrow> nat" where
  "value_bytes Z (JArray vs) = size_of_value Z + sum_list (map (value_bytes Z) vs)"
| "value_bytes Z (JObject m) =
     size_of_value Z + sum_list (map (\<lambda>p. size_of_string Z + length (fst p) + value_bytes Z (snd p)) m)"
| "value_bytes Z (JString s) = size_of_value Z + length s"
| "value_bytes Z _ = size_of_value Z"

lemma sum_bt_insert: "sum_list (map f (bt_insert k v m)) \<le> f (k, v) + sum_list (map (f :: _ \<Rightarrow> nat) m)"
  by (induction m) auto

lemma charge_node_Inr:
  "charge_node Z b = Inr b1 \<longleftrightarrow>
     0 < remaining_nodes b \<and> size_of_value Z \<le> remaining_bytes b \<and>
     b1 = \<lparr>remaining_nodes = remaining_nodes b - 1, remaining_bytes = remaining_bytes b - size_of_value Z\<rparr>"
  by (cases b) (auto simp: charge_node_def charge_bytes_def)

lemma charge_bytes_Inr:
  "charge_bytes n b = Inr b1 \<longleftrightarrow> n \<le> remaining_bytes b \<and> b1 = b\<lparr>remaining_bytes := remaining_bytes b - n\<rparr>"
  by (auto simp: charge_bytes_def)

lemma copy_string_Inr:
  "copy_string ob b = Inr (s, b1) \<longleftrightarrow>
     ob = PyStr (Some s) \<and> length s \<le> remaining_bytes b \<and> b1 = b\<lparr>remaining_bytes := remaining_bytes b - length s\<rparr>"
  by (auto simp: copy_string_def and_then_Inr_iff charge_bytes_Inr split: py_object.splits option.splits)

text \<open>A converted value is well formed and paid for by the budget, and fits below the given depth.\<close>

definition charged :: "value_sizes \<Rightarrow> nat \<Rightarrow> json \<Rightarrow> json_budget \<Rightarrow> json_budget \<Rightarrow> bool" where
  "charged Z depth v b b' \<longleftrightarrow>
     json_wf v \<and> value_nodes v + remaining_nodes b' \<le> remaining_nodes b \<and>
     value_bytes Z v + remaining_bytes b' \<le> remaining_bytes b \<and>
     (json_nesting v = 0 \<or> depth + json_nesting v \<le> PY_MAX_JSON_DEPTH)"

definition charged_items :: "value_sizes \<Rightarrow> nat \<Rightarrow> json list \<Rightarrow> json_budget \<Rightarrow> json_budget \<Rightarrow> bool" where
  "charged_items Z depth vs b b' \<longleftrightarrow>
     list_all json_wf vs \<and> sum_list (map value_nodes vs) + remaining_nodes b' \<le> remaining_nodes b \<and>
     sum_list (map (value_bytes Z) vs) + remaining_bytes b' \<le> remaining_bytes b \<and>
     (\<forall>v\<in>set vs. json_nesting v = 0 \<or> depth + json_nesting v \<le> PY_MAX_JSON_DEPTH)"

definition charged_entries ::
  "value_sizes \<Rightarrow> nat \<Rightarrow> (string, json) btree_map \<Rightarrow> (string, json) btree_map \<Rightarrow> json_budget \<Rightarrow> json_budget \<Rightarrow> bool" where
  "charged_entries Z depth m m' b b' \<longleftrightarrow>
     (bt_invar m \<longrightarrow> list_all (\<lambda>p. json_wf (snd p)) m \<longrightarrow> bt_invar m' \<and> list_all (\<lambda>p. json_wf (snd p)) m') \<and>
     sum_list (map (\<lambda>p. value_nodes (snd p)) m') + remaining_nodes b' \<le> sum_list (map (\<lambda>p. value_nodes (snd p)) m) + remaining_nodes b \<and>
     sum_list (map (\<lambda>p. size_of_string Z + length (fst p) + value_bytes Z (snd p)) m') + remaining_bytes b' \<le>
       sum_list (map (\<lambda>p. size_of_string Z + length (fst p) + value_bytes Z (snd p)) m) + remaining_bytes b \<and>
     ((\<forall>p\<in>set m. json_nesting (snd p) = 0 \<or> depth + json_nesting (snd p) \<le> PY_MAX_JSON_DEPTH) \<longrightarrow>
      (\<forall>p\<in>set m'. json_nesting (snd p) = 0 \<or> depth + json_nesting (snd p) \<le> PY_MAX_JSON_DEPTH))"

lemma scalar_charged:
  assumes "charge_node Z b = Inr b1" "convert_scalar ob b1 = Some (Inr (v, b2))"
  shows "charged Z depth v b b2"
  using assms
  by (auto simp: convert_scalar_def charged_def charge_node_Inr copy_string_Inr extract_i64_def extract_u64_def and_then_Inr_iff
      split: if_splits option.splits py_object.splits prod.splits)

lemma entry_charged:
  assumes key: "and_then (charge_bytes (size_of_string Z) b) (copy_string (h ! k)) = Inr (key, b1)"
    and v: "charged Z depth v b1 b2" and rest: "charged_entries Z depth (bt_insert key v m) m' b2 b'"
  shows "charged_entries Z depth m m' b b'"
proof -
  let ?n = "\<lambda>p. value_nodes (snd p)" and ?s = "\<lambda>p. size_of_string Z + length (fst p) + value_bytes Z (snd p)"
  have b1: "remaining_nodes b1 = remaining_nodes b" "size_of_string Z + length key + remaining_bytes b1 = remaining_bytes b"
    using key by (auto simp: and_then_Inr_iff charge_bytes_Inr copy_string_Inr)
  have wf: "list_all (\<lambda>p. json_wf (snd p)) m \<Longrightarrow> list_all (\<lambda>p. json_wf (snd p)) (bt_insert key v m)"
    using v by (intro list_all_bt_insert) (auto simp: charged_def)
  have nest: "\<forall>p\<in>set (bt_insert key v m). P (snd p)" if "\<forall>p\<in>set m. P (snd p)" "P v" for P
    using that list_all_bt_insert [where P = "\<lambda>p. P (snd p)" and m = m and k = key and v = v] by (simp add: list_all_iff)
  show ?thesis
    using v rest b1 wf bt_insert_sorted sum_bt_insert [of ?n key v m] sum_bt_insert [of ?s key v m]
      nest [of "\<lambda>x. json_nesting x = 0 \<or> depth + json_nesting x \<le> PY_MAX_JSON_DEPTH"]
    unfolding charged_entries_def charged_def by fastforce
qed

lemma container_cases:
  assumes "convert_scalar ob b = None"
  obtains (list) items where "ob = PyList items" | (dict) entries where "ob = PyDict entries"
  using assms by (auto simp: convert_scalar_def split: if_splits option.splits py_object.splits)

lemma convert_charged:
  "convert_json Z h r depth active b = Inr (v, active', b') \<Longrightarrow> charged Z depth v b b' \<and> active' = active"
  "convert_items Z h xs depth active b = Inr (vs, active', b') \<Longrightarrow> charged_items Z depth vs b b' \<and> active' = active"
  "convert_entries Z h es depth active m b = Inr (m', active', b') \<Longrightarrow> charged_entries Z depth m m' b b' \<and> active' = active"
proof (induction Z h r depth active b and Z h xs depth active b and Z h es depth active m b
    arbitrary: v active' b' and vs active' b' and m' active' b' rule: convert_json_convert_items_convert_entries.induct)
  case (1 Z h r depth active b)
  from "1.prems" obtain b1 where b1: "charge_node Z b = Inr b1" by (auto simp: convert_json.simps [of Z h r] split: sum.splits)
  have paid: "remaining_nodes b = Suc (remaining_nodes b1)" "remaining_bytes b = size_of_value Z + remaining_bytes b1"
    using b1 by (auto simp: charge_node_Inr)
  show ?case
  proof (cases "convert_scalar (h ! r) b1")
    case (Some out)
    with "1.prems" b1 obtain b2 where "out = Inr (v, b')" "active' = active"
      by (auto simp: convert_json.simps [of Z h r] split: sum.splits prod.splits)
    with scalar_charged [OF b1] Some show ?thesis by simp
  next
    case None
    have ok: "\<not> depth \<ge> PY_MAX_JSON_DEPTH" "r \<notin> active"
      using "1.prems" b1 None by (auto simp: convert_json.simps [of Z h r] split: if_splits)
    from None show ?thesis
    proof (cases rule: container_cases)
      case (list items)
      with "1.prems" b1 None ok obtain vs active1 where check: "check_children Z (length items) b1 = Inr ()"
        and rec: "convert_items Z h items (Suc depth) (insert r active) b1 = Inr (vs, active1, b')"
        and out: "v = JArray vs" "active' = active1 - {r}"
        by (auto simp: convert_json.simps [of Z h r] split: sum.splits)
      have "charged_items Z (Suc depth) vs b1 b' \<and> active1 = insert r active"
        using "1.IH"(1) [OF b1 None ok list check rec] .
      with out ok paid show ?thesis by (auto simp: charged_items_def charged_def nested_le [unfolded add_Suc_right])
    next
      case (dict entries)
      with "1.prems" b1 None ok obtain m active1 where check: "check_children Z (length entries) b1 = Inr ()"
        and rec: "convert_entries Z h entries (Suc depth) (insert r active) [] b1 = Inr (m, active1, b')"
        and out: "v = JObject m" "active' = active1 - {r}"
        by (auto simp: convert_json.simps [of Z h r] split: sum.splits)
      have "charged_entries Z (Suc depth) [] m b1 b' \<and> active1 = insert r active"
        using "1.IH"(2) [OF b1 None ok dict check rec] .
      with out ok paid show ?thesis by (auto simp: charged_entries_def charged_def nested_le [unfolded add_Suc_right] bt_invar_def)
    qed
  qed
next
  case (3 Z h x xs depth active b)
  then show ?case by (fastforce simp: charged_items_def charged_def split: sum.splits)
next
  case (5 Z h k x es depth active m b)
  from "5.prems" obtain key b1 v active1 b2 where
    key: "and_then (charge_bytes (size_of_string Z) b) (copy_string (h ! k)) = Inr (key, b1)"
    and v: "convert_json Z h x depth active b1 = Inr (v, active1, b2)"
    and rest: "convert_entries Z h es depth active1 (bt_insert key v m) b2 = Inr (m', active', b')"
    by (auto split: sum.splits)
  from "5.IH"(1) [OF key refl v] "5.IH"(2) [OF key refl v refl refl rest] entry_charged [OF key] show ?case by blast
qed (auto simp: charged_items_def charged_entries_def)

text \<open>
  A Python object is only converted to a bounded, valid JSON value: at most 16384 values, one MiB of
  values, texts and keys, containers nested at most 64 deep, integers of 64 bits, finite floats and ordered
  distinct keys.
\<close>

theorem python_conversion_bounded:
  assumes "py_any_to_json_value Z h r = Inr v"
  shows "json_wf v \<and> value_nodes v \<le> 16384 \<and> value_bytes Z v \<le> 1024 * 1024 \<and> json_nesting v \<le> 64"
  using assms convert_charged(1) [of Z h r 0 "{}"]
  by (fastforce simp: py_any_to_json_value_def and_then_Inr_iff charged_def policy_defs)

section \<open>Cycles\<close>

definition py_child :: "py_heap \<Rightarrow> py_ref \<Rightarrow> py_ref \<Rightarrow> bool" where
  "py_child h r x \<longleftrightarrow> (case h ! r of PyList xs \<Rightarrow> x \<in> set xs | PyDict es \<Rightarrow> x \<in> set (map snd es) | _ \<Rightarrow> False)"

definition converts :: "value_sizes \<Rightarrow> py_heap \<Rightarrow> py_ref \<Rightarrow> nat \<Rightarrow> bool" where
  "converts Z h r depth \<longleftrightarrow> (\<exists>active b. \<not> isl (convert_json Z h r depth active b))"

lemma convertsI: "\<not> isl (convert_json Z h r depth active b) \<Longrightarrow> converts Z h r depth"
  unfolding converts_def by blast

lemma items_convert: "\<not> isl (convert_items Z h xs depth active b) \<Longrightarrow> x \<in> set xs \<Longrightarrow> converts Z h x depth"
proof (induction xs arbitrary: active b)
  case (Cons y ys)
  from Cons.prems(1) obtain v active1 b1 where head: "convert_json Z h y depth active b = Inr (v, active1, b1)"
    and tail: "\<not> isl (convert_items Z h ys depth active1 b1)" by (auto split: sum.splits)
  from head have "converts Z h y depth" by (intro convertsI [of Z h y depth active b]) simp
  with Cons.IH [OF tail] Cons.prems(2) show ?case by auto
qed simp

lemma entries_convert: "\<not> isl (convert_entries Z h es depth active m b) \<Longrightarrow> x \<in> set (map snd es) \<Longrightarrow> converts Z h x depth"
proof (induction es arbitrary: active m b)
  case (Cons e es)
  obtain k y where e: "e = (k, y)" by (cases e)
  from Cons.prems(1) obtain key b0 v active1 b1 where head: "convert_json Z h y depth active b0 = Inr (v, active1, b1)"
    and tail: "\<not> isl (convert_entries Z h es depth active1 (bt_insert key v m) b1)" by (auto simp: e split: sum.splits)
  from head have "converts Z h y depth" by (intro convertsI [of Z h y depth active b0]) simp
  with Cons.IH [OF tail] Cons.prems(2) show ?case by (auto simp: e)
qed simp

lemma child_converts:
  assumes "\<not> isl (convert_json Z h r depth active b)" "py_child h r x"
  shows "depth < PY_MAX_JSON_DEPTH \<and> converts Z h x (Suc depth)"
proof -
  obtain b1 where b1: "charge_node Z b = Inr b1" using assms(1) by (auto simp: convert_json.simps [of Z h r] split: sum.splits)
  have none: "convert_scalar (h ! r) b1 = None"
    using assms(2) by (auto simp: py_child_def convert_scalar_def extract_i64_def extract_u64_def split: py_object.splits)
  have depth: "depth < PY_MAX_JSON_DEPTH" using assms(1) b1 none by (auto simp: convert_json.simps [of Z h r] split: if_splits)
  from none have "converts Z h x (Suc depth)"
  proof (cases rule: container_cases)
    case (list items)
    then have "\<not> isl (convert_items Z h items (Suc depth) (insert r active) b1)"
      using assms(1) b1 none by (auto simp: convert_json.simps [of Z h r] split: sum.splits if_splits)
    then show ?thesis by (rule items_convert) (use assms(2) list in \<open>simp add: py_child_def\<close>)
  next
    case (dict entries)
    then have "\<not> isl (convert_entries Z h entries (Suc depth) (insert r active) [] b1)"
      using assms(1) b1 none by (auto simp: convert_json.simps [of Z h r] split: sum.splits if_splits)
    then show ?thesis by (rule entries_convert) (use assms(2) dict in \<open>simp add: py_child_def\<close>)
  qed
  with depth show ?thesis by simp
qed

lemma path_bounded: "(py_child h ^^ n) r x \<Longrightarrow> converts Z h r depth \<Longrightarrow> n = 0 \<or> depth + n \<le> PY_MAX_JSON_DEPTH"
proof (induction n arbitrary: r depth)
  case (Suc n)
  obtain y where y: "py_child h r y" "(py_child h ^^ n) y x" using relpowp_Suc_D2 [OF Suc.prems(1)] by blast
  obtain active b where "\<not> isl (convert_json Z h r depth active b)" using Suc.prems(2) unfolding converts_def by blast
  from child_converts [OF this y(1)] Suc.IH [OF y(2), of "Suc depth"] show ?case by fastforce
qed simp

lemma cycle_paths:
  assumes "(R ^^ m) c c" "0 < m"
  shows "(R ^^ (k * m)) c c"
  by (induction k) (use assms in \<open>auto simp: relpowp_add\<close>)

text \<open>
  Property C20. A Python object from which a cycle of lists and dictionaries can be reached is refused: the
  conversion returns, with an error.
\<close>

theorem python_cycles_refused:
  assumes "(py_child h)\<^sup>*\<^sup>* r c" "(py_child h)\<^sup>+\<^sup>+ c c"
  shows "\<exists>err. py_any_to_json_value Z h r = Inl err"
proof (cases "py_any_to_json_value Z h r")
  case (Inr v)
  then have out: "\<not> isl (convert_json Z h r 0 {} \<lparr>remaining_nodes = PY_MAX_JSON_NODES, remaining_bytes = PY_MAX_JSON_BYTES\<rparr>)"
    by (auto simp: py_any_to_json_value_def and_then_Inr_iff)
  obtain k m where km: "(py_child h ^^ k) r c" "(py_child h ^^ m) c c" "0 < m"
    using assms by (auto simp: rtranclp_is_Sup_relpowp tranclp_power)
  have "(py_child h ^^ (k + 65 * m)) r c"
    using km(1) cycle_paths [OF km(2,3), of 65] by (auto simp: relpowp_add)
  from path_bounded [OF this convertsI [OF out]] km(3) show ?thesis by (simp add: policy_defs)
qed blast

section \<open>What an object stands for\<close>

fun scalar_value :: "py_object \<Rightarrow> json option" where
  "scalar_value PyNone = Some JNull"
| "scalar_value (PyBool b) = Some (JBool b)"
| "scalar_value (PyInt n) = (if - (2 ^ 63) \<le> n \<and> n < 2 ^ 64 then Some (JNumber (NInt n)) else None)"
| "scalar_value (PyFloat x) = (if is_finite x then Some (JNumber (NFloat x)) else None)"
| "scalar_value (PyStr (Some s)) = Some (JString s)"
| "scalar_value _ = None"

text \<open>The JSON value of an object whose cells all lie at or above \<open>n\<close>; lists and dictionaries may be shared.\<close>

inductive reads :: "py_heap \<Rightarrow> nat \<Rightarrow> py_ref \<Rightarrow> json \<Rightarrow> bool" for h n where
  scalar: "n \<le> r \<Longrightarrow> r < length h \<Longrightarrow> scalar_value (h ! r) = Some v \<Longrightarrow> reads h n r v"
| list: "n \<le> r \<Longrightarrow> r < length h \<Longrightarrow> h ! r = PyList xs \<Longrightarrow> list_all2 (reads h n) xs vs \<Longrightarrow> reads h n r (JArray vs)"
| dict: "n \<le> r \<Longrightarrow> r < length h \<Longrightarrow> h ! r = PyDict es \<Longrightarrow>
    list_all2 (\<lambda>e p. n \<le> fst e \<and> fst e < length h \<and> h ! fst e = PyStr (Some (fst p)) \<and> reads h n (snd e) (snd p)) es kvs \<Longrightarrow>
    distinct (map fst kvs) \<Longrightarrow> reads h n r (JObject (foldl (\<lambda>m p. bt_insert (fst p) (snd p) m) [] kvs))"

inductive_cases reads_listE: "reads h n r (JArray vs)"
inductive_cases reads_dictE: "reads h n r (JObject m)"

lemma reads_extend:
  assumes "reads h n r v" "length h \<le> length h'" "\<And>i. n \<le> i \<Longrightarrow> i < length h \<Longrightarrow> h' ! i = h ! i"
  shows "reads h' n r v"
  using assms(1)
proof (induction rule: reads.induct)
  case (scalar r v)
  with assms show ?case by (intro reads.scalar) auto
next
  case (list r xs vs)
  with assms show ?case by (intro reads.list) (auto elim: list_all2_mono)
next
  case (dict r es kvs)
  with assms show ?case by (intro reads.dict [of _ _ _ es]) (auto elim!: list_all2_mono)
qed

lemma reads_lower: "reads h n r v \<Longrightarrow> n' \<le> n \<Longrightarrow> reads h n' r v"
proof (induction rule: reads.induct)
  case (scalar r v)
  then show ?case by (intro reads.scalar) auto
next
  case (list r xs vs)
  then show ?case by (intro reads.list) (auto elim: list_all2_mono)
next
  case (dict r es kvs)
  then show ?case by (intro reads.dict [of _ _ _ es]) (auto elim!: list_all2_mono)
qed

lemma list_all2_unique:
  "list_all2 (\<lambda>x v. \<forall>w. R x w \<longrightarrow> w = v) xs vs \<Longrightarrow> list_all2 R xs ws \<Longrightarrow> ws = vs"
  by (induction xs vs arbitrary: ws rule: list_all2_induct) (auto simp: list_all2_Cons1)

lemma reads_unique: "reads h n r v \<Longrightarrow> reads h n r w \<Longrightarrow> w = v"
proof (induction arbitrary: w rule: reads.induct)
  case (scalar r v)
  from scalar.prems scalar.hyps show ?case by (cases rule: reads.cases) auto
next
  case (list r xs vs)
  from list.prems show ?case
  proof (cases rule: reads.cases)
    case (list ys ws)
    with list.hyps(3) have "list_all2 (reads h n) xs ws" by simp
    then have "ws = vs" by (intro list_all2_unique [where R = "reads h n" and xs = xs]) (use list.IH in \<open>auto elim: list_all2_mono\<close>)
    with list show ?thesis by simp
  qed (use list.hyps in auto)
next
  case (dict r es kvs)
  from dict.prems show ?case
  proof (cases rule: reads.cases)
    case (dict es' kvs')
    let ?R = "\<lambda>e p. n \<le> fst e \<and> fst e < length h \<and> h ! fst e = PyStr (Some (fst p)) \<and> reads h n (snd e) (snd p)"
    have "list_all2 ?R es kvs'" using dict by (simp add: dict.hyps)
    moreover have "list_all2 (\<lambda>e p. \<forall>q. ?R e q \<longrightarrow> q = p) es kvs"
      using dict.IH by (rule list_all2_mono) (auto simp: prod_eq_iff)
    ultimately have "kvs' = kvs" by (rule list_all2_unique [rotated])
    with dict show ?thesis by simp
  qed (use dict.hyps in auto)
qed

section \<open>Exactness\<close>

definition affordable :: "value_sizes \<Rightarrow> nat \<Rightarrow> json \<Rightarrow> json_budget \<Rightarrow> bool" where
  "affordable Z depth v b \<longleftrightarrow>
     value_nodes v \<le> remaining_nodes b \<and> value_bytes Z v \<le> remaining_bytes b \<and>
     (json_nesting v = 0 \<or> depth + json_nesting v \<le> PY_MAX_JSON_DEPTH)"

definition spend :: "nat \<Rightarrow> nat \<Rightarrow> json_budget \<Rightarrow> json_budget" where
  "spend k n b = \<lparr>remaining_nodes = remaining_nodes b - k, remaining_bytes = remaining_bytes b - n\<rparr>"

text \<open>No container on the current path is the object itself.\<close>

definition clear_path :: "py_heap \<Rightarrow> nat \<Rightarrow> py_ref set \<Rightarrow> json \<Rightarrow> bool" where
  "clear_path h n active v \<longleftrightarrow> (\<forall>a\<in>active. \<exists>w. reads h n a w \<and> value_nodes v < value_nodes w)"

definition converted :: "value_sizes \<Rightarrow> py_heap \<Rightarrow> nat \<Rightarrow> py_ref \<Rightarrow> json \<Rightarrow> bool" where
  "converted Z h n r v \<longleftrightarrow>
     (\<forall>depth active b. affordable Z depth v b \<longrightarrow> clear_path h n active v \<longrightarrow>
        convert_json Z h r depth active b = Inr (v, active, spend (value_nodes v) (value_bytes Z v) b))"

lemma spend_simps [simp]:
  "remaining_nodes (spend k n b) = remaining_nodes b - k" "remaining_bytes (spend k n b) = remaining_bytes b - n"
  "spend k' n' (spend k n b) = spend (k + k') (n + n') b" "spend 0 0 b = b"
  by (simp_all add: spend_def)

lemma charge_node_spend: "0 < remaining_nodes b \<Longrightarrow> size_of_value Z \<le> remaining_bytes b \<Longrightarrow> charge_node Z b = Inr (spend 1 (size_of_value Z) b)"
  by (simp add: charge_node_Inr spend_def)

lemma value_min: "0 < value_nodes v" "size_of_value Z \<le> value_bytes Z v"
  by (cases v; simp)+

lemma affordable_node: "affordable Z depth v b \<Longrightarrow> charge_node Z b = Inr (spend 1 (size_of_value Z) b)"
  using value_min(1) [of v] value_min(2) [of Z v] by (intro charge_node_spend) (simp_all add: affordable_def)

lemma convert_scalar_value:
  assumes "scalar_value ob = Some v" "value_bytes Z v \<le> size_of_value Z + remaining_bytes b"
  shows "convert_scalar ob b = Some (Inr (v, spend 0 (value_bytes Z v - size_of_value Z) b))"
proof (cases ob)
  case (PyInt n)
  with assms show ?thesis by (auto simp: convert_scalar_def extract_i64_def extract_u64_def split: if_splits)
next
  case (PyStr s)
  with assms show ?thesis
    by (cases s) (auto simp: convert_scalar_def extract_i64_def extract_u64_def copy_string_def charge_bytes_def spend_def)
qed (use assms in \<open>auto simp: convert_scalar_def extract_i64_def extract_u64_def split: if_splits\<close>)

lemma converted_scalar: "scalar_value (h ! r) = Some v \<Longrightarrow> converted Z h n r v"
proof -
  assume v: "scalar_value (h ! r) = Some v"
  then have nodes: "value_nodes v = 1" by (cases "h ! r" rule: scalar_value.cases) (auto split: if_splits)
  have "convert_json Z h r depth active b = Inr (v, active, spend (value_nodes v) (value_bytes Z v) b)"
    if "affordable Z depth v b" for depth active b
    using affordable_node [OF that] convert_scalar_value [OF v, of Z "spend 1 (size_of_value Z) b"] that value_min(2) [of Z v]
    by (simp add: convert_json.simps [of Z h r] nodes affordable_def)
  then show ?thesis by (simp add: converted_def)
qed

lemma converted_items:
  assumes "list_all2 (converted Z h n) xs vs" "\<forall>v\<in>set vs. clear_path h n active v"
    "\<forall>v\<in>set vs. json_nesting v = 0 \<or> depth + json_nesting v \<le> PY_MAX_JSON_DEPTH"
    "sum_list (map value_nodes vs) \<le> remaining_nodes b" "sum_list (map (value_bytes Z) vs) \<le> remaining_bytes b"
  shows "convert_items Z h xs depth active b =
    Inr (vs, active, spend (sum_list (map value_nodes vs)) (sum_list (map (value_bytes Z) vs)) b)"
  using assms
proof (induction xs vs arbitrary: b rule: list_all2_induct)
  case (Cons x xs v vs)
  have "convert_json Z h x depth active b = Inr (v, active, spend (value_nodes v) (value_bytes Z v) b)"
    using Cons.hyps(1) Cons.prems by (simp add: converted_def affordable_def)
  moreover have "convert_items Z h xs depth active (spend (value_nodes v) (value_bytes Z v) b) =
      Inr (vs, active, spend (sum_list (map value_nodes vs)) (sum_list (map (value_bytes Z) vs)) (spend (value_nodes v) (value_bytes Z v) b))"
    by (rule Cons.IH) (use Cons.prems in auto)
  ultimately show ?case by simp
qed simp

lemma converted_entries:
  assumes "list_all2 (\<lambda>e p. h ! fst e = PyStr (Some (fst p)) \<and> converted Z h n (snd e) (snd p)) es kvs"
    "\<forall>p\<in>set kvs. clear_path h n active (snd p)"
    "\<forall>p\<in>set kvs. json_nesting (snd p) = 0 \<or> depth + json_nesting (snd p) \<le> PY_MAX_JSON_DEPTH"
    "sum_list (map (\<lambda>p. value_nodes (snd p)) kvs) \<le> remaining_nodes b"
    "sum_list (map (\<lambda>p. size_of_string Z + length (fst p) + value_bytes Z (snd p)) kvs) \<le> remaining_bytes b"
  shows "convert_entries Z h es depth active m b =
    Inr (foldl (\<lambda>m p. bt_insert (fst p) (snd p) m) m kvs, active,
      spend (sum_list (map (\<lambda>p. value_nodes (snd p)) kvs))
        (sum_list (map (\<lambda>p. size_of_string Z + length (fst p) + value_bytes Z (snd p)) kvs)) b)"
  using assms
proof (induction es kvs arbitrary: b m rule: list_all2_induct)
  case (Cons e es p kvs)
  obtain k x key v where e: "e = (k, x)" and p: "p = (key, v)" by (cases e; cases p)
  let ?b = "spend 0 (size_of_string Z + length key) b"
  have "and_then (charge_bytes (size_of_string Z) b) (copy_string (h ! k)) = Inr (key, ?b)"
    using Cons.hyps(1) Cons.prems by (simp add: e p charge_bytes_def copy_string_def spend_def)
  moreover have "convert_json Z h x depth active ?b = Inr (v, active, spend (value_nodes v) (value_bytes Z v) ?b)"
    using Cons.hyps(1) Cons.prems by (simp add: e p converted_def affordable_def)
  moreover have "convert_entries Z h es depth active (bt_insert key v m) (spend (value_nodes v) (value_bytes Z v) ?b) =
      Inr (foldl (\<lambda>m p. bt_insert (fst p) (snd p) m) (bt_insert key v m) kvs, active,
        spend (sum_list (map (\<lambda>p. value_nodes (snd p)) kvs))
          (sum_list (map (\<lambda>p. size_of_string Z + length (fst p) + value_bytes Z (snd p)) kvs)) (spend (value_nodes v) (value_bytes Z v) ?b))"
    by (rule Cons.IH) (use Cons.prems p in auto)
  ultimately show ?case by (simp add: e p)
qed simp


lemma sum_bt_insert_new:
  "k \<notin> set (map fst m) \<Longrightarrow> sum_list (map f (bt_insert k v m)) = f (k, v) + sum_list (map (f :: _ \<Rightarrow> nat) m)"
  by (induction m) auto

lemma sum_insert_all:
  "distinct (map fst kvs) \<Longrightarrow> set (map fst kvs) \<inter> set (map fst m) = {} \<Longrightarrow>
     sum_list (map f (foldl (\<lambda>m p. bt_insert (fst p) (snd p) m) m kvs)) = sum_list (map f m) + sum_list (map (f :: _ \<Rightarrow> nat) kvs)"
proof (induction kvs arbitrary: m)
  case (Cons p kvs)
  have new: "fst p \<notin> set (map fst m)" using Cons.prems(2) by auto
  have "set (map fst kvs) \<inter> set (map fst (bt_insert (fst p) (snd p) m)) = {}"
    using Cons.prems unfolding bt_insert_keys by auto
  with Cons.IH Cons.prems(1) sum_bt_insert_new [OF new, of f "snd p"] show ?case by simp
qed simp

lemma bt_insert_mem: "(k, v) \<in> set (bt_insert k v m)" "p \<in> set m \<Longrightarrow> fst p \<noteq> k \<Longrightarrow> p \<in> set (bt_insert k v m)"
  by (induction m) auto

lemma foldl_insert_mem:
  "distinct (map fst kvs) \<Longrightarrow> p \<in> set kvs \<or> p \<in> set m \<and> fst p \<notin> set (map fst kvs) \<Longrightarrow>
     p \<in> set (foldl (\<lambda>m p. bt_insert (fst p) (snd p) m) m kvs)"
proof (induction kvs arbitrary: m)
  case (Cons q kvs)
  have "p \<in> set kvs \<or> p \<in> set (bt_insert (fst q) (snd q) m) \<and> fst p \<notin> set (map fst kvs)"
    using Cons.prems bt_insert_mem(1) [of "fst q" "snd q" m] bt_insert_mem(2) [of p m "fst q" "snd q"] by auto
  with Cons.IH Cons.prems(1) show ?case by simp
qed simp

lemma clear_child:
  assumes "reads h n r w" "clear_path h n active w" "value_nodes v < value_nodes w"
  shows "clear_path h n (insert r active) v"
  using assms by (fastforce simp: clear_path_def)

lemma not_active: "reads h n r v \<Longrightarrow> clear_path h n active v \<Longrightarrow> r \<notin> active"
  by (auto simp: clear_path_def dest: reads_unique)

lemma member_le_sum: "x \<in> set xs \<Longrightarrow> f x \<le> sum_list (map (f :: _ \<Rightarrow> nat) xs)"
  by (simp add: member_le_sum_list)

lemma count_nodes: "length vs \<le> sum_list (map value_nodes vs)"
proof (induction vs)
  case (Cons v vs)
  with value_min(1) [of v] show ?case by simp
qed simp

lemma count_bytes: "size_of_value Z * length vs \<le> sum_list (map (value_bytes Z) vs)"
proof (induction vs)
  case (Cons v vs)
  with value_min(2) [of Z v] show ?case by simp
qed simp

lemma children_ok:
  assumes "0 < size_of_value Z" "sum_list (map value_nodes vs) \<le> remaining_nodes b" "sum_list (map (value_bytes Z) vs) \<le> remaining_bytes b"
  shows "check_children Z (length vs) b = Inr ()"
proof -
  have "size_of_value Z * length vs \<le> remaining_bytes b" using count_bytes [of Z vs] assms(3) by simp
  then have "length vs \<le> remaining_bytes b div size_of_value Z" using assms(1) by (simp add: less_eq_div_iff_mult_less_eq mult.commute)
  with count_nodes [of vs] assms(2) show ?thesis by (simp add: check_children_def)
qed

lemma converted_list:
  assumes Z: "0 < size_of_value Z" and cell: "h ! r = PyList xs" and items: "list_all2 (converted Z h n) xs vs"
    and reads: "reads h n r (JArray vs)"
  shows "converted Z h n r (JArray vs)"
  unfolding converted_def
proof (intro allI impI)
  fix depth active b
  assume fits: "affordable Z depth (JArray vs) b" and path: "clear_path h n active (JArray vs)"
  let ?b = "spend 1 (size_of_value Z) b"
  have sums: "sum_list (map value_nodes vs) \<le> remaining_nodes ?b" "sum_list (map (value_bytes Z) vs) \<le> remaining_bytes ?b"
    and depth: "depth < PY_MAX_JSON_DEPTH" "\<forall>v\<in>set vs. json_nesting v = 0 \<or> Suc depth + json_nesting v \<le> PY_MAX_JSON_DEPTH"
    using fits nested_le [of depth json_nesting vs PY_MAX_JSON_DEPTH] by (auto simp: affordable_def)
  have smaller: "value_nodes v < value_nodes (JArray vs)" if "v \<in> set vs" for v
    using member_le_sum [OF that, of value_nodes] by simp
  have "\<forall>v\<in>set vs. clear_path h n (insert r active) v" using clear_child [OF reads path smaller] by blast
  note rec = converted_items [OF items this depth(2) sums]
  have "length xs = length vs" using items by (rule list_all2_lengthD)
  then have "check_children Z (length xs) ?b = Inr ()" using children_ok [OF Z sums] by simp
  moreover have "convert_scalar (h ! r) ?b = None" by (simp add: cell convert_scalar_def extract_i64_def extract_u64_def)
  ultimately show "convert_json Z h r depth active b = Inr (JArray vs, active, spend (value_nodes (JArray vs)) (value_bytes Z (JArray vs)) b)"
    using rec depth(1) not_active [OF reads path] affordable_node [OF fits]
    by (simp add: convert_json.simps [of Z h r] cell)
qed

lemma converted_dict:
  fixes kvs :: "(string \<times> json) list"
  defines "m \<equiv> foldl (\<lambda>m p. bt_insert (fst p) (snd p) m) [] kvs"
  assumes Z: "0 < size_of_value Z" and cell: "h ! r = PyDict es"
    and entries: "list_all2 (\<lambda>e p. h ! fst e = PyStr (Some (fst p)) \<and> converted Z h n (snd e) (snd p)) es kvs"
    and keys: "distinct (map fst kvs)" and reads: "reads h n r (JObject m)"
  shows "converted Z h n r (JObject m)"
  unfolding converted_def
proof (intro allI impI)
  fix depth active b
  assume fits: "affordable Z depth (JObject m) b" and path: "clear_path h n active (JObject m)"
  let ?b = "spend 1 (size_of_value Z) b" and ?s = "\<lambda>p. size_of_string Z + length (fst p) + value_bytes Z (snd p)"
  have sum: "sum_list (map f m) = sum_list (map f kvs)" for f :: "_ \<Rightarrow> nat" using sum_insert_all [OF keys, of "[]" f] by (simp add: m_def)
  have sums: "sum_list (map (\<lambda>p. value_nodes (snd p)) kvs) \<le> remaining_nodes ?b" "sum_list (map ?s kvs) \<le> remaining_bytes ?b"
    using fits by (auto simp: affordable_def sum)
  have mem: "p \<in> set m" if "p \<in> set kvs" for p using foldl_insert_mem [OF keys] that by (simp add: m_def)
  have depth: "depth < PY_MAX_JSON_DEPTH" "\<forall>p\<in>set kvs. json_nesting (snd p) = 0 \<or> Suc depth + json_nesting (snd p) \<le> PY_MAX_JSON_DEPTH"
    using fits nested_le [of depth "\<lambda>p. json_nesting (snd p)" m PY_MAX_JSON_DEPTH] mem by (auto simp: affordable_def)
  have smaller: "value_nodes (snd p) < value_nodes (JObject m)" if "p \<in> set kvs" for p
    using member_le_sum [OF that, of "\<lambda>p. value_nodes (snd p)"] by (simp add: sum)
  have "\<forall>p\<in>set kvs. clear_path h n (insert r active) (snd p)" using clear_child [OF reads path smaller] by blast
  note rec = converted_entries [OF entries this depth(2) sums, of "[]"]
  have "sum_list (map (value_bytes Z) (map snd kvs)) \<le> sum_list (map ?s kvs)"
    unfolding map_map by (intro sum_list_mono) (simp add: comp_def)
  then have "check_children Z (length (map snd kvs)) ?b = Inr ()"
    using sums by (intro children_ok [OF Z]) (simp_all add: comp_def)
  then have "check_children Z (length es) ?b = Inr ()" using list_all2_lengthD [OF entries] by simp
  moreover have "convert_scalar (h ! r) ?b = None" by (simp add: cell convert_scalar_def extract_i64_def extract_u64_def)
  ultimately show "convert_json Z h r depth active b = Inr (JObject m, active, spend (value_nodes (JObject m)) (value_bytes Z (JObject m)) b)"
    using rec depth(1) not_active [OF reads path] affordable_node [OF fits]
    by (simp add: convert_json.simps [of Z h r] cell m_def [symmetric] sum)
qed

lemma reads_converted: "reads h n r v \<Longrightarrow> 0 < size_of_value Z \<Longrightarrow> converted Z h n r v"
proof (induction rule: reads.induct)
  case (scalar r v)
  then show ?case by (intro converted_scalar)
next
  case (list r xs vs)
  have "reads h n r (JArray vs)" using list by (intro reads.list) (auto elim: list_all2_mono)
  then show ?case
    using list by (intro converted_list [where xs = xs]) (auto elim: list_all2_mono)
next
  case (dict r es kvs)
  have "reads h n r (JObject (foldl (\<lambda>m p. bt_insert (fst p) (snd p) m) [] kvs))"
    using dict by (intro reads.dict [of _ _ _ es]) (auto elim!: list_all2_mono)
  then show ?case
    using dict by (intro converted_dict [where es = es]) (auto elim!: list_all2_mono)
qed

lemma object_converted:
  assumes "reads h n r v" "0 < size_of_value Z"
    "value_nodes v \<le> 16384" "value_bytes Z v \<le> 1024 * 1024" "json_nesting v \<le> 64"
  shows "py_any_to_json_value Z h r = Inr v"
  using reads_converted [OF assms(1,2)] assms(3-5)
  by (simp add: converted_def affordable_def clear_path_def py_any_to_json_value_def policy_defs)

text \<open>
  The conversion is exact: an object built of built-in values, with lists and dictionaries shared or
  not, is converted to the JSON value it stands for whenever that value is within the limits.
\<close>

theorem python_conversion_exact:
  assumes "reads h n r v" "0 < size_of_value Z"
    "value_nodes v \<le> 16384" "value_bytes Z v \<le> 1024 * 1024" "json_nesting v \<le> 64"
  shows "py_any_to_json_value Z h r = Inr v"
  by (rule object_converted [OF assms])

section \<open>Objects made from JSON\<close>

definition made :: "json \<Rightarrow> py_heap \<Rightarrow> py_ref \<times> py_heap \<Rightarrow> bool" where
  "made v h = (\<lambda>(r, h'). r = length h \<and> length h < length h' \<and> (\<forall>i < length h. h' ! i = h ! i) \<and> reads h' (length h) r v)"

definition entries_read :: "py_heap \<Rightarrow> nat \<Rightarrow> (py_ref \<times> py_ref) list \<Rightarrow> (string \<times> json) list \<Rightarrow> bool" where
  "entries_read h n es kvs \<longleftrightarrow>
     list_all2 (\<lambda>e p. n \<le> fst e \<and> fst e < length h \<and> h ! fst e = PyStr (Some (fst p)) \<and> reads h n (snd e) (snd p)) es kvs"

definition grown :: "py_ref \<Rightarrow> py_heap \<Rightarrow> py_heap \<Rightarrow> bool" where
  "grown r h h' \<longleftrightarrow> length h \<le> length h' \<and> (\<forall>i < length h. i \<noteq> r \<longrightarrow> h' ! i = h ! i)"

lemma grown_reads: "grown r h h' \<Longrightarrow> reads h (Suc r) x v \<Longrightarrow> reads h' (Suc r) x v"
  by (erule reads_extend) (auto simp: grown_def)

lemma grown_entries: "grown r h h' \<Longrightarrow> entries_read h (Suc r) es kvs \<Longrightarrow> entries_read h' (Suc r) es kvs"
  unfolding entries_read_def by (erule list_all2_mono) (auto simp: grown_def intro: grown_reads [unfolded grown_def])

lemma grown_trans: "grown r h h1 \<Longrightarrow> grown r h1 h2 \<Longrightarrow> grown r h h2"
  by (auto simp: grown_def)

lemma made_grown: "made v h (x, h1) \<Longrightarrow> grown r h h1"
  by (auto simp: made_def grown_def)

lemma scalar_made: "scalar_value ob = Some v \<Longrightarrow> made v h (py_alloc ob h)"
  by (auto simp: made_def py_alloc_def nth_append intro!: reads.scalar)

lemma append_step:
  assumes "made v h (x, h1)" "r < length h" "h ! r = PyList xs" "list_all2 (reads h (Suc r)) xs us"
  shows "grown r h (list_append r x h1) \<and> list_append r x h1 ! r = PyList (xs @ [x]) \<and>
    list_all2 (reads (list_append r x h1) (Suc r)) (xs @ [x]) (us @ [v])"
proof -
  have h1: "h1 ! r = PyList xs" "length h < length h1" using assms by (auto simp: made_def)
  have h2: "list_append r x h1 = h1[r := PyList (xs @ [x])]" by (simp add: list_append_def h1)
  have g1: "grown r h1 (list_append r x h1)" by (auto simp: h2 grown_def)
  note g = grown_trans [OF made_grown [OF assms(1)] g1]
  have "reads h1 (Suc r) x v" using assms(1,2) by (auto simp: made_def intro: reads_lower)
  with grown_reads [OF g1] have "reads (list_append r x h1) (Suc r) x v" by blast
  moreover have "list_all2 (reads (list_append r x h1) (Suc r)) xs us"
    using assms(4) by (rule list_all2_mono) (rule grown_reads [OF g])
  ultimately show ?thesis using g h1 assms(2) by (simp add: h2 list_all2_appendI)
qed

lemma set_step:
  assumes "made v h (x, h1)" "r < length h" "h ! r = PyDict es" "entries_read h (Suc r) es us" "key \<notin> set (map fst us)"
  shows "grown r h (dict_set_item r key x h1) \<and>
    (\<exists>es'. dict_set_item r key x h1 ! r = PyDict es' \<and> entries_read (dict_set_item r key x h1) (Suc r) es' (us @ [(key, v)]))"
proof -
  have h1: "h1 ! r = PyDict es" "length h < length h1" using assms by (auto simp: made_def)
  let ?k = "length h1" and ?h2 = "h1 @ [PyStr (Some key)]"
  have g0: "grown r h ?h2" using made_grown [OF assms(1), of r] by (auto simp: grown_def nth_append)
  have old: "entries_read ?h2 (Suc r) es us" by (rule grown_entries [OF g0 assms(4)])
  then have "h1 ! fst e \<noteq> PyStr (Some key)" if "e \<in> set es" "fst e < length h1" for e
    using assms(5) that by (fastforce simp: entries_read_def list_all2_conv_all_nth in_set_conv_nth nth_append)
  moreover have "fst e < length h1" if "e \<in> set es" for e
    using assms(4) that h1(2) by (fastforce simp: entries_read_def list_all2_conv_all_nth in_set_conv_nth)
  ultimately have absent: "\<not> (\<exists>e\<in>set es. ?h2 ! fst e = PyStr (Some key))" by (auto simp: nth_append)
  have cell: "?h2 ! r = PyDict es" using h1 assms(2) by (simp add: nth_append)
  have h3: "dict_set_item r key x h1 = ?h2[r := PyDict (es @ [(?k, x)])]"
    using absent by (simp add: dict_set_item_def py_alloc_def cell Let_def)
  have g1: "grown r ?h2 (dict_set_item r key x h1)" by (auto simp: h3 grown_def)
  have "reads ?h2 (Suc r) x v"
    by (rule reads_extend [of h1]) (use assms(1,2) in \<open>auto simp: made_def nth_append intro: reads_lower\<close>)
  then have "entries_read ?h2 (Suc r) (es @ [(?k, x)]) (us @ [(key, v)])"
    using old h1(2) assms(2) by (auto simp: entries_read_def intro!: list_all2_appendI)
  from grown_entries [OF g1 this] grown_trans [OF g0 g1] show ?thesis
    using h1(2) assms(2) by (auto simp: h3)
qed

lemma bt_insert_last: "\<forall>p\<in>set m. fst p < k \<Longrightarrow> bt_insert k v m = m @ [(k, v)]"
  by (induction m) auto

lemma foldl_insert_sorted: "bt_invar (m @ kvs) \<Longrightarrow> foldl (\<lambda>m p. bt_insert (fst p) (snd p) m) m kvs = m @ kvs"
proof (induction kvs arbitrary: m)
  case (Cons p kvs)
  have "bt_insert (fst p) (snd p) m = m @ [p]"
    using Cons.prems bt_insert_last [of m "fst p" "snd p"] by (auto simp: bt_invar_def sorted_wrt_append)
  with Cons.IH [of "m @ [p]"] Cons.prems show ?case by simp
qed simp

lemma number_made: "json_wf (JNumber n) \<Longrightarrow> scalar_value (number_to_py n) = Some (JNumber n)"
  by (cases n) (auto simp: number_to_py_def)

lemma json_to_py_made:
  "json_wf v \<Longrightarrow> made v h (json_value_to_py v h)"
  "list_all json_wf vs \<Longrightarrow> r < length h \<Longrightarrow> h ! r = PyList xs \<Longrightarrow> list_all2 (reads h (Suc r)) xs us \<Longrightarrow>
     grown r h (append_all r vs h) \<and>
     (\<exists>ys. append_all r vs h ! r = PyList ys \<and> list_all2 (reads (append_all r vs h) (Suc r)) ys (us @ vs))"
  "list_all (\<lambda>p. json_wf (snd p)) kvs \<Longrightarrow> r < length h \<Longrightarrow> h ! r = PyDict es \<Longrightarrow> entries_read h (Suc r) es ps \<Longrightarrow>
     distinct (map fst (ps @ kvs)) \<Longrightarrow>
     grown r h (set_all r kvs h) \<and>
     (\<exists>es'. set_all r kvs h ! r = PyDict es' \<and> entries_read (set_all r kvs h) (Suc r) es' (ps @ kvs))"
proof (induction v h and r vs h and r kvs h arbitrary: and xs us and es ps rule: json_value_to_py_append_all_set_all.induct)
  case (5 vs h)
  let ?h = "h @ [PyList []]"
  have "grown (length h) ?h (append_all (length h) vs ?h) \<and>
      (\<exists>ys. append_all (length h) vs ?h ! length h = PyList ys \<and>
        list_all2 (reads (append_all (length h) vs ?h) (Suc (length h))) ys ([] @ vs))"
    by (rule "5.IH" [of "(length h, ?h)" "length h" ?h "[]" "[]"]) (use "5.prems" in \<open>simp_all add: py_alloc_def\<close>)
  then show ?case
    by (auto simp: made_def grown_def py_alloc_def nth_append intro!: reads.list elim!: list_all2_mono reads_lower)
next
  case (6 m h)
  let ?h = "h @ [PyDict []]"
  have "grown (length h) ?h (set_all (length h) m ?h) \<and>
      (\<exists>es. set_all (length h) m ?h ! length h = PyDict es \<and> entries_read (set_all (length h) m ?h) (Suc (length h)) es ([] @ m))"
    by (rule "6.IH" [of "(length h, ?h)" "length h" ?h "[]" "[]"])
      (use "6.prems" in \<open>simp_all add: py_alloc_def entries_read_def bt_invar_def strict_sorted_iff\<close>)
  then obtain es where grown: "grown (length h) ?h (set_all (length h) m ?h)" and cell: "set_all (length h) m ?h ! length h = PyDict es"
    and entries: "entries_read (set_all (length h) m ?h) (Suc (length h)) es m" by auto
  have sorted: "foldl (\<lambda>m p. bt_insert (fst p) (snd p) m) [] m = m" "distinct (map fst m)"
    using foldl_insert_sorted [of "[]" m] "6.prems" by (simp_all add: bt_invar_def strict_sorted_iff)
  have "reads (set_all (length h) m ?h) (length h) (length h) (JObject (foldl (\<lambda>m p. bt_insert (fst p) (snd p) m) [] m))"
  proof (rule reads.dict [OF _ _ _ _ sorted(2)])
    show "list_all2 (\<lambda>e p. length h \<le> fst e \<and> fst e < length (set_all (length h) m ?h) \<and>
        set_all (length h) m ?h ! fst e = PyStr (Some (fst p)) \<and> reads (set_all (length h) m ?h) (length h) (snd e) (snd p)) es m"
      using entries unfolding entries_read_def by (rule list_all2_mono) (auto intro: reads_lower)
  qed (use grown cell in \<open>auto simp: grown_def\<close>)
  then have "reads (set_all (length h) m ?h) (length h) (length h) (JObject m)" unfolding sorted(1) .
  with grown show ?case by (auto simp: made_def grown_def py_alloc_def nth_append)
next
  case (8 r v vs h)
  obtain x h1 where x: "json_value_to_py v h = (x, h1)" by force
  have "made v h (x, h1)" using "8.IH"(1) "8.prems"(1) x by simp
  note step = append_step [OF this "8.prems"(2-4)]
  have "grown r (list_append r x h1) (append_all r vs (list_append r x h1)) \<and>
      (\<exists>ys. append_all r vs (list_append r x h1) ! r = PyList ys \<and>
        list_all2 (reads (append_all r vs (list_append r x h1)) (Suc r)) ys ((us @ [v]) @ vs))"
    by (rule "8.IH"(2) [OF x [symmetric] refl]) (use step "8.prems" in \<open>auto simp: grown_def\<close>)
  with step grown_trans show ?case by (auto simp: x)
next
  case (10 r k v kvs h)
  obtain x h1 where x: "json_value_to_py v h = (x, h1)" by force
  have "made v h (x, h1)" using "10.IH"(1) "10.prems"(1) x by simp
  note step = set_step [OF this "10.prems"(2-4), of k]
  have "k \<notin> set (map fst ps)" using "10.prems"(5) by auto
  with step obtain es' where grown: "grown r h (dict_set_item r k x h1)" and cell: "dict_set_item r k x h1 ! r = PyDict es'"
    and entries: "entries_read (dict_set_item r k x h1) (Suc r) es' (ps @ [(k, v)])" by blast
  have "grown r (dict_set_item r k x h1) (set_all r kvs (dict_set_item r k x h1)) \<and>
      (\<exists>es'. set_all r kvs (dict_set_item r k x h1) ! r = PyDict es' \<and>
        entries_read (set_all r kvs (dict_set_item r k x h1)) (Suc r) es' ((ps @ [(k, v)]) @ kvs))"
    by (rule "10.IH"(2) [OF x [symmetric] refl _ _ cell entries]) (use grown "10.prems" in \<open>auto simp: grown_def\<close>)
  with grown grown_trans show ?case by (auto simp: x)
qed (auto simp: scalar_made number_made grown_def)

text \<open>
  Property C19. What is handed to Python comes back unchanged: a JSON value within the limits, converted to Python
  objects in any heap and back, is the same value; existing objects are not touched.
\<close>

theorem python_roundtrip:
  assumes "json_wf v" "0 < size_of_value Z" "value_nodes v \<le> 16384" "value_bytes Z v \<le> 1024 * 1024" "json_nesting v \<le> 64"
  shows "case json_value_to_py v h of (r, h') \<Rightarrow>
    py_any_to_json_value Z h' r = Inr v \<and> (\<forall>i < length h. h' ! i = h ! i)"
proof -
  obtain r h' where rh: "json_value_to_py v h = (r, h')" by force
  have made: "made v h (r, h')" using json_to_py_made(1) [OF assms(1), of h] rh by simp
  then have "converted Z h' (length h) r v" using reads_converted [of h' "length h" r v Z] assms(2) by (auto simp: made_def)
  with assms made show ?thesis
    by (simp add: rh made_def converted_def affordable_def clear_path_def py_any_to_json_value_def policy_defs)
qed

definition sizes64 :: value_sizes where
  "sizes64 = \<lparr>size_of_value = 32, size_of_string = 24\<rparr>"

definition heap0 :: py_heap where
  "heap0 = [PyInt 7, PyStr (Some ''k''), PyList [0, 0], PyDict [(1, 2)]]"

lemma heap0_reads: "reads heap0 0 3 (JObject [(''k'', JArray [JNumber (NInt 7), JNumber (NInt 7)])])"
proof -
  have seven: "reads heap0 0 0 (JNumber (NInt 7))" by (rule reads.scalar) (simp_all add: heap0_def)
  have "reads heap0 0 2 (JArray [JNumber (NInt 7), JNumber (NInt 7)])"
    by (rule reads.list [where xs = "[0, 0]"]) (simp_all add: seven, simp_all add: heap0_def)
  then have "reads heap0 0 3 (JObject (foldl (\<lambda>m p. bt_insert (fst p) (snd p) m) [] [(''k'', JArray [JNumber (NInt 7), JNumber (NInt 7)])]))"
    by (intro reads.dict [where es = "[(1, 2)]"]) (simp_all, simp_all add: heap0_def)
  then show ?thesis by simp
qed

theorem python_conversion_exact_witness:
  "py_any_to_json_value sizes64 heap0 3 = Inr (JObject [(''k'', JArray [JNumber (NInt 7), JNumber (NInt 7)])])"
  by (rule python_conversion_exact [OF heap0_reads]) (simp_all add: sizes64_def)

theorem python_roundtrip_witness:
  "py_any_to_json_value sizes64 (snd (json_value_to_py (JArray [JBool True]) heap0)) (fst (json_value_to_py (JArray [JBool True]) heap0)) =
     Inr (JArray [JBool True])"
  using python_roundtrip [of "JArray [JBool True]" sizes64 heap0] by (simp add: sizes64_def case_prod_beta)

theorem python_conversion_bounded_witness:
  "\<exists>v. py_any_to_json_value sizes64 [PyBool True] 0 = Inr v \<and> json_wf v \<and> json_nesting v \<le> 64"
proof -
  have "py_any_to_json_value sizes64 [PyBool True] 0 = Inr (JBool True)"
    by (simp add: py_any_to_json_value_def convert_json.simps charge_node_def charge_bytes_def convert_scalar_def sizes64_def policy_defs)
  from python_conversion_bounded [OF this] this show ?thesis by blast
qed

theorem python_cycles_refused_witness: "\<exists>err. py_any_to_json_value sizes64 [PyList [0]] 0 = Inl err"
proof -
  have "py_child [PyList [0]] 0 0" by (simp add: py_child_def)
  then show ?thesis using python_cycles_refused [of "[PyList [0]]" 0 0 sizes64] by blast
qed

end
