(* ===== verification/Chunks.thy ===== *)
theory Chunks
  imports Transport_Prelude
begin

text \<open>
  \<open>src/src/datachannel/core/chunks.rs\<close>: the bounded assembler of chunked transfers. A transfer keeps
  its chunks in index order; the assembler keeps transfers by request key. \<open>insert\<close> checks a chunk
  against the limits and the transfer it belongs to, and gives up the whole transfer on any error.
  The subtractions of the byte budgets are those of the code; that they never underflow is part of the
  invariant proved here.
\<close>

definition MAX_CHUNKS :: nat where [policy_defs]: "MAX_CHUNKS = 4096"
definition MAX_TRANSFER_BYTES :: nat where [policy_defs]: "MAX_TRANSFER_BYTES = 16 * 1024 * 1024"
definition MAX_TRANSFERS :: nat where [policy_defs]: "MAX_TRANSFERS = 64"
definition MAX_RETAINED_BYTES :: nat where [policy_defs]: "MAX_RETAINED_BYTES = 64 * 1024 * 1024"
definition TRANSFER_TTL :: nat where [policy_defs]: "TRANSFER_TTL = secs 30"

record transfer =
  tr_schema :: string
  tr_total :: nat
  tr_chunks :: "(nat, bytes) btree_map"
  tr_bytes :: nat
  tr_deadline :: instant

record chunk_assembler =
  transfers :: "(string, transfer) hash_map"

definition ca_default :: chunk_assembler where
  "ca_default = \<lparr>transfers = []\<rparr>"

definition ca_remove :: "string \<Rightarrow> chunk_assembler \<Rightarrow> chunk_assembler" where
  "ca_remove key ca = ca\<lparr>transfers := hm_remove key (transfers ca)\<rparr>"

definition ca_clear :: "chunk_assembler \<Rightarrow> chunk_assembler" where
  "ca_clear ca = ca\<lparr>transfers := []\<rparr>"

definition ca_expire :: "instant \<Rightarrow> chunk_assembler \<Rightarrow> string list \<times> chunk_assembler" where
  "ca_expire now ca =
     (let expired = map fst (filter (\<lambda>p. tr_deadline (snd p) \<le> now) (transfers ca))
      in (expired, fold ca_remove expired ca))"

definition retained :: "chunk_assembler \<Rightarrow> nat" where
  "retained ca = sum_list (map (\<lambda>p. tr_bytes (snd p)) (transfers ca))"

text \<open>The checks of an existing transfer: an error, an identical duplicate, or room for the chunk.\<close>

datatype chunk_check = Reject string | Duplicate | Admit

definition check_existing :: "transfer \<Rightarrow> string \<Rightarrow> nat \<Rightarrow> nat \<Rightarrow> bytes \<Rightarrow> instant \<Rightarrow> chunk_check" where
  "check_existing t schema index tot data now =
     (if tr_deadline t \<le> now then Reject ''Chunk assembly deadline expired''
      else if tr_schema t \<noteq> schema then Reject ''Inconsistent chunk schema''
      else if tr_total t \<noteq> tot then Reject ''Inconsistent chunk count''
      else case map_of (tr_chunks t) index of
             Some previous \<Rightarrow> if previous = data then Duplicate else Reject ''Conflicting duplicate chunk''
           | None \<Rightarrow>
               if length data > MAX_TRANSFER_BYTES - tr_bytes t
               then Reject ''Chunk transfer exceeds byte budget'' else Admit)"

definition new_transfer :: "string \<Rightarrow> nat \<Rightarrow> instant \<Rightarrow> transfer" where
  "new_transfer schema tot now =
     \<lparr>tr_schema = schema, tr_total = tot, tr_chunks = [], tr_bytes = 0, tr_deadline = now + TRANSFER_TTL\<rparr>"

definition add_chunk :: "nat \<Rightarrow> bytes \<Rightarrow> transfer \<Rightarrow> transfer" where
  "add_chunk index data t =
     t\<lparr>tr_bytes := tr_bytes t + length data, tr_chunks := bt_insert index data (tr_chunks t)\<rparr>"

definition insert_checked ::
    "string \<Rightarrow> string \<Rightarrow> nat \<Rightarrow> nat \<Rightarrow> bytes \<Rightarrow> instant \<Rightarrow> chunk_assembler
       \<Rightarrow> (string + bytes option) \<times> chunk_assembler" where
  "insert_checked key schema index tot data now ca =
     (if tot = 0 \<or> tot > MAX_CHUNKS \<or> index = 0 \<or> index > tot
      then (Inl ''Invalid chunk count or index'', ca)
      else
        let check = (case map_of (transfers ca) key of
                       Some t \<Rightarrow> check_existing t schema index tot data now
                     | None \<Rightarrow>
                         if length (transfers ca) \<ge> MAX_TRANSFERS \<or> length data > MAX_TRANSFER_BYTES
                         then Reject ''Chunk transfer exceeds resource budget'' else Admit)
        in case check of
             Reject e \<Rightarrow> (Inl e, ca)
           | Duplicate \<Rightarrow> (Inr None, ca)
           | Admit \<Rightarrow>
               if length data > MAX_RETAINED_BYTES - retained ca
               then (Inl ''Chunk assembly exceeds retained byte budget'', ca)
               else
                 let t = (case map_of (transfers ca) key of Some t \<Rightarrow> t | None \<Rightarrow> new_transfer schema tot now);
                     t' = add_chunk index data t
                 in if length (tr_chunks t') \<noteq> tot
                    then (Inr None, ca\<lparr>transfers := hm_insert key t' (transfers ca)\<rparr>)
                    else (Inr (Some (concat (map snd (tr_chunks t')))),
                          ca\<lparr>transfers := hm_remove key (hm_insert key t' (transfers ca))\<rparr>))"

definition ca_insert ::
    "string \<Rightarrow> string \<Rightarrow> nat \<Rightarrow> nat \<Rightarrow> bytes \<Rightarrow> instant \<Rightarrow> chunk_assembler
       \<Rightarrow> (string + bytes option) \<times> chunk_assembler" where
  "ca_insert key schema index tot data now ca =
     (case insert_checked key schema index tot data now ca of
        (Inl e, ca') \<Rightarrow> (Inl e, ca_remove key ca')
      | (Inr r, ca') \<Rightarrow> (Inr r, ca'))"

section \<open>The resource invariant\<close>

definition transfer_inv :: "transfer \<Rightarrow> bool" where
  "transfer_inv t \<longleftrightarrow>
     bt_invar (tr_chunks t) \<and> 0 < tr_total t \<and> tr_total t \<le> MAX_CHUNKS \<and>
     set (map fst (tr_chunks t)) \<subseteq> {1..tr_total t} \<and>
     tr_bytes t = bt.weight length (tr_chunks t) \<and> tr_bytes t \<le> MAX_TRANSFER_BYTES"

definition incomplete :: "transfer \<Rightarrow> bool" where
  "incomplete t \<longleftrightarrow> length (tr_chunks t) < tr_total t"

definition chunks_inv :: "chunk_assembler \<Rightarrow> bool" where
  "chunks_inv ca \<longleftrightarrow>
     hm_invar (transfers ca) \<and> length (transfers ca) \<le> MAX_TRANSFERS \<and> retained ca \<le> MAX_RETAINED_BYTES \<and>
     (\<forall>k t. map_of (transfers ca) k = Some t \<longrightarrow> transfer_inv t \<and> incomplete t)"

lemma retained_weight: "retained ca = hm.weight tr_bytes (transfers ca)"
  by (simp add: retained_def hm.weight_def)

lemma chunks_inv_default: "chunks_inv ca_default"
  by (simp add: chunks_inv_def ca_default_def hm_invar_def retained_def)

lemma chunks_inv_clear: "chunks_inv (ca_clear ca)"
  by (simp add: chunks_inv_def ca_clear_def hm_invar_def retained_def)

lemma chunks_inv_remove: "chunks_inv ca \<Longrightarrow> chunks_inv (ca_remove key ca)"
  using hm.size_remove_le [of "transfers ca" key] hm.weight_remove_le [of "transfers ca" tr_bytes key]
  by (auto simp: chunks_inv_def ca_remove_def hm.invar_remove hm.lookup_remove retained_weight
      split: if_splits)

lemma chunks_inv_fold_remove: "chunks_inv ca \<Longrightarrow> chunks_inv (fold ca_remove ks ca)"
  by (induction ks arbitrary: ca) (auto intro: chunks_inv_remove)

lemma chunks_inv_expire: "chunks_inv ca \<Longrightarrow> chunks_inv (snd (ca_expire now ca))"
  by (simp add: ca_expire_def Let_def chunks_inv_fold_remove)

lemma transfer_inv_new:
  "0 < tot \<Longrightarrow> tot \<le> MAX_CHUNKS \<Longrightarrow> transfer_inv (new_transfer schema tot now)"
  by (simp add: transfer_inv_def new_transfer_def bt_invar_def bt.weight_def)

lemma transfer_inv_add_chunk:
  assumes "transfer_inv t" and "map_of (tr_chunks t) index = None"
    and "1 \<le> index" and "index \<le> tr_total t" and "length data \<le> MAX_TRANSFER_BYTES - tr_bytes t"
  shows "transfer_inv (add_chunk index data t)"
  using assms bt_insert_keys [of index data "tr_chunks t"]
  by (auto simp: transfer_inv_def add_chunk_def bt_insert_sorted bt.weight_insert_new simp del: set_map)

lemma length_chunks_le:
  assumes "transfer_inv t"
  shows "length (tr_chunks t) \<le> tr_total t"
proof -
  have "distinct (map fst (tr_chunks t))" and "set (map fst (tr_chunks t)) \<subseteq> {1..tr_total t}"
    using assms by (auto simp: transfer_inv_def bt.entries_distinct simp del: set_map)
  then have "card (set (map fst (tr_chunks t))) \<le> card {1..tr_total t}"
    by (intro card_mono) auto
  with \<open>distinct (map fst (tr_chunks t))\<close> show ?thesis
    by (simp only: distinct_card length_map) simp
qed

definition current_transfer :: "string \<Rightarrow> string \<Rightarrow> nat \<Rightarrow> instant \<Rightarrow> chunk_assembler \<Rightarrow> transfer" where
  "current_transfer key schema tot now ca =
     (case map_of (transfers ca) key of Some t \<Rightarrow> t | None \<Rightarrow> new_transfer schema tot now)"

text \<open>The condition under which a chunk is stored.\<close>

definition admissible :: "string \<Rightarrow> string \<Rightarrow> nat \<Rightarrow> nat \<Rightarrow> bytes \<Rightarrow> instant \<Rightarrow> chunk_assembler \<Rightarrow> bool" where
  "admissible key schema index tot data now ca \<longleftrightarrow>
     0 < tot \<and> tot \<le> MAX_CHUNKS \<and> 0 < index \<and> index \<le> tot \<and>
     length data \<le> MAX_RETAINED_BYTES - retained ca \<and>
     (case map_of (transfers ca) key of
        Some t \<Rightarrow> check_existing t schema index tot data now = Admit
      | None \<Rightarrow> length (transfers ca) < MAX_TRANSFERS \<and> length data \<le> MAX_TRANSFER_BYTES)"

lemma insert_checked_admissible:
  "admissible key schema index tot data now ca \<Longrightarrow>
     insert_checked key schema index tot data now ca =
       (let t' = add_chunk index data (current_transfer key schema tot now ca)
        in if length (tr_chunks t') \<noteq> tot
           then (Inr None, ca\<lparr>transfers := hm_insert key t' (transfers ca)\<rparr>)
           else (Inr (Some (concat (map snd (tr_chunks t')))),
                 ca\<lparr>transfers := hm_remove key (hm_insert key t' (transfers ca))\<rparr>))"
  by (cases "map_of (transfers ca) key")
    (simp_all add: insert_checked_def admissible_def current_transfer_def Let_def)

lemma check_existing_Duplicate:
  "check_existing t schema index tot data now = Duplicate \<Longrightarrow> map_of (tr_chunks t) index = Some data"
  by (auto simp: check_existing_def split: if_splits option.splits)

lemma insert_checked_inadmissible:
  assumes "\<not> admissible key schema index tot data now ca"
  shows "(\<exists>e. insert_checked key schema index tot data now ca = (Inl e, ca)) \<or>
     (\<exists>t. insert_checked key schema index tot data now ca = (Inr None, ca) \<and>
        map_of (transfers ca) key = Some t \<and> map_of (tr_chunks t) index = Some data)"
proof (cases "tot = 0 \<or> tot > MAX_CHUNKS \<or> index = 0 \<or> index > tot")
  case True
  then show ?thesis by (auto simp: insert_checked_def)
next
  case bounds: False
  show ?thesis
  proof (cases "map_of (transfers ca) key")
    case None
    with assms bounds show ?thesis
      by (auto simp: insert_checked_def admissible_def Let_def not_less)
  next
    case (Some t)
    then show ?thesis
      using assms bounds check_existing_Duplicate [of t schema index tot data now]
      by (cases "check_existing t schema index tot data now")
        (auto simp: insert_checked_def admissible_def Let_def not_less)
  qed
qed

lemma insert_checkedE:
  assumes "insert_checked key schema index tot data now ca = (r, ca')"
  obtains (rejected) e where "r = Inl e" and "ca' = ca"
    | (duplicate) t where "r = Inr None" and "ca' = ca" and "map_of (transfers ca) key = Some t"
        and "map_of (tr_chunks t) index = Some data"
    | (stored) t' where "admissible key schema index tot data now ca"
        and "t' = add_chunk index data (current_transfer key schema tot now ca)"
        and "length (tr_chunks t') \<noteq> tot" and "r = Inr None"
        and "ca' = ca\<lparr>transfers := hm_insert key t' (transfers ca)\<rparr>"
    | (completed) t' where "admissible key schema index tot data now ca"
        and "t' = add_chunk index data (current_transfer key schema tot now ca)"
        and "length (tr_chunks t') = tot" and "r = Inr (Some (concat (map snd (tr_chunks t'))))"
        and "ca' = ca\<lparr>transfers := hm_remove key (hm_insert key t' (transfers ca))\<rparr>"
proof (cases "admissible key schema index tot data now ca")
  case True
  show ?thesis
  proof (cases "length (tr_chunks (add_chunk index data (current_transfer key schema tot now ca))) = tot")
    case full: True
    with assms insert_checked_admissible [OF True] show ?thesis
      by (intro completed [OF True refl]) (simp_all add: Let_def)
  next
    case False
    with assms insert_checked_admissible [OF True] show ?thesis
      by (intro stored [OF True refl]) (simp_all add: Let_def)
  qed
next
  case False
  from insert_checked_inadmissible [OF this] assms show ?thesis
    by (auto intro: rejected duplicate)
qed

lemma current_transfer_inv:
  assumes "chunks_inv ca" and "admissible key schema index tot data now ca"
  shows "transfer_inv (add_chunk index data (current_transfer key schema tot now ca))"
    and "tr_total (current_transfer key schema tot now ca) = tot"
    and "map_of (tr_chunks (current_transfer key schema tot now ca)) index = None"
proof -
  let ?t = "current_transfer key schema tot now ca"
  show total: "tr_total ?t = tot" and free: "map_of (tr_chunks ?t) index = None"
    using assms
    by (auto simp: admissible_def current_transfer_def check_existing_def new_transfer_def
        split: option.splits if_splits)
  have "transfer_inv ?t"
    using assms transfer_inv_new [of tot schema now]
    by (auto simp: admissible_def current_transfer_def chunks_inv_def split: option.splits)
  moreover have "length data \<le> MAX_TRANSFER_BYTES - tr_bytes ?t"
    using assms(2)
    by (auto simp: admissible_def current_transfer_def check_existing_def new_transfer_def
        split: option.splits if_splits)
  ultimately show "transfer_inv (add_chunk index data ?t)"
    using assms(2) total free by (intro transfer_inv_add_chunk) (auto simp: admissible_def)
qed

lemma retained_insert:
  assumes "chunks_inv ca" and "admissible key schema index tot data now ca"
  shows "retained (ca\<lparr>transfers := hm_insert key (add_chunk index data (current_transfer key schema tot now ca))
           (transfers ca)\<rparr>) = retained ca + length data"
proof -
  have inv: "hm_invar (transfers ca)" using assms(1) by (simp add: chunks_inv_def)
  show ?thesis
  proof (cases "map_of (transfers ca) key")
    case None
    then show ?thesis
      using inv by (simp add: retained_weight current_transfer_def hm.weight_insert_new add_chunk_def
          new_transfer_def)
  next
    case (Some t)
    then show ?thesis
      using hm.weight_insert_over [OF inv Some, of tr_bytes "add_chunk index data t"]
      by (simp add: retained_weight current_transfer_def add_chunk_def)
  qed
qed

lemma chunks_inv_store:
  assumes "chunks_inv ca" and "admissible key schema index tot data now ca"
    and "t' = add_chunk index data (current_transfer key schema tot now ca)"
    and "length (tr_chunks t') \<noteq> tot"
  shows "chunks_inv (ca\<lparr>transfers := hm_insert key t' (transfers ca)\<rparr>)"
proof -
  have inv: "hm_invar (transfers ca)" and ret: "retained ca \<le> MAX_RETAINED_BYTES"
    using assms(1) by (auto simp: chunks_inv_def)
  have t': "transfer_inv t'" "tr_total t' = tot"
    using current_transfer_inv [OF assms(1,2)] by (simp_all add: assms(3) add_chunk_def)
  with assms(4) length_chunks_le [of t'] have "incomplete t'" by (simp add: incomplete_def)
  moreover have "length (hm_insert key t' (transfers ca)) \<le> MAX_TRANSFERS"
    using assms(1,2) hm.size_insert [OF inv, of key t']
    by (auto simp: chunks_inv_def admissible_def split: option.splits)
  moreover have "retained (ca\<lparr>transfers := hm_insert key t' (transfers ca)\<rparr>) \<le> MAX_RETAINED_BYTES"
  proof -
    have "length data \<le> MAX_RETAINED_BYTES - retained ca" using assms(2) by (simp add: admissible_def)
    with retained_insert [OF assms(1,2)] assms(3) ret show ?thesis by simp
  qed
  ultimately show ?thesis
    using assms(1) t' inv by (auto simp: chunks_inv_def hm.invar_insert hm.lookup_insert split: if_splits)
qed

lemma chunks_inv_insert_checked:
  assumes "chunks_inv ca" and "insert_checked key schema index tot data now ca = (r, ca')"
  shows "chunks_inv ca'"
  using assms(2)
proof (cases rule: insert_checkedE)
  case (completed t')
  then have "ca' = ca_remove key ca" by (simp add: ca_remove_def hm_remove_insert)
  with assms(1) show ?thesis by (simp add: chunks_inv_remove)
qed (use assms(1) in \<open>auto intro: chunks_inv_store\<close>)

lemma chunks_inv_insert:
  "chunks_inv ca \<Longrightarrow> chunks_inv (snd (ca_insert key schema index tot data now ca))"
  by (auto simp: ca_insert_def chunks_inv_remove dest: chunks_inv_insert_checked split: prod.splits sum.splits)

section \<open>Runs of the assembler\<close>

datatype chunk_op =
    InsertChunk string string nat nat bytes instant
  | RemoveTransfer string
  | ClearTransfers
  | ExpireTransfers instant

fun chunk_step :: "chunk_op \<Rightarrow> chunk_assembler \<Rightarrow> chunk_assembler" where
  "chunk_step (InsertChunk key schema index tot data now) ca = snd (ca_insert key schema index tot data now ca)"
| "chunk_step (RemoveTransfer key) ca = ca_remove key ca"
| "chunk_step ClearTransfers ca = ca_clear ca"
| "chunk_step (ExpireTransfers now) ca = snd (ca_expire now ca)"

lemma chunks_inv_step: "chunks_inv ca \<Longrightarrow> chunks_inv (chunk_step op ca)"
  by (cases op) (simp_all add: chunks_inv_insert chunks_inv_remove chunks_inv_clear chunks_inv_expire)

lemma chunks_inv_run: "chunks_inv ca \<Longrightarrow> chunks_inv (fold chunk_step ops ca)"
  by (induction ops arbitrary: ca) (auto intro: chunks_inv_step)

lemmas chunks_inv_ops = chunks_inv_insert chunks_inv_remove chunks_inv_clear chunks_inv_expire

section \<open>Reassembly\<close>

text \<open>
  The chunks \<open>ps\<close> of one transfer, delivered one by one (chunk number and arrival instant); chunk
  numbers start at one.
\<close>

fun deliver_all :: "string \<Rightarrow> string \<Rightarrow> bytes list \<Rightarrow> (nat \<times> instant) list \<Rightarrow> chunk_assembler
    \<Rightarrow> (string + bytes option) list \<times> chunk_assembler" where
  "deliver_all key schema ps [] ca = ([], ca)"
| "deliver_all key schema ps ((i, now) # ds) ca =
     (let (r, ca1) = ca_insert key schema i (length ps) (ps ! (i - 1)) now ca;
          (rs, ca2) = deliver_all key schema ps ds ca1
      in (r # rs, ca2))"

definition room_for :: "string \<Rightarrow> bytes list \<Rightarrow> chunk_assembler \<Rightarrow> bool" where
  "room_for key ps ca \<longleftrightarrow>
     chunks_inv ca \<and> map_of (transfers ca) key = None \<and> length (transfers ca) < MAX_TRANSFERS \<and>
     ps \<noteq> [] \<and> length ps \<le> MAX_CHUNKS \<and> length (concat ps) \<le> MAX_TRANSFER_BYTES \<and>
     retained ca + length (concat ps) \<le> MAX_RETAINED_BYTES"

definition part_chunks :: "bytes list \<Rightarrow> nat set \<Rightarrow> (nat, bytes) btree_map" where
  "part_chunks ps J = map (\<lambda>i. (i, ps ! (i - 1))) (sorted_list_of_set J)"

definition part_bytes :: "bytes list \<Rightarrow> nat set \<Rightarrow> nat" where
  "part_bytes ps J = (\<Sum>i\<in>J. length (ps ! (i - 1)))"

definition part :: "string \<Rightarrow> instant \<Rightarrow> bytes list \<Rightarrow> nat set \<Rightarrow> transfer" where
  "part schema t0 ps J =
     \<lparr>tr_schema = schema, tr_total = length ps, tr_chunks = part_chunks ps J,
      tr_bytes = part_bytes ps J, tr_deadline = t0 + TRANSFER_TTL\<rparr>"

definition received :: "string \<Rightarrow> string \<Rightarrow> instant \<Rightarrow> bytes list \<Rightarrow> chunk_assembler \<Rightarrow> nat set \<Rightarrow> chunk_assembler" where
  "received key schema t0 ps ca J =
     (if J = {} then ca else ca\<lparr>transfers := hm_insert key (part schema t0 ps J) (transfers ca)\<rparr>)"

lemma map_of_part_chunks:
  "finite J \<Longrightarrow> map_of (part_chunks ps J) i = (if i \<in> J then Some (ps ! (i - 1)) else None)"
  by (auto simp: part_chunks_def map_of_map_keys map_of_eq_None_iff comp_def)

lemma part_chunks_invar: "finite J \<Longrightarrow> bt_invar (part_chunks ps J)"
  by (simp add: part_chunks_def bt_invar_def comp_def)

lemma part_chunks_insert:
  "finite J \<Longrightarrow> bt_insert i (ps ! (i - 1)) (part_chunks ps J) = part_chunks ps (insert i J)"
  by (rule bt_unique)
    (auto simp: bt_insert_sorted part_chunks_invar map_of_bt_insert map_of_part_chunks fun_eq_iff)

lemma part_chunks_all: "map snd (part_chunks ps {1..length ps}) = ps"
proof -
  have "sorted_list_of_set {1..length ps} = map Suc [0..<length ps]"
    by (metis atLeastLessThanSuc_atLeastAtMost map_Suc_upt One_nat_def sorted_list_of_set_range)
  then show ?thesis by (simp add: part_chunks_def comp_def map_nth)
qed

lemma length_part_chunks: "finite J \<Longrightarrow> length (part_chunks ps J) = card J"
  by (simp add: part_chunks_def)

lemma part_bytes_le:
  assumes "J \<subseteq> {1..length ps}"
  shows "part_bytes ps J \<le> length (concat ps)"
proof -
  have "part_bytes ps J \<le> (\<Sum>i\<in>{1..length ps}. length (ps ! (i - 1)))"
    unfolding part_bytes_def using assms by (intro sum_mono2) auto
  also have "\<dots> = (\<Sum>i<length ps. length (ps ! i))"
    by (rule sum.reindex_bij_witness [of _ Suc "\<lambda>i. i - 1"]) auto
  also have "\<dots> = length (concat ps)"
    by (simp add: length_concat sum_list_sum_nth atLeast0LessThan)
  finally show ?thesis .
qed

lemma finite_indices: "J \<subseteq> {1..n} \<Longrightarrow> finite (J :: nat set)"
  by (rule finite_subset) auto

lemma part_bytes_insert:
  "finite J \<Longrightarrow> i \<notin> J \<Longrightarrow> part_bytes ps (insert i J) = part_bytes ps J + length (ps ! (i - 1))"
  by (simp add: part_bytes_def)

lemma received_lookup:
  "room_for key ps ca \<Longrightarrow> map_of (transfers (received key schema t0 ps ca J)) key =
     (if J = {} then None else Some (part schema t0 ps J))"
  by (simp add: received_def room_for_def chunks_inv_def hm.lookup_insert)

lemma received_retained:
  "room_for key ps ca \<Longrightarrow> retained (received key schema t0 ps ca J) = retained ca + part_bytes ps J"
  by (simp add: received_def room_for_def chunks_inv_def retained_weight hm.weight_insert_new part_def
      part_bytes_def)

lemma received_next:
  assumes room: "room_for key ps ca" and J: "J \<subseteq> {1..length ps}" and i: "i \<in> {1..length ps}" "i \<notin> J"
    and now: "now < t0 + TRANSFER_TTL" "J = {} \<Longrightarrow> now = t0"
  shows "admissible key schema i (length ps) (ps ! (i - 1)) now (received key schema t0 ps ca J)"
    and "add_chunk i (ps ! (i - 1)) (current_transfer key schema (length ps) now (received key schema t0 ps ca J))
           = part schema t0 ps (insert i J)"
proof -
  let ?S = "received key schema t0 ps ca J" and ?d = "ps ! (i - 1)"
  have fin: "finite J" using J by (rule finite_indices)
  have "part_bytes ps (insert i J) \<le> length (concat ps)"
    using J i(1) by (intro part_bytes_le) auto
  then have budget: "part_bytes ps J + length ?d \<le> length (concat ps)"
    using part_bytes_insert [OF fin i(2), of ps] by simp
  have "length ?d \<le> MAX_RETAINED_BYTES - retained ?S"
    using budget received_retained [OF room, of schema t0 J] room by (auto simp: room_for_def)
  moreover have "length ?d \<le> MAX_TRANSFER_BYTES - part_bytes ps J" "length ?d \<le> MAX_TRANSFER_BYTES"
    using budget room by (auto simp: room_for_def)
  ultimately show "admissible key schema i (length ps) ?d now ?S"
    using room i now(1) fin received_lookup [OF room, of schema t0 J]
    by (auto simp: admissible_def room_for_def check_existing_def part_def map_of_part_chunks received_def)
  show "add_chunk i ?d (current_transfer key schema (length ps) now ?S) = part schema t0 ps (insert i J)"
    using received_lookup [OF room, of schema t0 J] now(2) fin i(2)
      part_chunks_insert [of "{}" i ps] part_chunks_insert [of J i ps] part_bytes_insert [of J i ps]
    by (simp add: current_transfer_def new_transfer_def add_chunk_def part_def part_bytes_def part_chunks_def)
qed

lemma received_insert:
  assumes "room_for key ps ca"
  shows "hm_insert key t (transfers (received key schema t0 ps ca J)) = hm_insert key t (transfers ca)"
    and "hm_remove key (hm_insert key t (transfers (received key schema t0 ps ca J))) = transfers ca"
  using assms hm_remove_absent [of "transfers ca" key]
  by (simp_all add: received_def hm_insert_insert hm_remove_insert room_for_def)

lemma deliver_one:
  assumes room: "room_for key ps ca" and J: "J \<subseteq> {1..length ps}" "J \<noteq> {1..length ps}"
    and i: "i \<in> {1..length ps}"
    and now: "now < t0 + TRANSFER_TTL" "J = {} \<Longrightarrow> now = t0"
  shows "ca_insert key schema i (length ps) (ps ! (i - 1)) now (received key schema t0 ps ca J) =
     (if insert i J = {1..length ps} then (Inr (Some (concat ps)), ca)
      else (Inr None, received key schema t0 ps ca (insert i J)))"
proof (cases "i \<in> J")
  case True
  have fin: "finite J" using J(1) by (rule finite_indices)
  have "insert_checked key schema i (length ps) (ps ! (i - 1)) now (received key schema t0 ps ca J)
      = (Inr None, received key schema t0 ps ca J)"
    using received_lookup [OF room, of schema t0 J] True i now(1) fin room
    by (auto simp: insert_checked_def check_existing_def part_def map_of_part_chunks room_for_def)
  with True J(2) show ?thesis by (simp add: ca_insert_def insert_absorb)
next
  case False
  let ?S = "received key schema t0 ps ca J" and ?K = "insert i J"
  have sub: "?K \<subseteq> {1..length ps}" using J(1) i by auto
  then have fin: "finite ?K" by (rule finite_indices)
  have full: "card ?K = length ps \<longleftrightarrow> ?K = {1..length ps}"
    using sub card_subset_eq [of "{1..length ps}" ?K] by auto
  have eq: "insert_checked key schema i (length ps) (ps ! (i - 1)) now ?S =
      (if card ?K \<noteq> length ps then (Inr None, ?S\<lparr>transfers := hm_insert key (part schema t0 ps ?K) (transfers ?S)\<rparr>)
       else (Inr (Some (concat (map snd (part_chunks ps ?K)))),
             ?S\<lparr>transfers := hm_remove key (hm_insert key (part schema t0 ps ?K) (transfers ?S))\<rparr>))"
    using insert_checked_admissible [OF received_next(1) [OF room J(1) i False now]]
      received_next(2) [OF room J(1) i False now] length_part_chunks [OF fin, of ps]
    by (simp add: Let_def part_def)
  show ?thesis
  proof (cases "?K = {1..length ps}")
    case True
    with eq full part_chunks_all [of ps] received_insert [OF room] show ?thesis
      by (simp add: ca_insert_def received_def)
  next
    case False
    with eq full received_insert [OF room] show ?thesis
      by (simp add: ca_insert_def received_def)
  qed
qed

lemma deliver_rest:
  assumes "room_for key ps ca" and "ds \<noteq> []" and "J \<subseteq> {1..length ps}"
    and "J \<union> set (map fst ds) = {1..length ps}" and "fst (last ds) \<notin> J \<union> set (map fst (butlast ds))"
    and "\<forall>d\<in>set ds. snd d < t0 + TRANSFER_TTL" and "J = {} \<Longrightarrow> snd (hd ds) = t0"
  shows "deliver_all key schema ps ds (received key schema t0 ps ca J) =
     (replicate (length ds - 1) (Inr None) @ [Inr (Some (concat ps))], ca)"
  using assms(2-)
proof (induction ds arbitrary: J)
  case Nil
  then show ?case by simp
next
  case (Cons d ds)
  obtain i now where d: "d = (i, now)" by (cases d)
  have i: "i \<in> {1..length ps}" using Cons.prems(3) d by auto
  have last_in: "fst (last (d # ds)) \<in> {1..length ps}"
    using Cons.prems(3) by (metis UnI2 image_eqI image_set last_in_set list.distinct(1))
  have "J \<noteq> {1..length ps}" using Cons.prems(4) last_in by auto
  then have step: "ca_insert key schema i (length ps) (ps ! (i - 1)) now (received key schema t0 ps ca J) =
     (if insert i J = {1..length ps} then (Inr (Some (concat ps)), ca)
      else (Inr None, received key schema t0 ps ca (insert i J)))"
    using assms(1) Cons.prems d i by (intro deliver_one) auto
  show ?case
  proof (cases "ds = []")
    case True
    with Cons.prems(3) d have "insert i J = {1..length ps}" by auto
    with True step d show ?thesis by simp
  next
    case False
    have "fst (last ds) \<notin> insert i J \<union> set (map fst (butlast ds))"
      using Cons.prems(4) False d by auto
    moreover have "insert i J \<union> set (map fst ds) = {1..length ps}"
      using Cons.prems(3) d by auto
    ultimately have rest: "deliver_all key schema ps ds (received key schema t0 ps ca (insert i J)) =
        (replicate (length ds - 1) (Inr None) @ [Inr (Some (concat ps))], ca)"
      using False Cons.prems(2,5) i by (intro Cons.IH) auto
    have "insert i J \<noteq> {1..length ps}"
      using last_in False Cons.prems(4) d by auto
    with rest step d False show ?thesis
      by (cases ds) simp_all
  qed
qed

section \<open>Isolation and expiry\<close>

lemma ca_remove_lookup:
  "hm_invar (transfers ca) \<Longrightarrow> map_of (transfers (ca_remove key ca)) = (map_of (transfers ca))(key := None)"
  by (simp add: ca_remove_def hm.lookup_remove)

lemma insert_checked_frame:
  assumes "hm_invar (transfers ca)" and "insert_checked key schema index tot data now ca = (r, ca')" and "k \<noteq> key"
  shows "map_of (transfers ca') k = map_of (transfers ca) k"
  using assms(2)
  by (cases rule: insert_checkedE)
    (use assms(1,3) in \<open>auto simp: hm.lookup_insert hm_remove_insert hm.lookup_remove\<close>)

lemma ca_insert_frame:
  assumes "hm_invar (transfers ca)" and "k \<noteq> key"
  shows "map_of (transfers (snd (ca_insert key schema index tot data now ca))) k = map_of (transfers ca) k"
proof (cases "insert_checked key schema index tot data now ca")
  case (Pair r ca')
  have "hm_invar (transfers ca')"
    using Pair by (cases rule: insert_checkedE) (use assms(1) in \<open>auto simp: hm.invar_insert hm.invar_remove\<close>)
  with Pair insert_checked_frame [OF assms(1) Pair assms(2)] assms(2) show ?thesis
    by (auto simp: ca_insert_def ca_remove_lookup split: sum.splits)
qed

lemma ca_insert_error:
  assumes "hm_invar (transfers ca)" and "fst (ca_insert key schema index tot data now ca) = Inl e"
  shows "transfers (snd (ca_insert key schema index tot data now ca)) = hm_remove key (transfers ca)"
proof (cases "insert_checked key schema index tot data now ca")
  case (Pair r ca')
  then show ?thesis
    using assms(2) by (cases rule: insert_checkedE) (auto simp: ca_insert_def ca_remove_def Pair)
qed

lemma ca_insert_deadline:
  assumes "hm_invar (transfers ca)" and "map_of (transfers ca) key = Some t"
    and "map_of (transfers (snd (ca_insert key schema index tot data now ca))) key = Some t'"
  shows "tr_deadline t' = tr_deadline t"
proof (cases "insert_checked key schema index tot data now ca")
  case (Pair r ca')
  then show ?thesis
    using assms
    by (cases rule: insert_checkedE)
      (auto simp: ca_insert_def ca_remove_lookup Pair hm.lookup_insert hm_remove_insert hm.lookup_remove
        current_transfer_def add_chunk_def split: if_splits)
qed

lemma fold_ca_remove_lookup:
  "hm_invar (transfers ca) \<Longrightarrow>
     map_of (transfers (fold ca_remove ks ca)) k = (if k \<in> set ks then None else map_of (transfers ca) k)"
proof (induction ks arbitrary: ca)
  case Nil
  then show ?case by simp
next
  case (Cons x ks)
  then have "hm_invar (transfers (ca_remove x ca))" by (simp add: ca_remove_def hm.invar_remove)
  with Cons show ?case by (auto simp: ca_remove_lookup)
qed

lemma expired_keys:
  assumes "hm_invar (transfers ca)"
  shows "k \<in> set (fst (ca_expire now ca)) \<longleftrightarrow> (\<exists>t. map_of (transfers ca) k = Some t \<and> tr_deadline t \<le> now)"
  using assms by (force simp: ca_expire_def Let_def hm_invar_def)

section \<open>Properties\<close>

text \<open>
  Property C33. Reassembly: the chunks of a transfer that fits the limits, delivered in any order and
  with any repetitions before the deadline of the first one, give no result until the last missing
  chunk arrives; that one returns the concatenation of the chunks in index order, and the assembler is
  left exactly as it was before the transfer.
\<close>

theorem chunk_reassembly:
  assumes "room_for key ps ca" and "ds \<noteq> []"
    and "set (map fst ds) = {1..length ps}" and "fst (last ds) \<notin> set (map fst (butlast ds))"
    and "\<forall>d\<in>set ds. snd d < snd (hd ds) + TRANSFER_TTL"
  shows "deliver_all key schema ps ds ca =
     (replicate (length ds - 1) (Inr None) @ [Inr (Some (concat ps))], ca)"
  using deliver_rest [of key ps ca ds "{}" "snd (hd ds)" schema] assms by (simp add: received_def)

theorem chunk_reassembly_witness:
  "deliver_all ''key'' ''content'' [[1], [2]] [(2, 0), (2, 5), (1, 7)] ca_default =
     ([Inr None, Inr None, Inr (Some [1, 2])], ca_default)"
proof -
  let ?ps = "[[1], [2]] :: bytes list" and ?ds = "[(2, 0), (2, 5), (1, 7)] :: (nat \<times> instant) list"
  have "room_for ''key'' ?ps ca_default"
    using chunks_inv_default by (simp add: room_for_def policy_defs retained_def ca_default_def)
  moreover have "set (map fst ?ds) = {1..length ?ps}" by auto
  moreover have "\<forall>d\<in>set ?ds. snd d < snd (hd ?ds) + TRANSFER_TTL"
    by (simp add: TRANSFER_TTL_def secs_def)
  ultimately have "deliver_all ''key'' ''content'' ?ps ?ds ca_default =
      (replicate (length ?ds - 1) (Inr None) @ [Inr (Some (concat ?ps))], ca_default)"
    by (intro chunk_reassembly) (assumption | simp)+
  then show ?thesis by (simp add: numeral_2_eq_2 del: deliver_all.simps)
qed

text \<open>
  Property C34. Resource bounds: after any sequence of inserts, removals, clears and expiries, the
  assembler holds at most 64 transfers and 64 MiB in total; each transfer holds at most 16 MiB, its
  recorded byte count is the number of bytes it holds, and it is still missing a chunk of its at most
  4096.
\<close>

theorem chunk_resource_bounds:
  "let ca = fold chunk_step ops ca_default
   in length (transfers ca) \<le> 64 \<and> retained ca \<le> 64 * 1024 * 1024 \<and>
      list_all (\<lambda>p. tr_bytes (snd p) = length (concat (map snd (tr_chunks (snd p)))) \<and>
                    tr_bytes (snd p) \<le> 16 * 1024 * 1024 \<and>
                    length (tr_chunks (snd p)) < tr_total (snd p) \<and> tr_total (snd p) \<le> 4096)
        (transfers ca)"
proof -
  let ?ca = "fold chunk_step ops ca_default"
  have inv: "chunks_inv ?ca" by (rule chunks_inv_run [OF chunks_inv_default])
  have "transfer_inv (snd p) \<and> incomplete (snd p)" if "p \<in> set (transfers ?ca)" for p
    using inv that unfolding chunks_inv_def hm_invar_def by (metis map_of_is_SomeI prod.collapse)
  then have "tr_bytes (snd p) = length (concat (map snd (tr_chunks (snd p)))) \<and>
      tr_bytes (snd p) \<le> 16 * 1024 * 1024 \<and>
      length (tr_chunks (snd p)) < tr_total (snd p) \<and> tr_total (snd p) \<le> 4096"
    if "p \<in> set (transfers ?ca)" for p
    using that by (fastforce simp: transfer_inv_def incomplete_def bt.weight_def length_concat comp_def
        policy_defs)
  moreover have "length (transfers ?ca) \<le> 64" and "retained ?ca \<le> 64 * 1024 * 1024"
    using inv by (simp_all add: chunks_inv_def policy_defs)
  ultimately show ?thesis
    unfolding Let_def list_all_iff by blast
qed

text \<open>
  A chunk touches only its own transfer: inserting a chunk of one key leaves every other
  transfer as it was, and a rejected chunk (bad index, conflicting duplicate, other schema or count,
  exhausted budget, passed deadline) discards its own transfer and nothing else.
\<close>

theorem chunk_insert_isolated:
  assumes "chunks_inv ca" and "ca_insert key schema index tot data now ca = (r, ca')"
  shows "map_of (transfers ca') =
     (case r of
        Inl e \<Rightarrow> (map_of (transfers ca))(key := None)
      | Inr _ \<Rightarrow> (map_of (transfers ca))(key := map_of (transfers ca') key))"
proof (cases r)
  case (Inl e)
  then have "transfers ca' = hm_remove key (transfers ca)"
    using ca_insert_error [of ca key schema index tot data now e] assms by (simp add: chunks_inv_def)
  with Inl assms(1) show ?thesis by (simp add: hm.lookup_remove chunks_inv_def)
next
  case (Inr x)
  have "map_of (transfers ca') k = map_of (transfers ca) k" if "k \<noteq> key" for k
    using ca_insert_frame [OF _ that, of ca schema index tot data now] assms
    by (simp add: chunks_inv_def)
  with Inr show ?thesis by auto
qed

theorem chunk_insert_isolated_witness:
  "map_of (transfers ca_default) = (map_of (transfers ca_default))(''k'' := None)"
  using chunk_insert_isolated [OF chunks_inv_default, of "''k''" "''content''" 3 2 "[]" 0
      "Inl ''Invalid chunk count or index''" ca_default]
  by (simp add: ca_insert_def insert_checked_def ca_remove_def hm_remove_def ca_default_def)

text \<open>
  Expiry is exact: expiring at an instant returns the keys of the transfers whose
  deadline has passed, removes those transfers and leaves the others unchanged.
\<close>

theorem chunk_expiry_exact:
  assumes "chunks_inv ca" and "ca_expire now ca = (ks, ca')"
  shows "map_of (transfers ca') k =
      (case map_of (transfers ca) k of
         Some t \<Rightarrow> if tr_deadline t \<le> now then None else Some t
       | None \<Rightarrow> None)
    \<and> (k \<in> set ks) = (map_of (transfers ca') k \<noteq> map_of (transfers ca) k)"
proof -
  have inv: "hm_invar (transfers ca)" using assms(1) by (simp add: chunks_inv_def)
  have ca': "ca' = fold ca_remove ks ca" using assms(2) by (auto simp: ca_expire_def Let_def)
  have keys: "k \<in> set ks \<longleftrightarrow> (\<exists>t. map_of (transfers ca) k = Some t \<and> tr_deadline t \<le> now)"
    using expired_keys [OF inv, of k now] assms(2) by simp
  have "map_of (transfers ca') k = (if k \<in> set ks then None else map_of (transfers ca) k)"
    unfolding ca' by (rule fold_ca_remove_lookup [OF inv])
  with keys show ?thesis by (auto split: option.splits)
qed

theorem chunk_expiry_exact_witness:
  "let ca = snd (ca_insert ''k'' ''content'' 1 2 [9] 0 ca_default); (ks, ca') = ca_expire (secs 30) ca
   in map_of (transfers ca') ''k'' = None \<and> ''k'' \<in> set ks"
proof -
  let ?ca = "snd (ca_insert ''k'' ''content'' 1 2 [9] 0 ca_default)"
  have "chunks_inv ?ca" by (rule chunks_inv_insert [OF chunks_inv_default])
  from chunk_expiry_exact [OF this, of "secs 30" _ _ "''k''"] show ?thesis
    by (auto simp: Let_def ca_insert_def insert_checked_def ca_default_def retained_def hm_insert_def
        new_transfer_def add_chunk_def policy_defs split: prod.splits)
qed

end
