(* ===== verification/Framing.thy ===== *)
theory Framing
  imports Ingress
begin

text \<open>
  \<open>src/src/datachannel/core/framing.rs\<close>: the two binary layouts, a JSON header followed by a payload.
  A normal frame has the header length in its first two bytes (little endian) and the header from
  byte 4; a LiDAR frame starts with 2, 0, 0, 0, has the length in bytes 4 to 7 and the header from
  byte 12. \<open>encode_frame\<close> is the specification: the frames a peer can build.
\<close>

datatype binary_frame = Normal | Lidar

fun frame_name :: "binary_frame \<Rightarrow> string" where
  "frame_name Normal = ''Normal''"
| "frame_name Lidar = ''Lidar''"

fun from_le_bytes :: "bytes \<Rightarrow> nat" where
  "from_le_bytes [] = 0"
| "from_le_bytes (b # bs) = unat b + 256 * from_le_bytes bs"

fun frame_layout :: "binary_frame \<Rightarrow> bytes \<Rightarrow> bytes \<Rightarrow> string + nat \<times> nat" where
  "frame_layout Normal prefix buffer = Inr (4, from_le_bytes (take 2 prefix))"
| "frame_layout Lidar prefix buffer =
     (case get_range buffer 4 8 of
        None \<Rightarrow> Inl ''Missing LiDAR frame length''
      | Some bs \<Rightarrow> Inr (12, from_le_bytes bs))"

definition parse :: "(bytes \<Rightarrow> raw_json option) \<Rightarrow> bytes \<Rightarrow> string + binary_frame \<times> json \<times> bytes" where
  "parse deserialize buffer =
     (case get_range buffer 0 4 of
        None \<Rightarrow> Inl ''Binary frame is too short''
      | Some prefix \<Rightarrow>
          let frame = (if prefix = [2, 0, 0, 0] then Lidar else Normal) in
          (case frame_layout frame prefix buffer of
             Inl e \<Rightarrow> Inl e
           | Inr (start, len) \<Rightarrow>
               if len > MAX_BINARY_HEADER_BYTES then Inl ''Binary JSON header exceeds 64 KiB''
               else if start + len > usize_max then Inl ''Binary frame length overflow''
               else
                 (case get_range buffer start (start + len) of
                    None \<Rightarrow> Inl ''Binary JSON header exceeds frame length''
                  | Some text \<Rightarrow>
                      (case parse_json deserialize text of
                         Inl e \<Rightarrow> Inl e
                       | Inr header \<Rightarrow>
                           if \<not> is_object header
                           then Inl (frame_name frame @ '' binary JSON header must be an object'')
                           else Inr (frame, header, drop (start + len) buffer)))))"

section \<open>Specification\<close>

fun to_le_bytes :: "nat \<Rightarrow> nat \<Rightarrow> bytes" where
  "to_le_bytes 0 n = []"
| "to_le_bytes (Suc k) n = of_nat (n mod 256) # to_le_bytes k (n div 256)"

text \<open>The bytes before the header; \<open>extra\<close> are the two flag bytes of a normal frame and the four
  reserved bytes of a LiDAR frame.\<close>

fun frame_head :: "binary_frame \<Rightarrow> bytes \<Rightarrow> nat \<Rightarrow> bytes" where
  "frame_head Normal extra n = to_le_bytes 2 n @ extra"
| "frame_head Lidar extra n = [2, 0, 0, 0] @ to_le_bytes 4 n @ extra"

fun extra_length :: "binary_frame \<Rightarrow> nat" where
  "extra_length Normal = 2"
| "extra_length Lidar = 4"

definition encode_frame :: "binary_frame \<Rightarrow> bytes \<Rightarrow> bytes \<Rightarrow> bytes \<Rightarrow> bytes" where
  "encode_frame k extra text payload = frame_head k extra (length text) @ text @ payload"

definition valid_frame :: "binary_frame \<Rightarrow> bytes \<Rightarrow> bytes \<Rightarrow> bool" where
  "valid_frame k extra text \<longleftrightarrow>
     length extra = extra_length k \<and> length text \<le> MAX_BINARY_HEADER_BYTES \<and>
     (k = Normal \<longrightarrow> length text < 2 ^ 16 \<and> frame_head Normal extra (length text) \<noteq> [2, 0, 0, 0])"

section \<open>Lemmas\<close>

lemma length_to_le_bytes [simp]: "length (to_le_bytes k n) = k"
  by (induction k arbitrary: n) auto

lemma from_to_le_bytes: "n < 256 ^ k \<Longrightarrow> from_le_bytes (to_le_bytes k n) = n"
proof (induction k arbitrary: n)
  case 0
  then show ?case by simp
next
  case (Suc k)
  then have "n div 256 < 256 ^ k" by (simp add: less_mult_imp_div_less mult.commute)
  with Suc.IH show ?case by (simp add: unsigned_of_nat take_bit_nat_def)
qed

lemma to_from_le_bytes: "to_le_bytes (length bs) (from_le_bytes bs) = bs"
proof (induction bs)
  case Nil
  then show ?case by simp
next
  case (Cons b bs)
  have "unat b < 256" using unsigned_less [of b] by simp
  with Cons show ?case by simp
qed

lemma from_le_bytes_less: "from_le_bytes bs < 256 ^ length bs"
proof (induction bs)
  case Nil
  then show ?case by simp
next
  case (Cons b bs)
  have "unat b < 256" using unsigned_less [of b] by simp
  with Cons show ?case by simp
qed

lemma length_frame_head:
  "length extra = extra_length k \<Longrightarrow> length (frame_head k extra n) = (case k of Normal \<Rightarrow> 4 | Lidar \<Rightarrow> 12)"
  by (cases k) auto

lemma frame_layout_encoded:
  assumes "valid_frame k extra text"
  shows "get_range (encode_frame k extra text payload) 0 4 =
           Some (take 4 (frame_head k extra (length text)))"
    and "(take 4 (frame_head k extra (length text)) = [2, 0, 0, 0]) = (k = Lidar)"
    and "frame_layout k (take 4 (frame_head k extra (length text))) (encode_frame k extra text payload)
           = Inr (length (frame_head k extra (length text)), length text)"
proof -
  have len: "length text < 256 ^ 4"
    using assms by (auto simp: valid_frame_def MAX_BINARY_HEADER_BYTES_def)
  have ex: "length extra = extra_length k" using assms by (simp add: valid_frame_def)
  show "get_range (encode_frame k extra text payload) 0 4 = Some (take 4 (frame_head k extra (length text)))"
    using ex by (cases k) (auto simp: encode_frame_def get_range_def)
  show "(take 4 (frame_head k extra (length text)) = [2, 0, 0, 0]) = (k = Lidar)"
    using assms ex by (cases k) (auto simp: valid_frame_def)
  show "frame_layout k (take 4 (frame_head k extra (length text))) (encode_frame k extra text payload)
           = Inr (length (frame_head k extra (length text)), length text)"
  proof (cases k)
    case Normal
    then have "length text < 256 ^ 2" using assms by (simp add: valid_frame_def)
    with Normal ex show ?thesis by (simp add: from_to_le_bytes)
  next
    case Lidar
    have "get_range (encode_frame Lidar extra text payload) 4 8 = Some (to_le_bytes 4 (length text))"
      by (simp add: encode_frame_def get_range_def)
    with Lidar ex len show ?thesis by (simp add: from_to_le_bytes)
  qed
qed

lemma parse_encoded:
  assumes "valid_frame k extra text"
  shows "parse deserialize (encode_frame k extra text payload) =
     (case parse_json deserialize text of
        Inl e \<Rightarrow> Inl e
      | Inr v \<Rightarrow> if is_object v then Inr (k, v, payload)
                 else Inl (frame_name k @ '' binary JSON header must be an object''))"
proof -
  let ?h = "frame_head k extra (length text)"
  have hdr: "get_range (encode_frame k extra text payload) (length ?h) (length ?h + length text) = Some text"
    unfolding encode_frame_def by (rule get_range_append)
  have "length ?h + length text \<le> usize_max" and "length text \<le> MAX_BINARY_HEADER_BYTES"
    using assms length_frame_head [of extra k "length text"]
    by (auto simp: valid_frame_def MAX_BINARY_HEADER_BYTES_def usize_max_def split: binary_frame.splits)
  moreover have "drop (length ?h + length text) (encode_frame k extra text payload) = payload"
    by (simp add: encode_frame_def)
  moreover have "(if take 4 ?h = [2, 0, 0, 0] then Lidar else Normal) = k"
    using frame_layout_encoded(2) [OF assms] by (cases k) auto
  ultimately show ?thesis
    using frame_layout_encoded(1,3) [OF assms, of payload] hdr
    by (auto simp: parse_def Let_def simp del: frame_layout.simps frame_head.simps split: sum.splits)
qed

text \<open>Every buffer that gets past the length checks is an encoded frame.\<close>

lemma normal_frame_shape:
  assumes "4 + n \<le> length buffer" and "n = from_le_bytes (take 2 buffer)"
  shows "buffer = encode_frame Normal (take 2 (drop 2 buffer)) (take n (drop 4 buffer)) (drop (4 + n) buffer)"
proof -
  have "to_le_bytes 2 n = take 2 buffer"
    using to_from_le_bytes [of "take 2 buffer"] assms by (simp add: min_def)
  moreover have "buffer = take 2 buffer @ take 2 (drop 2 buffer) @ take n (drop 4 buffer) @ drop (4 + n) buffer"
    by (metis (no_types, lifting) add.commute append_take_drop_id drop_drop numeral_Bit0)
  ultimately show ?thesis using assms(1) by (simp add: encode_frame_def)
qed

lemma lidar_frame_shape:
  assumes "12 + n \<le> length buffer" and "n = from_le_bytes (take 4 (drop 4 buffer))"
    and "take 4 buffer = [2, 0, 0, 0]"
  shows "buffer = encode_frame Lidar (take 4 (drop 8 buffer)) (take n (drop 12 buffer)) (drop (12 + n) buffer)"
proof -
  have "to_le_bytes 4 n = take 4 (drop 4 buffer)"
  proof -
    have "length (take 4 (drop 4 buffer)) = 4" using assms(1) by simp
    then show ?thesis using to_from_le_bytes [of "take 4 (drop 4 buffer)"] assms(2) by metis
  qed
  moreover have "buffer = take 4 buffer @ take 4 (drop 4 buffer) @ take 4 (drop 8 buffer) @
      take n (drop 12 buffer) @ drop (12 + n) buffer"
  proof -
    have "drop 12 buffer = take n (drop 12 buffer) @ drop (12 + n) buffer"
      by (metis add.commute append_take_drop_id drop_drop)
    moreover have "drop 8 buffer = take 4 (drop 8 buffer) @ drop 12 buffer"
      using append_take_drop_id [of 4 "drop 8 buffer"] by (simp del: append_take_drop_id)
    moreover have "drop 4 buffer = take 4 (drop 4 buffer) @ drop 8 buffer"
      using append_take_drop_id [of 4 "drop 4 buffer"] by (simp del: append_take_drop_id)
    ultimately show ?thesis using append_take_drop_id [of 4 buffer] by simp
  qed
  ultimately show ?thesis using assms by (simp add: encode_frame_def)
qed

section \<open>Properties\<close>

text \<open>
  Round trip of both layouts: for every header text of an object and every payload, parsing
  the encoded frame returns the frame kind, the parsed header and exactly the payload. A normal frame
  is any header of less than 64 KiB whose first four bytes are not those that mark a LiDAR frame.
\<close>

theorem parse_frame_roundtrip:
  assumes "valid_frame k extra text" and "parse_json deserialize text = Inr v" and "is_object v"
  shows "parse deserialize (encode_frame k extra text payload) = Inr (k, v, payload)"
  using assms by (simp add: parse_encoded)

theorem parse_frame_roundtrip_witness:
  "parse (\<lambda>t. if t = [123, 125] then Some (VisitMap []) else None)
     (encode_frame Lidar [0, 0, 0, 0] [123, 125] [7, 8, 9]) = Inr (Lidar, JObject [], [7, 8, 9])"
  by (rule parse_frame_roundtrip)
    (simp_all add: valid_frame_def parse_json_spec within_budget_def is_object_def policy_defs)

text \<open>
  Every accepted buffer is such a frame: the header is an object parsed from at most
  64 KiB of text inside the buffer, and the payload is the rest of the buffer. No slice of the parser
  is out of range, and a malformed or truncated buffer is an error.
\<close>

theorem parse_frame_sound:
  assumes "parse deserialize buffer = Inr (k, v, payload)"
  shows "\<exists>extra text. buffer = encode_frame k extra text payload \<and> valid_frame k extra text \<and>
           parse_json deserialize text = Inr v \<and> is_object v"
proof (cases "take 4 buffer = [2, 0, 0, 0]")
  case False
  define n where "n = from_le_bytes (take 2 buffer)"
  from assms False have ok: "k = Normal" "n \<le> MAX_BINARY_HEADER_BYTES" "4 + n \<le> length buffer"
      "parse_json deserialize (take n (drop 4 buffer)) = Inr v" "is_object v" "payload = drop (4 + n) buffer"
    by (auto simp: parse_def n_def get_range_def Let_def min_def take_take
        split: if_splits sum.splits)
  have "n < 2 ^ 16" using from_le_bytes_less [of "take 2 buffer"] ok(3) by (simp add: n_def)
  moreover have shape: "buffer = encode_frame Normal (take 2 (drop 2 buffer)) (take n (drop 4 buffer)) payload"
    using normal_frame_shape [OF ok(3) n_def] ok(6) by simp
  moreover have "frame_head Normal (take 2 (drop 2 buffer)) n = take 4 buffer"
    using arg_cong [OF shape, of "take 4"] ok(3) by (simp add: encode_frame_def)
  ultimately have "valid_frame Normal (take 2 (drop 2 buffer)) (take n (drop 4 buffer))"
    using ok False by (simp add: valid_frame_def)
  with shape ok show ?thesis by metis
next
  case True
  define n where "n = from_le_bytes (take 4 (drop 4 buffer))"
  from assms True have ok: "k = Lidar" "n \<le> MAX_BINARY_HEADER_BYTES" "12 + n \<le> length buffer"
      "parse_json deserialize (take n (drop 12 buffer)) = Inr v" "is_object v" "payload = drop (12 + n) buffer"
    by (auto simp: parse_def n_def get_range_def Let_def split: if_splits sum.splits)
  have "valid_frame Lidar (take 4 (drop 8 buffer)) (take n (drop 12 buffer))"
    using ok by (simp add: valid_frame_def)
  with lidar_frame_shape [OF ok(3) n_def True] ok show ?thesis by metis
qed

theorem parse_frame_sound_witness:
  "\<exists>extra text. ([2, 0, 1, 0, 123, 125, 9] :: bytes) = encode_frame Normal extra text [9] \<and>
     valid_frame Normal extra text \<and>
     parse_json (\<lambda>t. if t = [123, 125] then Some (VisitMap []) else None) text = Inr (JObject []) \<and>
     is_object (JObject [])"
  by (rule parse_frame_sound)
    (simp add: parse_def get_range_def Let_def parse_json_spec within_budget_def is_object_def
      usize_max_def policy_defs)

end
