(* ===== verification/Event_Size.thy ===== *)
theory Event_Size
  imports Json_Value
begin

text \<open>
  \<open>src/src/protocol/events.rs\<close>, admission sizes: \<open>json_size\<close>, the early-exit traversal that estimates
  the storage of a JSON payload, and \<open>event_size\<close>, the class (control or media) and accounted bytes of
  a callback event. Capacities and type sizes belong to the allocator and the compiler: they are a
  parameter, the record \<open>layout\<close>.
\<close>

definition MEDIA_BYTES :: nat where [policy_defs]: "MEDIA_BYTES = 32 * 1024 * 1024"
definition CONTROL_BYTES :: nat where [policy_defs]: "CONTROL_BYTES = 2 * 1024 * 1024"

record layout =
  str_capacity :: "string \<Rightarrow> nat" \<comment> \<open>capacity of a string buffer\<close>
  vec_capacity :: "nat \<Rightarrow> nat" \<comment> \<open>capacity of a vector of this length\<close>
  sizeof_value :: nat
  sizeof_event :: nat

fun size_entries :: "layout \<Rightarrow> nat \<Rightarrow> (string \<times> json) list \<Rightarrow> nat option" where
  "size_entries L n [] = Some n"
| "size_entries L n ((k, v) # m) =
     (let n' = sat_add (sat_add n (str_capacity L k)) 128
      in if n' > CONTROL_BYTES then None else size_entries L n' m)"

lemma object_stack_size:
  "sum_list (map (\<lambda>v. Suc (size v)) (map snd m)) < size (JObject m) + 1"
  by (induction m) auto

text \<open>The loop over the stack of values still to be counted (the top of the stack is the head).\<close>

function size_loop :: "layout \<Rightarrow> nat \<Rightarrow> json list \<Rightarrow> nat" where
  "size_loop L n [] = n"
| "size_loop L n (v # pending) =
     (let n1 = sat_add n 128 in
      case v of
        JString s \<Rightarrow>
          let n2 = sat_add n1 (str_capacity L s)
          in if n2 > CONTROL_BYTES then usize_max else size_loop L n2 pending
      | JArray vs \<Rightarrow>
          let n2 = sat_add n1 (sat_mul (vec_capacity L (length vs)) (sizeof_value L))
          in if n2 > CONTROL_BYTES then usize_max else size_loop L n2 (rev vs @ pending)
      | JObject m \<Rightarrow>
          (case size_entries L n1 m of
             None \<Rightarrow> usize_max
           | Some n2 \<Rightarrow>
               if n2 > CONTROL_BYTES then usize_max
               else size_loop L n2 (rev (map snd m) @ pending))
      | _ \<Rightarrow> if n1 > CONTROL_BYTES then usize_max else size_loop L n1 pending)"
  by pat_completeness auto

termination
proof (relation "measure (\<lambda>(L, n, st). sum_list (map (\<lambda>v. Suc (size v)) st))", goal_cases)
  case (7 L n v pending n1 m n2)
  then show ?case using object_stack_size [of m] by (simp add: rev_map [symmetric])
qed (auto simp: size_list_conv_sum_list sum_list_Suc rev_map [symmetric])

definition json_size :: "layout \<Rightarrow> json \<Rightarrow> nat" where
  "json_size L v = size_loop L 0 [v]"

fun event_size :: "layout \<Rightarrow> callback_event \<Rightarrow> nat \<times> nat" where
  "event_size L (TopicCallback topic payload) =
     (0, sat_add (sat_add (str_capacity L topic) (json_size L payload)) (sizeof_event L))"
| "event_size L (FutureResolve key result) =
     (0, sat_add (sat_add (str_capacity L key) (json_size L result)) (sizeof_event L))"
| "event_size L (LidarCallback topic payload points) =
     (1, sat_add (sat_add (sat_add (str_capacity L topic) (json_size L payload))
           (sat_mul (vec_capacity L (length points)) 4)) (sizeof_event L))"
| "event_size L (VideoFrame data width height) =
     (1, sat_add (vec_capacity L (length data)) (sizeof_event L))"
| "event_size L (AudioFrame data sample_rate channels) =
     (1, sat_add (sat_mul (vec_capacity L (length data)) 2) (sizeof_event L))"

section \<open>Specification\<close>

fun json_weight :: "layout \<Rightarrow> json \<Rightarrow> nat" where
  "json_weight L (JString s) = 128 + str_capacity L s"
| "json_weight L (JArray vs) =
     128 + vec_capacity L (length vs) * sizeof_value L + sum_list (map (json_weight L) vs)"
| "json_weight L (JObject m) =
     128 + sum_list (map (\<lambda>p. str_capacity L (fst p) + 128 + json_weight L (snd p)) m)"
| "json_weight L _ = 128"

lemma control_lt_usize: "CONTROL_BYTES < usize_max"
  by (simp add: CONTROL_BYTES_def usize_max_def)

lemma sat_add_sat_add [simp]: "sat_add (sat_add a b) c = sat_add a (b + c)"
  by (simp add: sat_add_def min_def)

lemma sat_add_sat_mul [simp]: "sat_add a (sat_mul b c) = sat_add a (b * c)"
  by (simp add: sat_add_def sat_mul_def min_def)

lemma sat_add_gt_control [simp]: "CONTROL_BYTES < sat_add a b \<longleftrightarrow> CONTROL_BYTES < a + b"
  using control_lt_usize by (auto simp: sat_add_def min_def)

lemma add_sat_add_gt_control [simp]:
  "CONTROL_BYTES < c + sat_add a b \<longleftrightarrow> CONTROL_BYTES < c + (a + b)"
  "CONTROL_BYTES < sat_add a b + c \<longleftrightarrow> CONTROL_BYTES < a + b + c"
  using control_lt_usize by (auto simp: sat_add_def min_def)

lemma sat_add_eq_control: "a + b \<le> CONTROL_BYTES \<Longrightarrow> sat_add a b = a + b"
  using control_lt_usize by (simp add: sat_add_def)

definition capped :: "nat \<Rightarrow> nat" where
  "capped k = (if k \<le> CONTROL_BYTES then k else usize_max)"

lemma size_entries_spec:
  "n \<le> CONTROL_BYTES \<Longrightarrow> size_entries L n m =
     (let k = n + sum_list (map (\<lambda>p. str_capacity L (fst p) + 128) m)
      in if k \<le> CONTROL_BYTES then Some k else None)"
proof (induction m arbitrary: n)
  case Nil
  then show ?case by simp
next
  case (Cons p m)
  then show ?case
    by (cases p) (auto simp: Let_def sat_add_eq_control not_less add_ac)
qed

lemma size_entries_over:
  "CONTROL_BYTES < n \<Longrightarrow> size_entries L n m = (if m = [] then Some n else None)"
  by (cases m) (auto simp: Let_def)

lemma sum_list_split: "sum_list (map (\<lambda>p. f p + g p) m) = sum_list (map f m) + sum_list (map (g :: _ \<Rightarrow> nat) m)"
  by (simp add: sum_list_addf)

lemma size_loop_spec:
  "n \<le> CONTROL_BYTES \<Longrightarrow> size_loop L n st = capped (n + sum_list (map (json_weight L) st))"
proof (induction L n st rule: size_loop.induct)
  case (1 L n)
  then show ?case by (simp add: capped_def)
next
  case (2 L n v pending)
  note IH = "2.IH" [OF refl]
  show ?case
  proof (cases v)
    case (JArray vs)
    show ?thesis
    proof (cases "n + 128 + vec_capacity L (length vs) * sizeof_value L \<le> CONTROL_BYTES")
      case True
      with IH(5) [OF JArray refl] show ?thesis
        by (simp add: JArray Let_def sat_add_eq_control rev_map [symmetric] add_ac not_less)
    next
      case False
      then show ?thesis by (simp add: JArray Let_def capped_def add_ac)
    qed
  next
    case (JObject m)
    let ?k = "n + 128 + sum_list (map (\<lambda>p. str_capacity L (fst p) + 128) m)"
    have w: "json_weight L v = 128 + sum_list (map (\<lambda>p. str_capacity L (fst p) + 128) m) +
        sum_list (map (json_weight L) (map snd m))"
      by (simp add: JObject sum_list_split comp_def)
    show ?thesis
    proof (cases "?k \<le> CONTROL_BYTES")
      case True
      then have e: "size_entries L (sat_add n 128) m = Some ?k"
        using size_entries_spec [of "n + 128" L m] by (simp add: sat_add_eq_control Let_def)
      with IH(6) [OF JObject e] True w show ?thesis
        by (simp add: JObject Let_def rev_map [symmetric] add_ac not_less)
    next
      case False
      have "(case size_entries L (sat_add n 128) m of None \<Rightarrow> True | Some n2 \<Rightarrow> CONTROL_BYTES < n2)"
        using False size_entries_spec [of "n + 128" L m] size_entries_over [of "sat_add n 128" L m]
        by (cases "n + 128 \<le> CONTROL_BYTES") (auto simp: sat_add_eq_control Let_def)
      with False w show ?thesis
        by (auto simp: JObject Let_def capped_def split: option.splits)
    qed
  next
    case (JString s)
    show ?thesis
    proof (cases "n + 128 + str_capacity L s \<le> CONTROL_BYTES")
      case True
      with IH(4) [OF JString refl] show ?thesis
        by (simp add: JString Let_def sat_add_eq_control add_ac not_less)
    next
      case False
      then show ?thesis by (simp add: JString Let_def capped_def add_ac)
    qed
  qed (use IH(1-3) in \<open>auto simp: Let_def capped_def sat_add_eq_control not_less add_ac\<close>)
qed

section \<open>Properties\<close>

text \<open>
  The early-exit size estimate is the full one: on every JSON value the stack traversal
  returns the storage weight of the whole tree when that is at most the control budget of 2 MiB, and
  the largest \<open>usize\<close> otherwise, so an oversized payload is never undercounted by stopping early or by
  saturation.
\<close>

theorem json_size_exact:
  "json_size L v = (if json_weight L v \<le> CONTROL_BYTES then json_weight L v else usize_max)"
  using size_loop_spec [of 0 L "[v]"] by (simp add: json_size_def capped_def del: size_loop.simps)

end
