(* ===== verification/Lidar.thy ===== *)
theory Lidar
  imports Event_Size
begin

unbundle bit_operations_syntax

text \<open>
  \<open>src/src/datachannel/lidar/codec.rs\<close>: validation of the voxel geometry and the optimised unpacking
  of a compressed bitmap into points. The LZ4 block decompressor is a third-party crate and a
  parameter. The coordinates are the IEEE values the code computes, in its order of operations.
\<close>

definition MAX_BITMAP_BYTES :: nat where [policy_defs]: "MAX_BITMAP_BYTES = 1024 * 1024"
definition MAX_COMPRESSED_BYTES :: nat where
  [policy_defs]: "MAX_COMPRESSED_BYTES = MAX_BITMAP_BYTES + MAX_BITMAP_BYTES div 255 + 16"
definition MAX_POINTS :: nat where [policy_defs]: "MAX_POINTS = 1000000"
definition BYTES_PER_ROW :: nat where [policy_defs]: "BYTES_PER_ROW = 16"
definition BYTES_PER_SLICE :: nat where [policy_defs]: "BYTES_PER_SLICE = 2048"

type_synonym lz4 = "bytes \<Rightarrow> nat \<Rightarrow> string + bytes"
type_synonym origin = "fval \<times> fval \<times> fval"

definition decompress_lz4 :: "lz4 \<Rightarrow> bytes \<Rightarrow> nat \<Rightarrow> string + bytes" where
  "decompress_lz4 decompress compressed decompressed_size =
     (if decompressed_size > MAX_BITMAP_BYTES \<or> length compressed > MAX_COMPRESSED_BYTES
      then Inl ''LiDAR compressed/decompressed size exceeds resource budget''
      else map_err (\<lambda>e. ''lz4 decompress failed: '' @ e) (decompress compressed decompressed_size))"

definition axis_overflows :: "fval \<Rightarrow> fval \<Rightarrow> nat \<Rightarrow> bool" where
  "axis_overflows resolution v index \<longleftrightarrow>
     \<not> is_finite v \<or> \<not> is_finite (narrow binary32 v) \<or>
     \<not> is_finite (fadd binary32 (narrow binary32 v) (fmul binary32 (float_of_nat binary32 index) resolution))"

definition validate_geometry :: "nat \<Rightarrow> origin \<Rightarrow> fval \<Rightarrow> string + unit" where
  "validate_geometry src_size origin resolution =
     (if src_size > MAX_BITMAP_BYTES \<or> \<not> is_finite resolution \<or> le_zero resolution
      then Inl ''Invalid LiDAR size or resolution''
      else
        let resolution = narrow binary32 resolution;
            (ox, oy, oz) = origin;
            max_indices = (BYTES_PER_ROW * 8 - 1, BYTES_PER_SLICE div BYTES_PER_ROW - 1,
                           (src_size - 1) div BYTES_PER_SLICE)
        in if \<not> is_finite resolution \<or> le_zero resolution \<or>
              axis_overflows resolution ox (fst max_indices) \<or>
              axis_overflows resolution oy (fst (snd max_indices)) \<or>
              axis_overflows resolution oz (snd (snd max_indices))
           then Inl ''LiDAR coordinates exceed finite f32 range''
           else Inr ())"

definition count_ones :: "u8 \<Rightarrow> nat" where
  "count_ones b = length (filter (bit b) [0..<8])"

fun count_points :: "nat \<Rightarrow> bytes \<Rightarrow> nat option" where
  "count_points n [] = Some n"
| "count_points n (b # bs) = (if n + count_ones b > usize_max then None else count_points (n + count_ones b) bs)"

text \<open>The inner loop: the shifted byte runs out of bits. The measure weighs each bit by its
  distance from the top.\<close>

definition bit_distance :: "u8 \<Rightarrow> nat" where
  "bit_distance w = (\<Sum>n\<in>{n. n < 8 \<and> bit w n}. 8 - n)"

lemma bit_shift_one: "bit (push_bit 1 (w :: u8)) n \<longleftrightarrow> 0 < n \<and> n < 8 \<and> bit w (n - 1)"
  unfolding bit_push_bit_iff by auto

lemma bit_distance_shift: "w \<noteq> 0 \<Longrightarrow> bit_distance (push_bit 1 w) < bit_distance w"
proof -
  assume "w \<noteq> 0"
  then obtain m where m: "m < 8" "bit w m"
    using bit_word_eqI [of w 0] by auto
  let ?S = "{n. n < 7 \<and> bit w n}"
  have eq: "{n. n < 8 \<and> bit (push_bit 1 w) n} = Suc ` ?S"
    unfolding bit_shift_one by (auto simp: image_iff gr0_conv_Suc)
  have "bit_distance (push_bit 1 w) = (\<Sum>n\<in>?S. 7 - n)"
    unfolding bit_distance_def eq by (subst sum.reindex) auto
  also have "\<dots> = (\<Sum>n\<in>{n. n < 8 \<and> bit w n}. 7 - n)"
    by (rule sum.mono_neutral_left) auto
  also have "\<dots> < bit_distance w"
    unfolding bit_distance_def using m by (intro sum_strict_mono) auto
  finally show ?thesis .
qed

function bits_loop :: "(nat \<Rightarrow> fval list) \<Rightarrow> u8 \<Rightarrow> nat \<Rightarrow> fval list" where
  "bits_loop push bits bit_offset =
     (if bits = 0 then []
      else (if bits AND 0x80 \<noteq> 0 then push bit_offset else []) @ bits_loop push (push_bit 1 bits) (bit_offset + 1))"
  by pat_completeness auto
termination
  by (relation "measure (\<lambda>(_, w, _). bit_distance w)") (use bit_distance_shift in auto)

declare bits_loop.simps [simp del]

definition push_point :: "fval \<Rightarrow> origin \<Rightarrow> nat \<Rightarrow> nat \<Rightarrow> nat \<Rightarrow> fval list" where
  "push_point resolution origin x y z =
     (let (ox, oy, oz) = origin
      in [fadd binary32 (fmul binary32 (float_of_nat binary32 x) resolution) ox,
          fadd binary32 (fmul binary32 (float_of_nat binary32 y) resolution) oy,
          fadd binary32 (fmul binary32 (float_of_nat binary32 z) resolution) oz])"

fun points_loop :: "(nat \<Rightarrow> nat \<Rightarrow> nat \<Rightarrow> fval list) \<Rightarrow> nat \<Rightarrow> bytes \<Rightarrow> fval list" where
  "points_loop push byte_index [] = []"
| "points_loop push byte_index (byte_value # rest) =
     (if byte_value = 0 then []
      else let z = byte_index div BYTES_PER_SLICE;
               n_slice = byte_index mod BYTES_PER_SLICE;
               y = n_slice div BYTES_PER_ROW;
               x_base = (n_slice mod BYTES_PER_ROW) * 8
           in bits_loop (\<lambda>bit_offset. push (x_base + bit_offset) y z) byte_value 0) @
     points_loop push (Suc byte_index) rest"

definition bits_to_points_optimized :: "bytes \<Rightarrow> origin \<Rightarrow> fval \<Rightarrow> string + fval list" where
  "bits_to_points_optimized buffer origin resolution =
     and_then (validate_geometry (length buffer) origin resolution) (\<lambda>_.
     (case count_points 0 buffer of
        None \<Rightarrow> Inl ''LiDAR point count overflow''
      | Some point_count \<Rightarrow>
          if point_count > MAX_POINTS then Inl ''LiDAR point count exceeds resource budget''
          else if point_count * 3 > usize_max then Inl ''LiDAR output size overflow''
          else let (x, y, z) = origin
               in Inr (points_loop
                    (push_point (narrow binary32 resolution)
                       (narrow binary32 x, narrow binary32 y, narrow binary32 z)) 0 buffer)))"

section \<open>Reference\<close>

text \<open>
  The bitmap read most significant bit first: bit number \<open>n\<close> stands for the voxel
  \<open>(n mod 128, n div 128 mod 128, n div 16384)\<close>.
\<close>

definition bitmap_bit :: "bytes \<Rightarrow> nat \<Rightarrow> bool" where
  "bitmap_bit buf n \<longleftrightarrow> bit (buf ! (n div 8)) (7 - n mod 8)"

definition occupied :: "bytes \<Rightarrow> nat list" where
  "occupied buf = filter (bitmap_bit buf) [0..<8 * length buf]"

definition voxel :: "nat \<Rightarrow> nat \<times> nat \<times> nat" where
  "voxel n = (n mod 128, n div 128 mod 128, n div 16384)"

lemma msb_test: "(w :: u8) AND 0x80 \<noteq> 0 \<longleftrightarrow> bit w 7"
  using and_exp_eq_0_iff_not_bit [of w 7] by simp

lemma bits_loop_spec:
  "bits_loop push w off = concat (map (\<lambda>k. if bit w (7 - k) then push (off + k) else []) [0..<8])"
proof (induction push w off rule: bits_loop.induct)
  case (1 push w off)
  show ?case
  proof (cases "w = 0")
    case True
    then show ?thesis by (simp add: bits_loop.simps)
  next
    case False
    let ?emit = "\<lambda>k. if bit w (7 - k) then push (off + k) else []"
    have split8: "[0..<8] = 0 # map Suc [0..<7]" "[0..<8] = [0..<7] @ [7::nat]"
      by (simp_all add: upt_rec)
    have tail: "concat (map (\<lambda>k. if bit (push_bit 1 w) (7 - k) then push (off + 1 + k) else []) [0..<8]) =
        concat (map ?emit (map Suc [0..<7]))"
      unfolding split8(2) bit_shift_one
      by (auto simp: comp_def intro!: arg_cong [where f = concat] map_cong)
    have "bits_loop push w off = ?emit 0 @ bits_loop push (push_bit 1 w) (off + 1)"
      using False msb_test [of w] by (subst bits_loop.simps) simp
    also have "\<dots> = concat (map ?emit [0..<8])"
      using 1 [OF False] tail by (simp only: split8(1) list.map concat.simps)
    finally show ?thesis .
  qed
qed

lemma voxel_of_byte:
  assumes "k < 8"
  shows "voxel (8 * i + k) =
    ((i mod BYTES_PER_SLICE mod BYTES_PER_ROW) * 8 + k, i mod BYTES_PER_SLICE div BYTES_PER_ROW, i div BYTES_PER_SLICE)"
proof -
  let ?n = "8 * i + k"
  have byte: "?n div 8 = i" and pos: "?n mod 8 = k" using assms by simp_all
  have "?n mod 128 = 8 * (?n div 8 mod 16) + ?n mod 8"
    using mod_mult2_eq [of ?n 8 16] by simp
  then have x: "?n mod 128 = (i mod 16) * 8 + k" unfolding byte pos by (simp add: mult.commute)
  have "?n div 128 = ?n div 8 div 16" using div_mult2_eq [of ?n 8 16] by simp
  then have y: "?n div 128 mod 128 = i mod 2048 div 16"
    using mod_mult2_eq [of i 16 128] by (simp only: byte) simp
  have z: "?n div 16384 = i div 2048"
    using div_mult2_eq [of ?n 8 2048] byte by simp
  show ?thesis
    unfolding voxel_def x y z BYTES_PER_SLICE_def BYTES_PER_ROW_def by (simp add: mod_mod_cancel)
qed

definition push_voxel :: "(nat \<Rightarrow> nat \<Rightarrow> nat \<Rightarrow> 'a list) \<Rightarrow> nat \<Rightarrow> 'a list" where
  "push_voxel push n = (case voxel n of (x, y, z) \<Rightarrow> push x y z)"

lemma points_loop_byte:
  "points_loop push i (b # rest) =
     concat (map (\<lambda>k. if bit b (7 - k) then push_voxel push (8 * i + k) else []) [0..<8]) @
     points_loop push (Suc i) rest"
proof -
  have "bits_loop (\<lambda>k. push (i mod BYTES_PER_SLICE mod BYTES_PER_ROW * 8 + k)
        (i mod BYTES_PER_SLICE div BYTES_PER_ROW) (i div BYTES_PER_SLICE)) b 0 =
      concat (map (\<lambda>k. if bit b (7 - k) then push_voxel push (8 * i + k) else []) [0..<8])"
    unfolding bits_loop_spec
    by (intro arg_cong [where f = concat] map_cong) (auto simp: push_voxel_def voxel_of_byte)
  moreover have "bits_loop f 0 0 = []" for f by (simp add: bits_loop.simps)
  ultimately show ?thesis by (auto simp: Let_def)
qed

lemma points_loop_spec:
  "points_loop push i buf =
     concat (map (\<lambda>n. if bitmap_bit buf n then push_voxel push (8 * i + n) else []) [0..<8 * length buf])"
proof (induction buf arbitrary: i)
  case Nil
  then show ?case by simp
next
  case (Cons b rest)
  have up: "[0..<8 * length (b # rest)] = [0..<8] @ map (\<lambda>n. 8 + n) [0..<8 * length rest]"
    using upt_add_eq_append [of 0 8 "8 * length rest"] map_add_upt [of 8 "8 * length rest"]
    by (simp add: add.commute)
  have head: "bitmap_bit (b # rest) n = bit b (7 - n)" if "n < 8" for n
    using that by (simp add: bitmap_bit_def)
  have tail: "bitmap_bit (b # rest) (8 + n) = bitmap_bit rest n" for n
    using div_add_self1 [of 8 n] by (simp add: bitmap_bit_def)
  have shift: "push_voxel push (8 * Suc i + n) = push_voxel push (8 * i + (8 + n))" for n
    by (simp add: algebra_simps)
  show ?case
    unfolding points_loop_byte Cons.IH up map_append concat_append map_map comp_def tail shift
    by (intro arg_cong2 [where f = append] arg_cong [where f = concat] map_cong) (auto simp: head)
qed

lemma concat_if: "concat (map (\<lambda>n. if P n then f n else []) ns) = concat (map f (filter P ns))"
  by (induction ns) simp_all

lemma points_loop_occupied: "points_loop push 0 buf = concat (map (push_voxel push) (occupied buf))"
  by (simp add: points_loop_spec occupied_def concat_if)

text \<open>The number of points is the number of set bits.\<close>

lemma count_ones_msb: "count_ones b = length (filter (\<lambda>k. bit b (7 - k)) [0..<8])"
proof -
  have "filter (bit b) [0..<8] = filter (bit b) (rev (map (\<lambda>k. 7 - k) [0..<8]))"
    by (intro arg_cong [where f = "filter (bit b)"]) (simp add: upt_rec)
  also have "\<dots> = rev (map (\<lambda>k. 7 - k) (filter (\<lambda>k. bit b (7 - k)) [0..<8]))"
    by (simp add: filter_map comp_def flip: rev_filter)
  finally show ?thesis by (simp add: count_ones_def)
qed

lemma occupied_Cons: "length (occupied (b # rest)) = count_ones b + length (occupied rest)"
proof -
  let ?unit = "\<lambda>x y z. [NaN]"
  have unit: "push_voxel ?unit n = [NaN]" for n
    by (simp add: push_voxel_def voxel_def)
  have len: "length (points_loop ?unit i buf) = length (occupied buf)" for buf i
    unfolding points_loop_spec concat_if unit by (simp add: occupied_def)
  have "length (points_loop ?unit 0 (b # rest)) =
      length (concat (map (\<lambda>k. if bit b (7 - k) then [NaN] else []) [0..<8])) + length (points_loop ?unit 1 rest)"
    unfolding points_loop_byte unit by simp
  then show ?thesis
    unfolding len concat_if by (simp add: count_ones_msb)
qed

lemma count_points_spec:
  "n + length (occupied buf) \<le> usize_max \<Longrightarrow> count_points n buf = Some (n + length (occupied buf))"
  by (induction buf arbitrary: n) (auto simp: occupied_Cons occupied_def [of "[]"])

lemma occupied_length: "length (occupied buf) \<le> 8 * length buf"
  using length_filter_le [of "bitmap_bit buf" "[0..<8 * length buf]"] by (simp add: occupied_def)

lemma geometry_size: "validate_geometry n origin resolution = Inr () \<Longrightarrow> n \<le> MAX_BITMAP_BYTES"
  by (auto simp: validate_geometry_def split: if_splits)

section \<open>Properties\<close>

text \<open>
  Property C39. The optimised unpacking equals the reference: for a valid geometry with at most a
  million set bits, the output is, in order, one point for every set bit of the bitmap read most
  significant bit first, at that bit's voxel; with more set bits it is refused, and an invalid
  geometry is refused with the validator's error. The two overflow errors cannot occur.
\<close>

theorem bits_to_points_exact:
  "bits_to_points_optimized buffer (ox, oy, oz) resolution =
     (case validate_geometry (length buffer) (ox, oy, oz) resolution of
        Inl e \<Rightarrow> Inl e
      | Inr _ \<Rightarrow>
          if length (occupied buffer) > MAX_POINTS then Inl ''LiDAR point count exceeds resource budget''
          else Inr (concat (map (push_voxel (push_point (narrow binary32 resolution)
                 (narrow binary32 ox, narrow binary32 oy, narrow binary32 oz))) (occupied buffer))))"
proof (cases "validate_geometry (length buffer) (ox, oy, oz) resolution")
  case (Inl e)
  then show ?thesis by (simp add: bits_to_points_optimized_def)
next
  case (Inr u)
  then have "length (occupied buffer) \<le> 8 * MAX_BITMAP_BYTES"
    using geometry_size [of "length buffer"] occupied_length [of buffer] by fastforce
  then have "count_points 0 buffer = Some (length (occupied buffer))"
    using count_points_spec [of 0 buffer] by (simp add: MAX_BITMAP_BYTES_def usize_max_def)
  with Inr show ?thesis
    by (auto simp: bits_to_points_optimized_def points_loop_occupied MAX_POINTS_def usize_max_def)
qed

end
