(* ===== verification/Events.thy ===== *)
theory Events
  imports Event_Size "HOL-Library.Multiset"
begin

text \<open>
  \<open>src/src/protocol/events.rs\<close>, the generation-bound callback channel. The state shared by all
  \<open>EventSender\<close> clones and the \<open>EventReceiver\<close> is one record: the two bounded queues, the current
  generation, the mutex-protected usage and the capacity. A sender is the generation it captured.
  \<open>eb_outstanding\<close> holds the deliveries whose envelope (and permit) is still alive outside the queues,
  as the Python dispatcher keeps it during a callback.

  A bounded channel is its list of queued messages: \<open>try_send\<close> fails when the channel is full or its
  receiver is gone, \<open>try_recv\<close> takes the oldest message. The blocking operations built on these are in
  \<open>Event_Wait\<close>.
\<close>

record delivery =
  d_event :: "callback_event option"
  d_generation :: u64
  d_class :: nat \<comment> \<open>\<open>Permit.class\<close>\<close>
  d_bytes :: nat \<comment> \<open>\<open>Permit.bytes\<close>\<close>

record usage =
  u_closed :: bool
  u_bytes :: "nat list"
  u_count :: "nat list"

record event_bus =
  eb_control :: "delivery list"
  eb_media :: "delivery list"
  eb_current :: u64
  eb_usage :: usage
  eb_capacity :: nat
  eb_outstanding :: "delivery list"
  eb_receiver :: bool \<comment> \<open>the receiver has not been dropped\<close>
  eb_senders :: bool \<comment> \<open>some sender clone is alive\<close>

datatype send_error = Full callback_event | Disconnected callback_event

datatype recv_error = RecvEmpty | RecvDisconnected

definition usage_default :: usage where
  "usage_default = \<lparr>u_closed = False, u_bytes = [0, 0], u_count = [0, 0]\<rparr>"

definition event_channel :: "nat \<Rightarrow> string + event_bus" where
  "event_channel capacity =
     (if \<not> (1 \<le> capacity \<and> capacity \<le> 256) then Inl ''event capacity must be between 1 and 256''
      else Inr \<lparr>eb_control = [], eb_media = [], eb_current = 0, eb_usage = usage_default,
                eb_capacity = capacity, eb_outstanding = [], eb_receiver = True, eb_senders = True\<rparr>)"

definition is_current :: "event_bus \<Rightarrow> delivery \<Rightarrow> bool" where
  "is_current b d \<longleftrightarrow> eb_current b = d_generation d"

definition set_generation :: "u64 \<Rightarrow> event_bus \<Rightarrow> event_bus" where
  "set_generation g b = b\<lparr>eb_current := g\<rparr>"

definition permit_take :: "nat \<Rightarrow> nat \<Rightarrow> usage \<Rightarrow> usage" where
  "permit_take class n u =
     u\<lparr>u_bytes := (u_bytes u)[class := u_bytes u ! class + n],
       u_count := (u_count u)[class := u_count u ! class + 1]\<rparr>"

definition permit_drop :: "delivery \<Rightarrow> usage \<Rightarrow> usage" where
  "permit_drop d u =
     u\<lparr>u_bytes := (u_bytes u)[d_class d := u_bytes u ! d_class d - d_bytes d],
       u_count := (u_count u)[d_class d := u_count u ! d_class d - 1]\<rparr>"

definition byte_limit :: "nat \<Rightarrow> nat" where
  "byte_limit class = (if class = 0 then CONTROL_BYTES else MEDIA_BYTES)"

definition count_limit :: "nat \<Rightarrow> nat \<Rightarrow> nat" where
  "count_limit capacity class = (if class = 0 then capacity else min capacity 4)"

definition channel_try_send :: "nat \<Rightarrow> bool \<Rightarrow> 'a list \<Rightarrow> 'a \<Rightarrow> bool option \<times> 'a list" where
  "channel_try_send cap alive q x =
     (if \<not> alive then (Some False, q) else if length q \<ge> cap then (Some True, q) else (None, q @ [x]))"

text \<open>The part of \<open>try_send\<close> under the usage lock: the generation is checked again there.\<close>

definition try_send_locked :: "layout \<Rightarrow> u64 \<Rightarrow> callback_event \<Rightarrow> event_bus \<Rightarrow> (send_error + unit) \<times> event_bus" where
  "try_send_locked L generation event b =
     (let (class, n) = event_size L event; u = eb_usage b in
      if u_closed u then (Inl (Disconnected event), b)
      else if eb_current b \<noteq> generation then (Inl (Full event), b)
      else if n > byte_limit class - u_bytes u ! class \<or> u_count u ! class \<ge> count_limit (eb_capacity b) class
      then (Inl (Full event), b)
      else
        let d = \<lparr>d_event = Some event, d_generation = generation, d_class = class, d_bytes = n\<rparr>;
            u' = permit_take class n u;
            q = (if class = 0 then eb_control b else eb_media b);
            (failed, q') = channel_try_send (count_limit (eb_capacity b) class) (eb_receiver b) q d;
            b' = (if class = 0 then b\<lparr>eb_control := q', eb_usage := u'\<rparr> else b\<lparr>eb_media := q', eb_usage := u'\<rparr>)
        in case failed of
             None \<Rightarrow> (Inr (), b')
           | Some full \<Rightarrow>
               (Inl (if full then Full event else Disconnected event), b'\<lparr>eb_usage := permit_drop d u'\<rparr>))"

definition try_send :: "layout \<Rightarrow> u64 \<Rightarrow> callback_event \<Rightarrow> event_bus \<Rightarrow> (send_error + unit) \<times> event_bus" where
  "try_send L generation event b =
     (if eb_current b \<noteq> generation then (Inl (Full event), b) else try_send_locked L generation event b)"

text \<open>A delivery that is not handed on is dropped, which releases its permit.\<close>

definition drop_queued :: "delivery \<Rightarrow> event_bus \<Rightarrow> event_bus" where
  "drop_queued d b = b\<lparr>eb_usage := permit_drop d (eb_usage b)\<rparr>"

function try_delivery :: "event_bus \<Rightarrow> (recv_error + delivery) \<times> event_bus" where
  "try_delivery b =
     (case eb_control b of
        d # rest \<Rightarrow>
          let b1 = b\<lparr>eb_control := rest\<rparr>
          in if is_current b1 d then (Inr d, b1\<lparr>eb_outstanding := d # eb_outstanding b1\<rparr>)
             else try_delivery (drop_queued d b1)
      | [] \<Rightarrow>
          (case eb_media b of
             d # rest \<Rightarrow>
               let b1 = b\<lparr>eb_media := rest\<rparr>
               in if is_current b1 d then (Inr d, b1\<lparr>eb_outstanding := d # eb_outstanding b1\<rparr>)
                  else try_delivery (drop_queued d b1)
           | [] \<Rightarrow> (Inl (if eb_senders b then RecvEmpty else RecvDisconnected), b)))"
  by pat_completeness auto
termination
  by (relation "measure (\<lambda>b. length (eb_control b) + length (eb_media b))") (auto simp: drop_queued_def)

declare try_delivery.simps [simp del]

definition drop_delivery :: "delivery \<Rightarrow> event_bus \<Rightarrow> event_bus" where
  "drop_delivery d b =
     b\<lparr>eb_outstanding := remove1 d (eb_outstanding b), eb_usage := permit_drop d (eb_usage b)\<rparr>"

text \<open>\<open>try_recv\<close> extracts the event and drops the envelope; \<open>None\<close> is the panic of \<open>take_event\<close>.\<close>

definition try_recv :: "event_bus \<Rightarrow> (recv_error + callback_event option) \<times> event_bus" where
  "try_recv b =
     (case try_delivery b of
        (Inl e, b') \<Rightarrow> (Inl e, b')
      | (Inr d, b') \<Rightarrow> (Inr (d_event d), drop_delivery d b'))"

text \<open>What the biased selection over both queues finds ready, control first: a delivery, taken off its queue, or
  the end of the channel (on the left). A queue is ready when it holds a delivery or has no sender left.\<close>

definition select_ready :: "event_bus \<Rightarrow> (unit + delivery \<times> event_bus) option" where
  "select_ready b =
     (case eb_control b of
        d # rest \<Rightarrow> Some (Inr (d, b\<lparr>eb_control := rest, eb_outstanding := d # eb_outstanding b\<rparr>))
      | [] \<Rightarrow>
          if \<not> eb_senders b then Some (Inl ())
          else case eb_media b of
            d # rest \<Rightarrow> Some (Inr (d, b\<lparr>eb_media := rest, eb_outstanding := d # eb_outstanding b\<rparr>))
          | [] \<Rightarrow> None)"

definition receiver_drop :: "event_bus \<Rightarrow> event_bus" where
  "receiver_drop b =
     (let b1 = b\<lparr>eb_usage := (eb_usage b)\<lparr>u_closed := True\<rparr>\<rparr>;
          b2 = fold drop_queued (eb_control b1) (b1\<lparr>eb_control := []\<rparr>);
          b3 = fold drop_queued (eb_media b2) (b2\<lparr>eb_media := []\<rparr>)
      in b3\<lparr>eb_receiver := False\<rparr>)"

text \<open>The interleavings of the channel's users: every producer and consumer call is one step.\<close>

inductive bus_step :: "layout \<Rightarrow> event_bus \<Rightarrow> event_bus \<Rightarrow> bool" for L where
  send: "bus_step L b (snd (try_send L g ev b))"
| send_late: "bus_step L b (snd (try_send_locked L g ev b))" \<comment> \<open>first check done earlier\<close>
| new_generation: "bus_step L b (set_generation g b)"
| deliver: "eb_receiver b \<Longrightarrow> bus_step L b (snd (try_delivery b))"
| select: "eb_receiver b \<Longrightarrow> select_ready b = Some (Inr (d, b')) \<Longrightarrow> bus_step L b b'"
| finish: "d \<in> set (eb_outstanding b) \<Longrightarrow> bus_step L b (drop_delivery d b)"
| receive: "eb_receiver b \<Longrightarrow> bus_step L b (snd (try_recv b))"
| close: "eb_receiver b \<Longrightarrow> bus_step L b (receiver_drop b)"
| no_senders: "bus_step L b (b\<lparr>eb_senders := False\<rparr>)"

inductive bus_reachable :: "layout \<Rightarrow> event_bus \<Rightarrow> bool" for L where
  start: "event_channel capacity = Inr b \<Longrightarrow> bus_reachable L b"
| step: "bus_reachable L b \<Longrightarrow> bus_step L b b' \<Longrightarrow> bus_reachable L b'"

inductive_cases bus_stepE: "bus_step L b b'"

section \<open>Accounting\<close>

definition charge :: "nat \<Rightarrow> delivery multiset \<Rightarrow> nat" where
  "charge c M = sum_mset (image_mset d_bytes (filter_mset (\<lambda>d. d_class d = c) M))"

definition number :: "nat \<Rightarrow> delivery multiset \<Rightarrow> nat" where
  "number c M = size (filter_mset (\<lambda>d. d_class d = c) M)"

definition accounts :: "usage \<Rightarrow> delivery multiset \<Rightarrow> bool" where
  "accounts u M \<longleftrightarrow>
     u_bytes u = [charge 0 M, charge 1 M] \<and> u_count u = [number 0 M, number 1 M] \<and>
     (\<forall>d\<in>#M. d_class d < 2)"

definition held :: "event_bus \<Rightarrow> delivery multiset" where
  "held b = mset (eb_control b) + mset (eb_media b) + mset (eb_outstanding b)"

definition sized :: "layout \<Rightarrow> delivery \<Rightarrow> bool" where
  "sized L d \<longleftrightarrow> (case d_event d of None \<Rightarrow> False | Some ev \<Rightarrow> event_size L ev = (d_class d, d_bytes d))"

definition bus_inv :: "layout \<Rightarrow> event_bus \<Rightarrow> bool" where
  "bus_inv L b \<longleftrightarrow>
     1 \<le> eb_capacity b \<and> eb_capacity b \<le> 256 \<and> accounts (eb_usage b) (held b) \<and>
     (\<forall>c\<in>{0, 1}. charge c (held b) \<le> byte_limit c \<and> number c (held b) \<le> count_limit (eb_capacity b) c) \<and>
     list_all (\<lambda>d. d_class d = 0) (eb_control b) \<and> list_all (\<lambda>d. d_class d = 1) (eb_media b) \<and>
     (\<forall>d\<in>#held b. sized L d) \<and>
     (u_closed (eb_usage b) \<longleftrightarrow> \<not> eb_receiver b) \<and> (\<not> eb_receiver b \<longrightarrow> eb_control b = [] \<and> eb_media b = [])"

lemma charge_add [simp]:
  "charge c (add_mset d M) = (if d_class d = c then d_bytes d else 0) + charge c M"
  "charge c {#} = 0"
  by (simp_all add: charge_def)

lemma number_add [simp]:
  "number c (add_mset d M) = (if d_class d = c then 1 else 0) + number c M"
  "number c {#} = 0"
  by (simp_all add: number_def)

lemma accounts_drop: "accounts u (add_mset d M) \<Longrightarrow> accounts (permit_drop d u) M"
proof -
  assume a: "accounts u (add_mset d M)"
  then have "d_class d = 0 \<or> d_class d = 1" by (auto simp: accounts_def)
  with a show ?thesis by (auto simp: accounts_def permit_drop_def)
qed

lemma accounts_take:
  "accounts u M \<Longrightarrow> d_class d < 2 \<Longrightarrow> accounts (permit_take (d_class d) (d_bytes d) u) (add_mset d M)"
  by (auto simp: accounts_def permit_take_def less_2_cases_iff)

lemma permit_drop_take:
  "accounts u M \<Longrightarrow> d_class d < 2 \<Longrightarrow> permit_drop d (permit_take (d_class d) (d_bytes d) u) = u"
  by (cases u) (auto simp: accounts_def permit_take_def permit_drop_def less_2_cases_iff)

lemma event_class: "event_size L ev = (c, n) \<Longrightarrow> c < 2"
  by (cases ev) auto

lemma number_queue:
  "list_all (\<lambda>d. d_class d = c) q \<Longrightarrow> number c (mset q) = length q"
  by (simp add: number_def list_all_iff filter_mset_eq_mempty_iff flip: mset_filter)


lemma charge_union [simp]: "charge c (M + N) = charge c M + charge c N"
  by (simp add: charge_def)

lemma number_union [simp]: "number c (M + N) = number c M + number c N"
  by (simp add: number_def)

section \<open>Every step keeps the accounting\<close>

definition enqueue :: "delivery \<Rightarrow> event_bus \<Rightarrow> event_bus" where
  "enqueue d b =
     (let u' = permit_take (d_class d) (d_bytes d) (eb_usage b)
      in if d_class d = 0 then b\<lparr>eb_control := eb_control b @ [d], eb_usage := u'\<rparr>
         else b\<lparr>eb_media := eb_media b @ [d], eb_usage := u'\<rparr>)"

definition exceeds :: "nat \<Rightarrow> nat \<Rightarrow> event_bus \<Rightarrow> bool" where
  "exceeds c n b \<longleftrightarrow>
     charge c (held b) + n > byte_limit c \<or> number c (held b) \<ge> count_limit (eb_capacity b) c"

lemma u_bytes_held:
  "bus_inv L b \<Longrightarrow> c < 2 \<Longrightarrow> u_bytes (eb_usage b) ! c = charge c (held b)"
  "bus_inv L b \<Longrightarrow> c < 2 \<Longrightarrow> u_count (eb_usage b) ! c = number c (held b)"
  unfolding bus_inv_def accounts_def less_2_cases_iff by auto

lemma inv_limits: "bus_inv L b \<Longrightarrow> c < 2 \<Longrightarrow> charge c (held b) \<le> byte_limit c"
  "bus_inv L b \<Longrightarrow> c < 2 \<Longrightarrow> number c (held b) \<le> count_limit (eb_capacity b) c"
  by (auto simp: bus_inv_def less_2_cases_iff)

lemma queue_lengths:
  assumes "bus_inv L b"
  shows "length (eb_control b) \<le> number 0 (held b)" "length (eb_media b) \<le> number 1 (held b)"
  using assms number_queue [of 0 "eb_control b"] number_queue [of 1 "eb_media b"]
  by (auto simp: bus_inv_def held_def)

lemma try_send_locked_outcome:
  assumes inv: "bus_inv L b" and size: "event_size L ev = (c, n)"
  shows "try_send_locked L g ev b =
    (if \<not> eb_receiver b then (Inl (Disconnected ev), b)
     else if eb_current b \<noteq> g \<or> exceeds c n b then (Inl (Full ev), b)
     else (Inr (), enqueue \<lparr>d_event = Some ev, d_generation = g, d_class = c, d_bytes = n\<rparr> b))"
proof -
  have c: "c < 2" using size by (rule event_class)
  have closed: "u_closed (eb_usage b) = (\<not> eb_receiver b)"
    using inv by (simp add: bus_inv_def)
  have over: "(n > byte_limit c - u_bytes (eb_usage b) ! c \<or> u_count (eb_usage b) ! c \<ge> count_limit (eb_capacity b) c)
      = exceeds c n b"
    using u_bytes_held [OF inv c] inv_limits(1) [OF inv c] by (auto simp: exceeds_def)
  have room: "length (if c = 0 then eb_control b else eb_media b) < count_limit (eb_capacity b) c"
    if "\<not> exceeds c n b"
    using that queue_lengths [OF inv] c by (auto simp: exceeds_def less_2_cases_iff)
  show ?thesis
    using room unfolding try_send_locked_def size over [symmetric] Let_def closed
    by (auto simp: channel_try_send_def enqueue_def not_le split: prod.splits)
qed

lemma held_enqueue [simp]: "held (enqueue d b) = add_mset d (held b)"
  by (simp add: held_def enqueue_def Let_def)

lemma inv_enqueue:
  assumes inv: "bus_inv L b" and ok: "\<not> exceeds (d_class d) (d_bytes d) b" "sized L d" "d_class d < 2"
    and open_rx: "eb_receiver b"
  shows "bus_inv L (enqueue d b)"
proof -
  have acc: "accounts (eb_usage (enqueue d b)) (held (enqueue d b))"
    unfolding held_enqueue using accounts_take [of "eb_usage b" "held b" d] inv ok(3)
    by (auto simp: bus_inv_def enqueue_def Let_def)
  have frame: "eb_capacity (enqueue d b) = eb_capacity b" "eb_receiver (enqueue d b) = eb_receiver b"
    "u_closed (eb_usage (enqueue d b)) = u_closed (eb_usage b)"
    "eb_control (enqueue d b) = (if d_class d = 0 then eb_control b @ [d] else eb_control b)"
    "eb_media (enqueue d b) = (if d_class d = 0 then eb_media b else eb_media b @ [d])"
    by (simp_all add: enqueue_def Let_def permit_take_def)
  have limits: "\<forall>c\<in>{0, 1}. charge c (held (enqueue d b)) \<le> byte_limit c \<and>
      number c (held (enqueue d b)) \<le> count_limit (eb_capacity b) c"
    using inv_limits [OF inv] ok(1) by (auto simp: exceeds_def)
  from inv have cls: "list_all (\<lambda>d. d_class d = 0) (eb_control b)" "list_all (\<lambda>d. d_class d = 1) (eb_media b)"
    and sz: "\<forall>d\<in>#held b. sized L d" and cap: "1 \<le> eb_capacity b" "eb_capacity b \<le> 256"
    and cl: "u_closed (eb_usage b) \<longleftrightarrow> \<not> eb_receiver b"
    by (simp_all add: bus_inv_def)
  show ?thesis
    unfolding bus_inv_def frame
    using acc limits cls sz cap cl ok open_rx by (auto simp: less_2_cases_iff)
qed

lemma inv_try_send_locked: "bus_inv L b \<Longrightarrow> bus_inv L (snd (try_send_locked L g ev b))"
  using try_send_locked_outcome [of L b ev] event_class [of L ev]
  by (cases "event_size L ev") (auto simp: sized_def intro!: inv_enqueue)

lemma inv_try_send: "bus_inv L b \<Longrightarrow> bus_inv L (snd (try_send L g ev b))"
  by (simp add: try_send_def inv_try_send_locked)

text \<open>Removing one held delivery, with its permit, keeps the invariant.\<close>

lemma inv_release:
  assumes inv: "bus_inv L b" and held: "held b = add_mset d (held b')"
    and usage: "eb_usage b' = permit_drop d (eb_usage b)"
    and frame: "eb_capacity b' = eb_capacity b" "eb_receiver b' = eb_receiver b"
    and sub: "set (eb_control b') \<subseteq> set (eb_control b)" "set (eb_media b') \<subseteq> set (eb_media b)"
  shows "bus_inv L b'"
proof -
  have "accounts (eb_usage b') (held b')"
    unfolding usage using inv held by (intro accounts_drop) (simp add: bus_inv_def)
  moreover have "\<forall>c\<in>{0, 1}. charge c (held b') \<le> byte_limit c \<and> number c (held b') \<le> count_limit (eb_capacity b) c"
    using inv_limits [OF inv] by (auto simp: held) (metis add_leD2 le_Suc_eq less_2_cases_iff not_less_eq_eq)+
  moreover have "u_closed (eb_usage b') = u_closed (eb_usage b)"
    by (simp add: usage permit_drop_def)
  moreover have "\<forall>x\<in>#held b'. sized L x"
    using inv held by (auto simp: bus_inv_def)
  ultimately show ?thesis
    using inv sub unfolding bus_inv_def by (auto simp: frame list_all_iff)
qed

lemma inv_move:
  assumes inv: "bus_inv L b" and held: "held b' = held b" and usage: "eb_usage b' = eb_usage b"
    and frame: "eb_capacity b' = eb_capacity b" "eb_receiver b' = eb_receiver b"
    and sub: "set (eb_control b') \<subseteq> set (eb_control b)" "set (eb_media b') \<subseteq> set (eb_media b)"
  shows "bus_inv L b'"
  using inv sub unfolding bus_inv_def held usage frame by (auto simp: list_all_iff)

lemma inv_drop_head:
  assumes "bus_inv L b"
  shows "eb_control b = d # rest \<Longrightarrow> bus_inv L (drop_queued d (b\<lparr>eb_control := rest\<rparr>))"
    and "eb_media b = d # rest \<Longrightarrow> bus_inv L (drop_queued d (b\<lparr>eb_media := rest\<rparr>))"
  using assms by (auto intro!: inv_release [of L b d] simp: held_def drop_queued_def)

lemma inv_take_head:
  assumes "bus_inv L b"
  shows "eb_control b = d # rest \<Longrightarrow> bus_inv L (b\<lparr>eb_control := rest, eb_outstanding := d # eb_outstanding b\<rparr>)"
    and "eb_media b = d # rest \<Longrightarrow> bus_inv L (b\<lparr>eb_media := rest, eb_outstanding := d # eb_outstanding b\<rparr>)"
  using assms by (auto intro!: inv_move [of L b] simp: held_def)

lemma inv_try_delivery: "bus_inv L b \<Longrightarrow> bus_inv L (snd (try_delivery b))"
proof (induction b rule: try_delivery.induct)
  case (1 b)
  show ?case
  proof (cases "eb_control b")
    case Nil
    with 1 show ?thesis
      by (auto simp: try_delivery.simps [of b] Let_def inv_drop_head inv_take_head split: list.splits)
  next
    case (Cons d rest)
    with 1 show ?thesis
      by (auto simp: try_delivery.simps [of b] Let_def inv_drop_head inv_take_head)
  qed
qed

lemma inv_select: "bus_inv L b \<Longrightarrow> select_ready b = Some (Inr (d, b')) \<Longrightarrow> bus_inv L b'"
  using inv_take_head [of L b d] by (auto simp: select_ready_def split: list.splits if_splits)

lemma inv_drop_delivery: "bus_inv L b \<Longrightarrow> d \<in> set (eb_outstanding b) \<Longrightarrow> bus_inv L (drop_delivery d b)"
  by (auto intro!: inv_release [of L b d] simp: held_def drop_delivery_def)

text \<open>What a receive yields: the oldest current control event, else the oldest current media event.\<close>

definition live :: "event_bus \<Rightarrow> delivery list" where
  "live b = filter (is_current b) (eb_control b) @ filter (is_current b) (eb_media b)"

lemma is_current_frame [simp]:
  "is_current (b\<lparr>eb_control := q\<rparr>) = is_current b" "is_current (b\<lparr>eb_media := q\<rparr>) = is_current b"
  "is_current (b\<lparr>eb_usage := u\<rparr>) = is_current b" "is_current (b\<lparr>eb_outstanding := q\<rparr>) = is_current b"
  by (simp_all add: is_current_def fun_eq_iff)

lemma live_drop:
  "\<not> is_current (b\<lparr>eb_control := rest\<rparr>) d \<Longrightarrow> eb_control b = d # rest \<Longrightarrow>
     live (drop_queued d (b\<lparr>eb_control := rest\<rparr>)) = live b"
  "\<not> is_current (b\<lparr>eb_media := rest\<rparr>) d \<Longrightarrow> eb_media b = d # rest \<Longrightarrow>
     live (drop_queued d (b\<lparr>eb_media := rest\<rparr>)) = live b"
  by (auto simp: live_def drop_queued_def)

lemma drop_queued_frame:
  "eb_senders (drop_queued d b) = eb_senders b" "eb_outstanding (drop_queued d b) = eb_outstanding b"
  by (simp_all add: drop_queued_def)

definition receive_spec :: "event_bus \<Rightarrow> (recv_error + delivery) \<times> event_bus \<Rightarrow> bool" where
  "receive_spec b r \<longleftrightarrow>
     (case live b of
        [] \<Rightarrow> fst r = Inl (if eb_senders b then RecvEmpty else RecvDisconnected) \<and> live (snd r) = [] \<and>
              eb_outstanding (snd r) = eb_outstanding b
      | d # ds \<Rightarrow> fst r = Inr d \<and> live (snd r) = ds \<and> eb_outstanding (snd r) = d # eb_outstanding b)"

lemma receive_spec_transfer:
  "receive_spec b' r \<Longrightarrow> live b' = live b \<Longrightarrow> eb_senders b' = eb_senders b \<Longrightarrow>
     eb_outstanding b' = eb_outstanding b \<Longrightarrow> receive_spec b r"
  by (auto simp: receive_spec_def split: list.splits)

lemma try_delivery_receives: "receive_spec b (try_delivery b)"
proof (induction b rule: try_delivery.induct)
  case (1 b)
  consider (none) "eb_control b = []" "eb_media b = []"
    | (control) d rest where "eb_control b = d # rest"
    | (media) d rest where "eb_control b = []" "eb_media b = d # rest"
    by (cases "eb_control b"; cases "eb_media b") auto
  then show ?case
  proof cases
    case none
    then show ?thesis by (simp add: try_delivery.simps [of b] receive_spec_def live_def)
  next
    case control
    show ?thesis
    proof (cases "is_current (b\<lparr>eb_control := rest\<rparr>) d")
      case True
      with control show ?thesis
        by (simp add: try_delivery.simps [of b] receive_spec_def live_def)
    next
      case False
      let ?b = "drop_queued d (b\<lparr>eb_control := rest\<rparr>)"
      have "receive_spec ?b (try_delivery ?b)"
        using 1(2) [OF control] False by simp
      then have "receive_spec b (try_delivery ?b)"
        using False control by (elim receive_spec_transfer) (simp_all add: live_drop drop_queued_frame)
      then show ?thesis using control False by (simp add: try_delivery.simps [of b])
    qed
  next
    case media
    show ?thesis
    proof (cases "is_current (b\<lparr>eb_media := rest\<rparr>) d")
      case True
      with media show ?thesis
        by (simp add: try_delivery.simps [of b] receive_spec_def live_def)
    next
      case False
      let ?b = "drop_queued d (b\<lparr>eb_media := rest\<rparr>)"
      have "receive_spec ?b (try_delivery ?b)"
        using 1(1) [OF media] False by simp
      then have "receive_spec b (try_delivery ?b)"
        using False media by (elim receive_spec_transfer) (simp_all add: live_drop drop_queued_frame)
      then show ?thesis using media False by (simp add: try_delivery.simps [of b])
    qed
  qed
qed

lemma inv_try_recv: "bus_inv L b \<Longrightarrow> bus_inv L (snd (try_recv b))"
  using try_delivery_receives [of b] inv_try_delivery [of L b] inv_drop_delivery [of L "snd (try_delivery b)"]
  by (auto simp: try_recv_def receive_spec_def split: prod.splits sum.splits list.splits)

lemma fold_drop_queued:
  "fold drop_queued ds b = b\<lparr>eb_usage := fold permit_drop ds (eb_usage b)\<rparr>"
  by (induction ds arbitrary: b) (simp_all add: drop_queued_def)

lemma accounts_drop_all: "accounts u (mset ds + M) \<Longrightarrow> accounts (fold permit_drop ds u) M"
  by (induction ds arbitrary: u) (simp_all add: accounts_drop)

lemma closed_drop_all [simp]: "u_closed (fold permit_drop ds u) = u_closed u"
  by (induction ds arbitrary: u) (simp_all add: permit_drop_def)

lemma receiver_drop_fields:
  "eb_control (receiver_drop b) = []" "eb_media (receiver_drop b) = []"
  "eb_outstanding (receiver_drop b) = eb_outstanding b" "\<not> eb_receiver (receiver_drop b)"
  "eb_capacity (receiver_drop b) = eb_capacity b"
  "eb_usage (receiver_drop b) =
     fold permit_drop (eb_media b) (fold permit_drop (eb_control b) ((eb_usage b)\<lparr>u_closed := True\<rparr>))"
  by (simp_all add: receiver_drop_def Let_def fold_drop_queued)

lemma accounts_receiver_drop:
  assumes "bus_inv L b"
  shows "accounts (eb_usage (receiver_drop b)) (mset (eb_outstanding b))"
  unfolding receiver_drop_fields
proof (rule accounts_drop_all, rule accounts_drop_all)
  show "accounts ((eb_usage b)\<lparr>u_closed := True\<rparr>) (mset (eb_control b) + (mset (eb_media b) + mset (eb_outstanding b)))"
    using assms by (simp add: bus_inv_def accounts_def held_def add.assoc)
qed

lemma inv_receiver_drop: "bus_inv L b \<Longrightarrow> bus_inv L (receiver_drop b)"
  using accounts_receiver_drop [of L b] inv_limits [of L b 0] inv_limits [of L b 1]
  by (auto simp: bus_inv_def receiver_drop_fields held_def)

lemma inv_bus_step: "bus_step L b b' \<Longrightarrow> bus_inv L b \<Longrightarrow> bus_inv L b'"
proof (induction rule: bus_step.induct)
  case (new_generation b g)
  then show ?case by (auto simp: set_generation_def held_def intro!: inv_move [of L b])
next
  case (no_senders b)
  then show ?case by (auto simp: held_def intro!: inv_move [of L b])
qed (simp_all add: inv_try_send inv_try_send_locked inv_try_delivery inv_select inv_drop_delivery inv_try_recv
      inv_receiver_drop)

lemma bus_reachable_inv: "bus_reachable L b \<Longrightarrow> bus_inv L b"
proof (induction rule: bus_reachable.induct)
  case (start capacity b)
  then show ?case
    by (auto simp: event_channel_def bus_inv_def held_def accounts_def usage_default_def split: if_splits)
qed (rule inv_bus_step)

section \<open>Properties\<close>

text \<open>
  Property C32. In every interleaving of senders, the receiver, callback completion and session
  changes, the events alive at one time (queued, or owned by a callback) cost at most 2 MiB of
  control and 32 MiB of media by their own size, number at most the capacity and at most 4 media
  events, and the mutex-protected usage is exactly that cost.
\<close>

theorem event_bus_budgets:
  assumes "bus_reachable L b"
  shows "charge 0 (held b) \<le> 2 * 1024 * 1024 \<and> charge 1 (held b) \<le> 32 * 1024 * 1024 \<and>
    number 0 (held b) \<le> eb_capacity b \<and> number 1 (held b) \<le> min (eb_capacity b) 4 \<and>
    (\<forall>d\<in>#held b. sized L d) \<and> u_bytes (eb_usage b) = [charge 0 (held b), charge 1 (held b)] \<and>
    u_count (eb_usage b) = [number 0 (held b), number 1 (held b)]"
  using bus_reachable_inv [OF assms]
  by (auto simp: bus_inv_def accounts_def byte_limit_def count_limit_def policy_defs)

definition layout64 :: layout where
  "layout64 = \<lparr>str_capacity = length, vec_capacity = id, sizeof_value = 32, sizeof_event = 64\<rparr>"

definition bus0 :: event_bus where
  "bus0 = \<lparr>eb_control = [], eb_media = [], eb_current = 0, eb_usage = usage_default,
           eb_capacity = 1, eb_outstanding = [], eb_receiver = True, eb_senders = True\<rparr>"

definition bus1 :: event_bus where
  "bus1 = snd (try_send layout64 0 (VideoFrame [1, 2, 3] 1 1) bus0)"

lemma bus0_reachable: "bus_reachable L bus0"
  by (rule bus_reachable.start [of 1]) (simp add: event_channel_def bus0_def)

lemma bus1_reachable: "bus_reachable layout64 bus1"
  unfolding bus1_def by (rule bus_reachable.step [OF bus0_reachable]) (rule bus_step.send)

lemma bus1_value:
  "bus1 = \<lparr>eb_control = [],
     eb_media = [\<lparr>d_event = Some (VideoFrame [1, 2, 3] 1 1), d_generation = 0, d_class = 1, d_bytes = 67\<rparr>],
     eb_current = 0, eb_usage = \<lparr>u_closed = False, u_bytes = [0, 67], u_count = [0, 1]\<rparr>,
     eb_capacity = 1, eb_outstanding = [], eb_receiver = True, eb_senders = True\<rparr>"
  by (simp add: bus1_def bus0_def try_send_def try_send_locked_def layout64_def usage_default_def
      byte_limit_def count_limit_def channel_try_send_def permit_take_def policy_defs sat_add_def usize_max_def)

theorem event_bus_budgets_witness: "charge 1 (held bus1) = 67 \<and> 67 \<le> (32 * 1024 * 1024 :: nat)"
  using event_bus_budgets [OF bus1_reachable] by (simp add: bus1_value)

text \<open>
  A send is decided exactly by the state: it fails as disconnected when the receiver
  is gone, as full when the sender's generation is stale or the event does not fit the byte or
  count budget, and otherwise the event joins the end of its queue with its permit. A failed send
  returns the event and leaves the bus as it was; in particular the channel send itself cannot fail
  once the budget admits the event.
\<close>

theorem event_send_exact:
  assumes "bus_reachable L b" and "event_size L ev = (c, n)"
  shows "try_send L g ev b =
    (if eb_current b \<noteq> g then (Inl (Full ev), b)
     else if \<not> eb_receiver b then (Inl (Disconnected ev), b)
     else if exceeds c n b then (Inl (Full ev), b)
     else (Inr (), enqueue \<lparr>d_event = Some ev, d_generation = g, d_class = c, d_bytes = n\<rparr> b))"
  using try_send_locked_outcome [OF bus_reachable_inv [OF assms(1)] assms(2)]
  by (simp add: try_send_def)

theorem event_send_exact_witness:
  "try_send layout64 0 (VideoFrame [7] 1 1) bus1 = (Inl (Full (VideoFrame [7] 1 1)), bus1)"
  using event_send_exact [OF bus1_reachable, of "VideoFrame [7] 1 1" 1 65 0]
  by (simp add: layout64_def sat_add_def usize_max_def bus1_value exceeds_def held_def count_limit_def)

text \<open>
  A receive returns the oldest queued control event of the current generation, else
  the oldest current media event, else reports an empty or disconnected channel; events of another
  generation are discarded and never returned, the extraction never panics, and the envelope's
  permit is released.
\<close>

theorem event_receive_exact:
  assumes "bus_reachable L b"
  shows "case try_recv b of
      (Inl e, b') \<Rightarrow> live b = [] \<and> live b' = [] \<and> e = (if eb_senders b then RecvEmpty else RecvDisconnected) \<and>
        eb_outstanding b' = eb_outstanding b
    | (Inr ev, b') \<Rightarrow> ev \<noteq> None \<and> live b \<noteq> [] \<and> ev = d_event (hd (live b)) \<and>
        d_generation (hd (live b)) = eb_current b \<and> live b' = tl (live b) \<and> eb_outstanding b' = eb_outstanding b"
proof -
  have mem: "set (live b) \<subseteq> {d. d \<in># held b \<and> d_generation d = eb_current b}"
    by (auto simp: live_def held_def is_current_def)
  have some: "d_event d \<noteq> None" if "d \<in># held b" for d
    using that bus_reachable_inv [OF assms] by (auto simp: bus_inv_def sized_def split: option.splits)
  have drop: "live (drop_delivery d x) = live x" for d x
    by (simp add: live_def drop_delivery_def)
  have outs: "eb_outstanding (drop_delivery d x) = remove1 d (eb_outstanding x)" for d x
    by (simp add: drop_delivery_def)
  show ?thesis
    using try_delivery_receives [of b] mem some [of "hd (live b)"]
    by (cases "try_delivery b"; cases "live b")
      (auto simp: try_recv_def receive_spec_def drop outs split: sum.splits)
qed

theorem event_receive_exact_witness:
  "fst (try_recv bus1) = Inr (Some (VideoFrame [1, 2, 3] 1 1)) \<and> d_generation (hd (live bus1)) = 0"
  using event_receive_exact [OF bus1_reachable]
  by (auto simp: bus1_value live_def is_current_def split: prod.splits sum.splits)

text \<open>
  Dropping the receiver empties both queues and releases every queued permit: the
  usage that remains is that of the events still owned by callbacks, sends fail afterwards as
  disconnected, and when the callbacks have finished nothing is charged.
\<close>

theorem receiver_drop_releases:
  assumes "bus_reachable L b" and "eb_receiver b"
  shows "held (receiver_drop b) = mset (eb_outstanding b) \<and>
    accounts (eb_usage (receiver_drop b)) (mset (eb_outstanding b)) \<and>
    try_send L (eb_current (receiver_drop b)) ev (receiver_drop b) =
      (Inl (Disconnected ev), receiver_drop b) \<and>
    (let done_bus = fold drop_delivery (eb_outstanding b) (receiver_drop b)
     in held done_bus = {#} \<and> u_bytes (eb_usage done_bus) = [0, 0] \<and> u_count (eb_usage done_bus) = [0, 0])"
proof -
  let ?b = "receiver_drop b"
  have reach: "bus_reachable L ?b"
    using assms by (blast intro: bus_reachable.step bus_step.close)
  have held: "held ?b = mset (eb_outstanding b)"
    by (simp add: held_def receiver_drop_fields)
  have send: "try_send L (eb_current ?b) ev ?b = (Inl (Disconnected ev), ?b)"
    using try_send_locked_outcome [OF bus_reachable_inv [OF reach]]
    by (cases "event_size L ev") (simp add: try_send_def receiver_drop_fields)
  have drain: "accounts (eb_usage (fold drop_delivery ds x)) {#} \<and> held (fold drop_delivery ds x) = {#}"
    if "accounts (eb_usage x) (mset ds)" "eb_outstanding x = ds" "eb_control x = []" "eb_media x = []" for ds x
    using that
    by (induction ds arbitrary: x) (auto simp: drop_delivery_def held_def accounts_drop)
  show ?thesis
    using accounts_receiver_drop [OF bus_reachable_inv [OF assms(1)]]
      drain [of ?b "eb_outstanding b"] held send
    by (auto simp: receiver_drop_fields Let_def accounts_def)
qed

theorem receiver_drop_releases_witness:
  "u_bytes (eb_usage (receiver_drop bus1)) = [0, 0]"
  using receiver_drop_releases [OF bus1_reachable] by (simp add: bus1_value accounts_def)

end
