(* ===== verification/Diagnostics.thy ===== *)
theory Diagnostics
  imports Transport_Prelude
begin

text \<open>
  \<open>src/src/diagnostics.rs\<close>: \<open>RepeatLog\<close>, the owner-local aggregation of repeated failures. A log
  reports its first event at once, then at most once per window, and every report carries the number
  of events no earlier report stood for. The mutex-protected \<open>RepeatState\<close> is the state; an emitted
  log line is the returned report (count, suppressed count). Formatting the line is not modelled.
\<close>

definition WINDOW :: nat where
  [policy_defs]: "WINDOW = secs 5"

record repeat_state =
  last_report :: "instant option"
  rs_pending :: u64

record repeat_log =
  rl_event :: string
  rl_reason :: string
  rl_state :: repeat_state

type_synonym report = "u64 \<times> u64"

definition repeat_state_default :: repeat_state where
  "repeat_state_default = \<lparr>last_report = None, rs_pending = 0\<rparr>"

definition repeat_log_new :: "string \<Rightarrow> string \<Rightarrow> repeat_log" where
  "repeat_log_new ev reason = \<lparr>rl_event = ev, rl_reason = reason, rl_state = repeat_state_default\<rparr>"

definition record_at :: "instant \<Rightarrow> repeat_state \<Rightarrow> report option \<times> repeat_state" where
  "record_at now s =
     (case last_report s of
        None \<Rightarrow> (Some (1, 0), s\<lparr>last_report := Some now\<rparr>)
      | Some prev \<Rightarrow>
          let p = sat_inc_u64 (rs_pending s) in
          if now - prev < WINDOW then (None, s\<lparr>rs_pending := p\<rparr>)
          else (Some (p, p), s\<lparr>last_report := Some now, rs_pending := 0\<rparr>))"

definition take_pending :: "repeat_state \<Rightarrow> report option \<times> repeat_state" where
  "take_pending s =
     (let count = rs_pending s
      in (if count \<noteq> 0 then Some (count, count) else None, s\<lparr>rs_pending := 0\<rparr>))"

definition repeat_reset :: "repeat_state \<Rightarrow> report option \<times> repeat_state" where
  "repeat_reset s =
     (let count = rs_pending s
      in (if count \<noteq> 0 then Some (count, count) else None, repeat_state_default))"

text \<open>The operations on a whole log, as its owners call them: \<open>record\<close> with the current instant,
  \<open>flush\<close> (also run by \<open>Drop\<close>) and \<open>reset\<close>.\<close>

definition rl_record :: "instant \<Rightarrow> repeat_log \<Rightarrow> report option \<times> repeat_log" where
  "rl_record now l = (let (r, s) = record_at now (rl_state l) in (r, l\<lparr>rl_state := s\<rparr>))"

definition rl_flush :: "repeat_log \<Rightarrow> report option \<times> repeat_log" where
  "rl_flush l = (let (r, s) = take_pending (rl_state l) in (r, l\<lparr>rl_state := s\<rparr>))"

definition rl_reset :: "repeat_log \<Rightarrow> report option \<times> repeat_log" where
  "rl_reset l = (let (r, s) = repeat_reset (rl_state l) in (r, l\<lparr>rl_state := s\<rparr>))"

datatype repeat_op = Record instant | Flush | Reset

fun repeat_step :: "repeat_op \<Rightarrow> repeat_state \<Rightarrow> report option \<times> repeat_state" where
  "repeat_step (Record now) s = record_at now s"
| "repeat_step Flush s = take_pending s"
| "repeat_step Reset s = repeat_reset s"

fun repeat_run :: "repeat_op list \<Rightarrow> repeat_state \<Rightarrow> report list \<times> repeat_state" where
  "repeat_run [] s = ([], s)"
| "repeat_run (op # ops) s =
     (let (r, s1) = repeat_step op s; (rs, s2) = repeat_run ops s1
      in ((case r of None \<Rightarrow> rs | Some x \<Rightarrow> x # rs), s2))"

fun record_count :: "repeat_op list \<Rightarrow> nat" where
  "record_count [] = 0"
| "record_count (Record _ # ops) = Suc (record_count ops)"
| "record_count (_ # ops) = record_count ops"

definition reported :: "report option \<Rightarrow> nat" where
  "reported r = (case r of None \<Rightarrow> 0 | Some (c, _) \<Rightarrow> unat c)"

definition reported_total :: "report list \<Rightarrow> nat" where
  "reported_total rs = sum_list (map (unat \<circ> fst) rs)"

lemma reported_total_Cons [simp]:
  "reported_total (x # rs) = unat (fst x) + reported_total rs"
  by (simp add: reported_total_def)

lemma reported_total_Nil [simp]: "reported_total [] = 0"
  by (simp add: reported_total_def)

lemma repeat_step_account:
  assumes "repeat_step op s = (r, s')" and "unat (rs_pending s) + record_count [op] < 2 ^ 64"
  shows "reported r + unat (rs_pending s') = unat (rs_pending s) + record_count [op]"
  using assms
  by (cases op)
    (auto simp: record_at_def take_pending_def repeat_reset_def reported_def Let_def
      unat_sat_inc_u64 repeat_state_default_def split: option.splits if_splits)

lemma record_count_Cons: "record_count (op # ops) = record_count [op] + record_count ops"
  by (cases op) simp_all

lemma repeat_run_account:
  assumes "repeat_run ops s = (rs, s')" and "unat (rs_pending s) + record_count ops < 2 ^ 64"
  shows "reported_total rs + unat (rs_pending s') = unat (rs_pending s) + record_count ops"
  using assms
proof (induction ops arbitrary: s rs)
  case Nil
  then show ?case by simp
next
  case (Cons op ops)
  obtain r s1 where step: "repeat_step op s = (r, s1)" by (cases "repeat_step op s")
  obtain rs1 where run: "repeat_run ops s1 = (rs1, s')" and rs: "rs = (case r of None \<Rightarrow> rs1 | Some x \<Rightarrow> x # rs1)"
    using Cons.prems(1) step by (auto split: prod.splits)
  have head: "reported r + unat (rs_pending s1) = unat (rs_pending s) + record_count [op]"
    using step Cons.prems(2) by (intro repeat_step_account) (simp_all add: record_count_Cons [of op ops])
  have "reported_total rs1 + unat (rs_pending s') = unat (rs_pending s1) + record_count ops"
    using head Cons.prems(2) by (intro Cons.IH run) (simp add: record_count_Cons [of op ops])
  moreover have "reported_total rs = reported r + reported_total rs1"
    by (simp add: rs reported_def split: option.splits)
  ultimately show ?case using head by (simp add: record_count_Cons [of op ops])
qed

lemma fst_repeat_run_Cons:
  "fst (repeat_run (op # ops) s) =
     (let tl = fst (repeat_run ops (snd (repeat_step op s)))
      in case fst (repeat_step op s) of None \<Rightarrow> tl | Some x \<Rightarrow> x # tl)"
  by (simp add: case_prod_beta Let_def)

lemma record_run_rate:
  assumes "last_report s = Some l" and "sorted (l # ts)"
  shows "length (fst (repeat_run (map Record ts) s)) \<le> (last (l # ts) - l) div WINDOW"
  using assms
proof (induction ts arbitrary: s l)
  case Nil
  then show ?case by simp
next
  case (Cons t ts)
  have srt: "sorted (t # ts)" and lt: "l \<le> t" using Cons.prems(2) by auto
  have t_last: "t \<le> last (t # ts)"
    using srt by (cases ts rule: rev_cases) auto
  have W: "0 < WINDOW" by (simp add: WINDOW_def secs_def)
  show ?case
  proof (cases "t - l < WINDOW")
    case True
    have "length (fst (repeat_run (map Record ts) (s\<lparr>rs_pending := sat_inc_u64 (rs_pending s)\<rparr>)))
        \<le> (last (l # ts) - l) div WINDOW"
      using Cons.prems by (intro Cons.IH) auto
    also have "\<dots> \<le> (last (t # ts) - l) div WINDOW"
      using lt by (intro div_le_mono) (cases ts, auto)
    finally show ?thesis
      using True Cons.prems(1) by (simp add: fst_repeat_run_Cons record_at_def Let_def del: repeat_run.simps)
  next
    case False
    have "length (fst (repeat_run (map Record ts) (s\<lparr>last_report := Some t, rs_pending := 0\<rparr>)))
        \<le> (last (t # ts) - t) div WINDOW"
      using srt by (intro Cons.IH) auto
    moreover have "Suc ((last (t # ts) - t) div WINDOW) \<le> (last (t # ts) - l) div WINDOW"
    proof -
      have "(last (t # ts) - t) + WINDOW \<le> last (t # ts) - l" using False lt t_last by simp
      then have "((last (t # ts) - t) + WINDOW) div WINDOW \<le> (last (t # ts) - l) div WINDOW"
        by (rule div_le_mono)
      moreover have "((last (t # ts) - t) + WINDOW) div WINDOW = Suc ((last (t # ts) - t) div WINDOW)"
        using W by (subst div_add_self2) simp_all
      ultimately show ?thesis by (simp only:)
    qed
    ultimately show ?thesis
      using False Cons.prems(1)
      by (simp add: fst_repeat_run_Cons record_at_def Let_def last_ConsR del: repeat_run.simps last.simps)
  qed
qed

section \<open>Properties\<close>

text \<open>
  No event is lost or counted twice: over any sequence of records, flushes and resets of
  a fresh log (fewer than 2 to the 64 records), the counts of the emitted reports plus the count still
  pending equal the number of recorded events.
\<close>

theorem repeat_log_accounts_for_every_event:
  assumes "repeat_run ops repeat_state_default = (rs, s')" and "record_count ops < 2 ^ 64"
  shows "reported_total rs + unat (rs_pending s') = record_count ops"
  using repeat_run_account [OF assms(1)] assms(2) by (simp add: repeat_state_default_def)

theorem repeat_log_accounts_for_every_event_witness:
  "reported_total [(1, 0), (2, 2), (1, 1)] + unat (rs_pending \<lparr>last_report = Some (secs 5), rs_pending = 0\<rparr>)
     = record_count [Record 0, Record 1, Record (secs 5), Record (secs 6), Flush]"
  by (rule repeat_log_accounts_for_every_event)
    (simp_all add: record_at_def take_pending_def repeat_state_default_def WINDOW_def secs_def
      sat_inc_u64_def)

text \<open>
  A burst cannot flood the log: records at non-decreasing instants produce the first
  report and then at most one more per full window of elapsed time.
\<close>

theorem repeat_log_rate_bound:
  assumes "sorted (t # ts)"
  shows "length (fst (repeat_run (map Record (t # ts)) repeat_state_default))
     \<le> 1 + (last (t # ts) - t) div WINDOW"
  using record_run_rate [of "repeat_state_default\<lparr>last_report := Some t\<rparr>" t ts] assms
  by (cases "repeat_run (map Record ts) (repeat_state_default\<lparr>last_report := Some t\<rparr>)")
    (simp add: record_at_def repeat_state_default_def)

theorem repeat_log_rate_bound_witness:
  "length (fst (repeat_run (map Record [0, 1, secs 5, secs 5 + 1]) repeat_state_default)) \<le> 2"
  using repeat_log_rate_bound [of 0 "[1, secs 5, secs 5 + 1]"]
  by (simp add: secs_def WINDOW_def)

end
