(* ===== verification/Lidar_Pool.thy ===== *)
theory Lidar_Pool
  imports Lidar Events Diagnostics
begin

text \<open>
  \<open>src/src/datachannel/lidar/service.rs\<close>: the metadata of a voxel map, the bounded request queue of
  the worker pool and the body of a worker's loop. Thread creation is a parameter (which of the
  spawns succeed); the LZ4 decompressor is a parameter. A worker first loads the current generation
  and later decodes and sends, so the two reads are separate arguments of the step.
\<close>

record lidar_metadata =
  lm_origin :: origin
  lm_resolution :: fval
  lm_src_size :: nat

record lidar_request =
  lr_generation :: u64
  lr_topic :: string
  lr_payload :: json
  lr_compressed :: bytes
  lr_metadata :: lidar_metadata

record lidar_pool =
  lp_queue :: "lidar_request list"
  lp_workers :: nat

record lidar_worker =
  lw_generation :: "u64 option"
  lw_dropped :: repeat_log
  lw_disconnected :: repeat_log
  lw_failed :: repeat_log

definition metadata_from_json :: "json \<Rightarrow> lidar_metadata option" where
  "metadata_from_json d =
     (case as_object d of None \<Rightarrow> None | Some data_obj \<Rightarrow>
     (case map_of data_obj ''origin'' of None \<Rightarrow> None | Some o_val \<Rightarrow>
     (case as_array o_val of None \<Rightarrow> None | Some origin_array \<Rightarrow>
      if length origin_array \<noteq> 3 then None
      else
     (case (as_f64 (origin_array ! 0), as_f64 (origin_array ! 1), as_f64 (origin_array ! 2)) of
        (Some x, Some y, Some z) \<Rightarrow>
          (case jget ''resolution'' d of None \<Rightarrow> None | Some r_val \<Rightarrow>
          (case as_f64 r_val of None \<Rightarrow> None | Some resolution \<Rightarrow>
          (case jget ''src_size'' d of None \<Rightarrow> None | Some s_val \<Rightarrow>
          (case as_u64 s_val of None \<Rightarrow> None | Some src_size \<Rightarrow>
             if src_size > usize_max then None
             else (case validate_geometry src_size (x, y, z) resolution of
                     Inl _ \<Rightarrow> None
                   | Inr _ \<Rightarrow> Some \<lparr>lm_origin = (x, y, z), lm_resolution = resolution, lm_src_size = src_size\<rparr>)))))
      | _ \<Rightarrow> None))))"

text \<open>Start-up: the first spawn that fails stops the loop, joins the idle workers and reports it.\<close>

fun spawn_workers :: "(nat \<Rightarrow> bool) \<Rightarrow> nat \<Rightarrow> nat \<Rightarrow> string + nat" where
  "spawn_workers spawn worker_id 0 = Inr worker_id"
| "spawn_workers spawn worker_id (Suc n) =
     (if spawn worker_id then spawn_workers spawn (Suc worker_id) n else Inl ''Failed to start LiDAR worker'')"

definition lidar_pool_try_new :: "(nat \<Rightarrow> bool) \<Rightarrow> nat \<Rightarrow> string + lidar_pool" where
  "lidar_pool_try_new spawn worker_count =
     (if \<not> (1 \<le> worker_count \<and> worker_count \<le> 32) then Inl ''lidar_workers must be between 1 and 32''
      else and_then (spawn_workers spawn 0 worker_count) (\<lambda>workers. Inr \<lparr>lp_queue = [], lp_workers = workers\<rparr>))"

definition submit :: "lidar_request \<Rightarrow> lidar_pool \<Rightarrow> (string + unit) \<times> lidar_pool" where
  "submit request pool =
     (let md = lr_metadata request in
      case validate_geometry (lm_src_size md) (lm_origin md) (lm_resolution md) of
        Inl e \<Rightarrow> (Inl e, pool)
      | Inr _ \<Rightarrow>
          if length (lr_compressed request) > MAX_COMPRESSED_BYTES
          then (Inl ''LiDAR compressed size exceeds resource budget'', pool)
          else (case channel_try_send 4 (lp_workers pool > 0) (lp_queue pool) request of
                  (None, q) \<Rightarrow> (Inr (), pool\<lparr>lp_queue := q\<rparr>)
                | (Some full, q) \<Rightarrow>
                    (Inl (if full then ''LiDAR worker queue full'' else ''LiDAR workers disconnected''), pool)))"

definition decode_lidar :: "lz4 \<Rightarrow> lidar_request \<Rightarrow> string + fval list" where
  "decode_lidar decompress req =
     (let md = lr_metadata req in
      and_then (validate_geometry (lm_src_size md) (lm_origin md) (lm_resolution md)) (\<lambda>_.
      and_then (decompress_lz4 decompress (lr_compressed req) (lm_src_size md)) (\<lambda>decompressed.
      if length decompressed \<noteq> lm_src_size md
      then Inl (''Decompressed size '' @ show_nat (length decompressed) @ '' != expected '' @ show_nat (lm_src_size md))
      else bits_to_points_optimized decompressed (lm_origin md) (lm_resolution md))))"

definition worker_new :: lidar_worker where
  "worker_new =
     \<lparr>lw_generation = None,
      lw_dropped = repeat_log_new ''lidar_callback_drop'' ''stale_or_backpressure'',
      lw_disconnected = repeat_log_new ''lidar_callback_drop'' ''dispatcher_disconnected'',
      lw_failed = repeat_log_new ''lidar_decode_failed'' ''invalid_lidar_data''\<rparr>"

text \<open>One iteration of the worker's loop; \<open>loaded\<close> is the generation it read before decoding.\<close>

definition worker_generation :: "u64 \<Rightarrow> lidar_worker \<Rightarrow> lidar_worker" where
  "worker_generation g w =
     (if lw_generation w \<noteq> Some g
      then w\<lparr>lw_generation := Some g, lw_dropped := snd (rl_reset (lw_dropped w)),
             lw_disconnected := snd (rl_reset (lw_disconnected w)), lw_failed := snd (rl_reset (lw_failed w))\<rparr>
      else w)"

definition worker_iteration ::
  "layout \<Rightarrow> lz4 \<Rightarrow> instant \<Rightarrow> u64 \<Rightarrow> lidar_request \<Rightarrow> lidar_worker \<Rightarrow> event_bus \<Rightarrow> lidar_worker \<times> event_bus" where
  "worker_iteration L decompress now loaded req w b =
     (let w1 = worker_generation (lr_generation req) w in
      if loaded \<noteq> lr_generation req then (w1\<lparr>lw_dropped := snd (rl_record now (lw_dropped w1))\<rparr>, b)
      else case decode_lidar decompress req of
        Inr points \<Rightarrow>
          (case try_send L (lr_generation req) (LidarCallback (lr_topic req) (lr_payload req) points) b of
             (Inr _, b') \<Rightarrow> (w1, b')
           | (Inl (Full _), b') \<Rightarrow> (w1\<lparr>lw_dropped := snd (rl_record now (lw_dropped w1))\<rparr>, b')
           | (Inl (Disconnected _), b') \<Rightarrow> (w1\<lparr>lw_disconnected := snd (rl_record now (lw_disconnected w1))\<rparr>, b'))
      | Inl _ \<Rightarrow> (w1\<lparr>lw_failed := snd (rl_record now (lw_failed w1))\<rparr>, b))"

definition pool_recv :: "lidar_pool \<Rightarrow> lidar_request option \<times> lidar_pool" where
  "pool_recv pool =
     (case lp_queue pool of [] \<Rightarrow> (None, pool) | req # q \<Rightarrow> (Some req, pool\<lparr>lp_queue := q\<rparr>))"

definition worker_count_for :: "nat option \<Rightarrow> nat" where
  "worker_count_for available_parallelism =
     (case available_parallelism of None \<Rightarrow> 2 | Some n \<Rightarrow> max 2 (min n 4))"

definition create_worker_pool :: "(nat \<Rightarrow> bool) \<Rightarrow> nat option \<Rightarrow> string + lidar_pool" where
  "create_worker_pool spawn available_parallelism = lidar_pool_try_new spawn (worker_count_for available_parallelism)"

section \<open>Invariant of the queue\<close>

definition request_ok :: "lidar_request \<Rightarrow> bool" where
  "request_ok r \<longleftrightarrow>
     validate_geometry (lm_src_size (lr_metadata r)) (lm_origin (lr_metadata r)) (lm_resolution (lr_metadata r)) = Inr () \<and>
     length (lr_compressed r) \<le> MAX_COMPRESSED_BYTES"

definition pool_inv :: "lidar_pool \<Rightarrow> bool" where
  "pool_inv p \<longleftrightarrow> length (lp_queue p) \<le> 4 \<and> list_all request_ok (lp_queue p) \<and> 1 \<le> lp_workers p \<and> lp_workers p \<le> 32"

datatype pool_op = Submit lidar_request | Recv

fun pool_step :: "pool_op \<Rightarrow> lidar_pool \<Rightarrow> lidar_pool" where
  "pool_step (Submit r) p = snd (submit r p)"
| "pool_step Recv p = snd (pool_recv p)"

lemma spawn_workers_count: "spawn_workers spawn i n = Inr k \<Longrightarrow> k = i + n"
  by (induction n arbitrary: i) (fastforce split: if_splits)+

lemma pool_new_inv: "lidar_pool_try_new spawn n = Inr p \<Longrightarrow> pool_inv p"
  by (auto simp: lidar_pool_try_new_def pool_inv_def and_then_Inr_iff dest: spawn_workers_count split: if_splits)

lemma submit_outcome:
  assumes "pool_inv p"
  shows "submit r p =
    (if request_ok r \<and> length (lp_queue p) < 4 then (Inr (), p\<lparr>lp_queue := lp_queue p @ [r]\<rparr>)
     else (fst (submit r p), p)) \<and> (fst (submit r p) = Inr () \<longleftrightarrow> request_ok r \<and> length (lp_queue p) < 4)"
  using assms by (auto simp: submit_def request_ok_def pool_inv_def channel_try_send_def Let_def split: sum.splits)

lemma pool_step_inv: "pool_inv p \<Longrightarrow> pool_inv (pool_step op p)"
proof (cases op)
  case (Submit r)
  assume inv: "pool_inv p"
  have "snd (submit r p) = p \<or> request_ok r \<and> length (lp_queue p) < 4 \<and> snd (submit r p) = p\<lparr>lp_queue := lp_queue p @ [r]\<rparr>"
    using submit_outcome [OF inv, of r] by (metis snd_conv)
  with inv Submit show ?thesis by (auto simp: pool_inv_def)
next
  case Recv
  assume "pool_inv p"
  with Recv show ?thesis by (auto simp: pool_inv_def pool_recv_def split: list.splits)
qed

lemma pool_run_inv: "pool_inv p \<Longrightarrow> pool_inv (fold pool_step ops p)"
  by (induction ops arbitrary: p) (simp_all add: pool_step_inv)
section \<open>Properties\<close>

text \<open>
  The request queue of the pool is bounded in number and in bytes: after any sequence
  of submissions and receptions it holds at most four requests, each with a valid geometry and at
  most \<open>MAX_COMPRESSED_BYTES\<close> of data; and a submission succeeds exactly when the request is valid
  and there is room, at the end of the queue, and changes nothing otherwise.
\<close>

theorem lidar_queue_bounded:
  assumes "lidar_pool_try_new spawn n = Inr p0" and "p = fold pool_step ops p0"
  shows "length (lp_queue p) \<le> 4 \<and> (\<forall>r\<in>set (lp_queue p). request_ok r) \<and>
    (if request_ok r \<and> length (lp_queue p) < 4 then submit r p = (Inr (), p\<lparr>lp_queue := lp_queue p @ [r]\<rparr>)
     else \<exists>e. submit r p = (Inl e, p))"
proof -
  have inv: "pool_inv p" unfolding assms(2) by (rule pool_run_inv [OF pool_new_inv [OF assms(1)]])
  show ?thesis
    using inv submit_outcome [OF inv, of r]
    by (cases "fst (submit r p)") (auto simp: pool_inv_def list_all_iff split: if_splits)
qed

definition request0 :: lidar_request where
  "request0 =
     \<lparr>lr_generation = 1, lr_topic = ''rt/utlidar/voxel_map_compressed'', lr_payload = JNull, lr_compressed = [0],
      lr_metadata = \<lparr>lm_origin = (Finite False 0 0, Finite True 3 (- 1), Finite False 0 0),
                     lm_resolution = Finite False 1 (- 4), lm_src_size = 2048\<rparr>\<rparr>"

lemma request0_ok: "request_ok request0"
  by (simp add: request_ok_def request0_def validate_geometry_def axis_overflows_def policy_defs float_eval Let_def)

theorem lidar_queue_bounded_witness:
  "let p = fold pool_step [Submit request0, Submit request0] \<lparr>lp_queue = [], lp_workers = 2\<rparr>
   in length (lp_queue p) \<le> 4 \<and> submit request0 p = (Inr (), p\<lparr>lp_queue := lp_queue p @ [request0]\<rparr>) \<and>
      length (lp_queue p) = 2"
proof -
  let ?p0 = "\<lparr>lp_queue = [], lp_workers = 2\<rparr>"
  have new: "lidar_pool_try_new (\<lambda>_. True) 2 = Inr ?p0"
    by (simp add: lidar_pool_try_new_def numeral_2_eq_2)
  have run: "fold pool_step [Submit request0, Submit request0] ?p0 = \<lparr>lp_queue = [request0, request0], lp_workers = 2\<rparr>"
    using request0_ok by (simp add: submit_def request_ok_def channel_try_send_def Let_def split: sum.splits)
  show ?thesis
    using lidar_queue_bounded [OF new refl, of "[Submit request0, Submit request0]" request0] request0_ok
    unfolding run by simp
qed

text \<open>
  A worker delivers an event only for the generation of its request, and only the
  points of the request's own bitmap: the bus changes exactly when the loaded generation is the
  request's, the data decompresses to the announced size and the bitmap decodes, and then by one
  send of the decoded points; a stale or broken request leaves the bus alone.
\<close>

theorem lidar_worker_delivers:
  "snd (worker_iteration L decompress now loaded req w b) =
     (let md = lr_metadata req in
      if loaded = lr_generation req \<and> request_ok req
      then case decompress (lr_compressed req) (lm_src_size md) of
             Inr bitmap \<Rightarrow>
               if length bitmap = lm_src_size md
               then (case bits_to_points_optimized bitmap (lm_origin md) (lm_resolution md) of
                       Inr points \<Rightarrow>
                         snd (try_send L (lr_generation req) (LidarCallback (lr_topic req) (lr_payload req) points) b)
                     | Inl _ \<Rightarrow> b)
               else b
           | Inl _ \<Rightarrow> b
      else b)"
proof -
  let ?md = "lr_metadata req"
  have big: "lm_src_size ?md > MAX_BITMAP_BYTES \<Longrightarrow>
      validate_geometry (lm_src_size ?md) (lm_origin ?md) (lm_resolution ?md) = Inl ''Invalid LiDAR size or resolution''"
    by (simp add: validate_geometry_def)
  have decode: "decode_lidar decompress req = Inr points \<longleftrightarrow>
      request_ok req \<and> (\<exists>bitmap. decompress (lr_compressed req) (lm_src_size ?md) = Inr bitmap \<and>
        length bitmap = lm_src_size ?md \<and>
        bits_to_points_optimized bitmap (lm_origin ?md) (lm_resolution ?md) = Inr points)" for points
    using big
    by (cases "validate_geometry (lm_src_size ?md) (lm_origin ?md) (lm_resolution ?md)")
      (auto simp: decode_lidar_def Let_def request_ok_def decompress_lz4_def and_then_Inr_iff split: if_splits)
  show ?thesis
  proof (cases "decode_lidar decompress req")
    case (Inl e)
    then have "\<not> (\<exists>points. decode_lidar decompress req = Inr points)" by simp
    then show ?thesis using Inl unfolding decode
      by (auto simp: worker_iteration_def Let_def split: sum.splits)
  next
    case (Inr points)
    from decode [of points, THEN iffD1, OF Inr] Inr show ?thesis
      by (auto simp: worker_iteration_def Let_def split: prod.splits sum.splits send_error.splits)
  qed
qed

end
