(* ===== verification/Security.thy ===== *)
theory Security
  imports Utf8_Text
begin

unbundle bit_operations_syntax

text \<open>
  \<open>src/src/infrastructure/security.rs\<close>: key derivation, AES-256 in ECB mode with PKCS#7 padding,
  AES-128-GCM envelopes, RSA in blocks, key validation. The ciphers, the digest and the text codecs
  are third-party crates: they are the fields of the \<open>crypto\<close> record, an argument of every
  definition that uses them, with the laws a theorem needs as named hypotheses. \<open>'k\<close> is the public
  key type; the RSA block operation is randomised, so it takes the number of the call.
\<close>

record 'k crypto =
  md5_digest :: "bytes \<Rightarrow> bytes"
  hex_encode :: "bytes \<Rightarrow> string"
  hex_decode :: "string \<Rightarrow> string + bytes"
  b64_encode :: "bytes \<Rightarrow> string"
  b64_decode :: "string \<Rightarrow> string + bytes"
  aes256_new :: "bytes \<Rightarrow> string + unit"
  aes256_encrypt_block :: "bytes \<Rightarrow> bytes \<Rightarrow> bytes"
  aes256_decrypt_block :: "bytes \<Rightarrow> bytes \<Rightarrow> bytes"
  aes128_gcm_new :: "bytes \<Rightarrow> string + unit"
  aes128_gcm_open :: "bytes \<Rightarrow> bytes \<Rightarrow> bytes \<Rightarrow> string + bytes"
  utf8_error :: "bytes \<Rightarrow> string"
  spki_der :: "bytes \<Rightarrow> string + 'k"
  pkcs1_der :: "bytes \<Rightarrow> string + 'k"
  rsa_size :: "'k \<Rightarrow> nat"
  rsa_encrypt_block :: "'k \<Rightarrow> nat \<Rightarrow> bytes \<Rightarrow> string + bytes"

definition AES_BLOCK_SIZE :: nat where [policy_defs]: "AES_BLOCK_SIZE = 16"

definition CON_NOTIFY_KEY :: bytes where
  "CON_NOTIFY_KEY = [232, 86, 130, 189, 22, 84, 155, 0, 142, 4, 166, 104, 43, 179, 235, 227]"

definition md5_hex :: "'k crypto \<Rightarrow> string \<Rightarrow> string" where
  "md5_hex C input = hex_encode C (md5_digest C (str_bytes input))"

definition hex_to_base64 :: "'k crypto \<Rightarrow> string \<Rightarrow> string + string" where
  "hex_to_base64 C hex_str = and_then (hex_decode C hex_str) (\<lambda>bs. Inr (b64_encode C bs))"

definition encrypt_key :: "'k crypto \<Rightarrow> string \<Rightarrow> string + string" where
  "encrypt_key C key = hex_to_base64 C (md5_hex C (''UnitreeGo2_'' @ key))"

definition pkcs7_pad :: "bytes \<Rightarrow> bytes" where
  "pkcs7_pad d =
     (let padding = AES_BLOCK_SIZE - (length d mod AES_BLOCK_SIZE) in d @ replicate padding (of_nat padding))"

definition pkcs7_unpad :: "bytes \<Rightarrow> string + bytes" where
  "pkcs7_unpad d =
     (if d = [] then Inl ''Encrypted payload is empty''
      else let padding = unat (last d) in
      if padding = 0 \<or> padding > AES_BLOCK_SIZE \<or> padding > length d then Inl ''Invalid PKCS7 padding length''
      else if list_ex (\<lambda>b. unat b \<noteq> padding) (drop (length d - padding) d)
      then Inl ''Invalid PKCS7 padding bytes''
      else Inr (take (length d - padding) d))"

definition validate_aes256_key :: "string \<Rightarrow> string + bytes" where
  "validate_aes256_key key =
     (if length (str_bytes key) \<noteq> 32
      then Inl (''AES-256 key must be 32 bytes, got '' @ show_nat (length (str_bytes key)))
      else Inr (str_bytes key))"

definition validate_aes128_hex_key :: "'k crypto \<Rightarrow> string \<Rightarrow> string + bytes" where
  "validate_aes128_hex_key C key =
     (let trimmed = trim key in
      if length trimmed \<noteq> 32 then Inl (''AES-128 key must be 32 hex characters, got '' @ show_nat (length trimmed))
      else and_then (map_err (\<lambda>e. ''AES-128 key must be valid hex: '' @ e) (hex_decode C trimmed))
        (\<lambda>decoded. if length decoded = 16 then Inr decoded
                   else Inl (''AES-128 key must decode to 16 bytes, got '' @ show_nat (length decoded))))"

text \<open>\<open>chunks_exact_mut\<close> with the block operation applied to every whole block.\<close>

definition map_blocks :: "(bytes \<Rightarrow> bytes) \<Rightarrow> bytes \<Rightarrow> bytes" where
  "map_blocks f d =
     concat (map (\<lambda>c. if length c = AES_BLOCK_SIZE then f c else c) (chunks AES_BLOCK_SIZE d))"

definition aes_ecb_encrypt :: "'k crypto \<Rightarrow> string \<Rightarrow> string \<Rightarrow> string + string" where
  "aes_ecb_encrypt C plain_text key =
     and_then (validate_aes256_key key) (\<lambda>key_bytes.
     and_then (aes256_new C key_bytes) (\<lambda>_.
     Inr (b64_encode C (map_blocks (aes256_encrypt_block C key_bytes) (pkcs7_pad (str_bytes plain_text))))))"

definition aes_ecb_decrypt :: "'k crypto \<Rightarrow> string \<Rightarrow> string \<Rightarrow> string + string" where
  "aes_ecb_decrypt C encoded_cipher_text key =
     and_then (validate_aes256_key key) (\<lambda>key_bytes.
     and_then (aes256_new C key_bytes) (\<lambda>_.
     and_then (b64_decode C encoded_cipher_text) (\<lambda>encrypted_bytes.
     if length encrypted_bytes mod AES_BLOCK_SIZE \<noteq> 0
     then Inl ''AES ECB payload length must be multiple of 16''
     else and_then (pkcs7_unpad (map_blocks (aes256_decrypt_block C key_bytes) encrypted_bytes)) (\<lambda>plain_bytes.
          from_utf8 (utf8_error C) plain_bytes))))"

definition aes_gcm_decrypt_with_key :: "'k crypto \<Rightarrow> string \<Rightarrow> bytes \<Rightarrow> string + string" where
  "aes_gcm_decrypt_with_key C encoded_cipher_text key =
     and_then (b64_decode C encoded_cipher_text) (\<lambda>payload.
     if length payload < 28 then Inl ''Decryption failed: input data too short''
     else let n = length payload;
              ciphertext = take (n - 28) payload;
              nonce = take 12 (drop (n - 28) payload);
              tag = drop (n - 16) payload
          in and_then (aes128_gcm_new C key) (\<lambda>_.
             and_then (aes128_gcm_open C key nonce (ciphertext @ tag)) (\<lambda>plain_bytes.
             from_utf8 (utf8_error C) plain_bytes)))"

definition aes_gcm_decrypt :: "'k crypto \<Rightarrow> string \<Rightarrow> string + string" where
  "aes_gcm_decrypt C encoded_cipher_text = aes_gcm_decrypt_with_key C encoded_cipher_text CON_NOTIFY_KEY"

definition aes_gcm_decrypt_with_hex_key :: "'k crypto \<Rightarrow> string \<Rightarrow> string \<Rightarrow> string + string" where
  "aes_gcm_decrypt_with_hex_key C encoded_cipher_text aes_128_key =
     and_then (validate_aes128_hex_key C aes_128_key) (aes_gcm_decrypt_with_key C encoded_cipher_text)"

definition decrypt_con_notify_data :: "'k crypto \<Rightarrow> string \<Rightarrow> string + string" where
  "decrypt_con_notify_data C encoded_cipher_text = aes_gcm_decrypt C encoded_cipher_text"

definition con_notify_rejected :: string where
  "con_notify_rejected = ''AES-GCM decrypt failed for con_notify data2=3; per-device aes_128_key was rejected or payload is corrupt: ''"

definition decrypt_con_notify_data_with_aes_128_key :: "'k crypto \<Rightarrow> string \<Rightarrow> string \<Rightarrow> string + string" where
  "decrypt_con_notify_data_with_aes_128_key C encoded_cipher_text aes_128_key =
     (if trim aes_128_key = []
      then Inl ''con_notify data2=3 requires aes_128_key or GO2_DORA_UNITREE_AES_128_KEY''
      else map_err (\<lambda>e. if starts_with e ''AES-128 key'' then e else con_notify_rejected @ e)
             (aes_gcm_decrypt_with_hex_key C encoded_cipher_text aes_128_key))"

definition rsa_load_public_key :: "'k crypto \<Rightarrow> string \<Rightarrow> string + 'k" where
  "rsa_load_public_key C encoded_public_key =
     and_then (b64_decode C encoded_public_key) (\<lambda>key_bytes.
     case spki_der C key_bytes of Inr k \<Rightarrow> Inr k | Inl _ \<Rightarrow> pkcs1_der C key_bytes)"

fun rsa_blocks :: "'k crypto \<Rightarrow> 'k \<Rightarrow> nat \<Rightarrow> bytes \<Rightarrow> bytes list \<Rightarrow> string + bytes" where
  "rsa_blocks C k i encrypted [] = Inr encrypted"
| "rsa_blocks C k i encrypted (chunk # cs) =
     and_then (rsa_encrypt_block C k i chunk) (\<lambda>block. rsa_blocks C k (Suc i) (encrypted @ block) cs)"

definition rsa_encrypt :: "'k crypto \<Rightarrow> string \<Rightarrow> 'k \<Rightarrow> string + string" where
  "rsa_encrypt C d public_key =
     (let max_chunk_size = rsa_size C public_key - 11 in
      if max_chunk_size = 0 then Inl ''RSA public key is too small''
      else and_then (rsa_blocks C public_key 0 [] (chunks max_chunk_size (str_bytes d)))
             (\<lambda>encrypted. Inr (b64_encode C encrypted)))"

section \<open>Laws of the crates\<close>

definition b64_law :: "'k crypto \<Rightarrow> bool" where
  "b64_law C \<longleftrightarrow> (\<forall>d. b64_decode C (b64_encode C d) = Inr d)"

definition aes256_law :: "'k crypto \<Rightarrow> bool" where
  "aes256_law C \<longleftrightarrow>
     (\<forall>k. length k = 32 \<longrightarrow> aes256_new C k = Inr ()) \<and>
     (\<forall>k b. length k = 32 \<and> length b = 16 \<longrightarrow>
        length (aes256_encrypt_block C k b) = 16 \<and> aes256_decrypt_block C k (aes256_encrypt_block C k b) = b)"

definition rsa_law :: "'k crypto \<Rightarrow> 'k \<Rightarrow> (bytes \<Rightarrow> bytes) \<Rightarrow> bool" where
  "rsa_law C k open_block \<longleftrightarrow>
     (\<forall>i c. length c \<le> rsa_size C k - 11 \<longrightarrow>
        (\<exists>b. rsa_encrypt_block C k i c = Inr b \<and> length b = rsa_size C k \<and> open_block b = c))"

section \<open>Padding and blocks\<close>

lemma pad_amount:
  defines "pad n \<equiv> AES_BLOCK_SIZE - (n mod AES_BLOCK_SIZE)"
  shows "0 < pad n" "pad n \<le> 16" "unat (of_nat (pad n) :: u8) = pad n" "16 dvd n + pad n"
proof -
  show bounds: "0 < pad n" "pad n \<le> 16" by (simp_all add: pad_def AES_BLOCK_SIZE_def)
  then show "unat (of_nat (pad n) :: u8) = pad n" by (simp add: unat_of_nat)
  have "n + (16 - n mod 16) = (n div 16 + 1) * 16"
    by presburger
  then show "16 dvd n + pad n" by (simp add: pad_def AES_BLOCK_SIZE_def)
qed

lemma unpad_replicate:
  assumes "0 < n" "n \<le> 16"
  shows "pkcs7_unpad (d @ replicate n (of_nat n)) = Inr d"
proof -
  have "unat (of_nat n :: u8) = n" using assms by (simp add: unat_of_nat)
  with assms show ?thesis by (simp add: pkcs7_unpad_def Let_def AES_BLOCK_SIZE_def list_ex_iff)
qed

lemma unpad_pad: "pkcs7_unpad (pkcs7_pad d) = Inr d"
  unfolding pkcs7_pad_def Let_def using pad_amount [of "length d"] by (intro unpad_replicate)

lemma pad_unpad:
  assumes "16 dvd length d" "pkcs7_unpad d = Inr p"
  shows "d = pkcs7_pad p"
proof -
  define n where "n = unat (last d)"
  have n: "d \<noteq> []" "0 < n" "n \<le> 16" "n \<le> length d" "\<forall>b\<in>set (drop (length d - n) d). unat b = n"
    and p: "p = take (length d - n) d"
    using assms(2) unfolding pkcs7_unpad_def Let_def n_def [symmetric]
    by (auto simp: AES_BLOCK_SIZE_def list_ex_iff split: if_splits)
  have "b = of_nat n" if "b \<in> set (drop (length d - n) d)" for b :: u8
    using n(3,5) that by (simp add: word_unat_eq_iff unat_of_nat)
  then have rep: "drop (length d - n) d = replicate n (of_nat n)"
    using n(4) by (intro replicate_eqI) auto
  have "16 - (length p mod 16) = n"
  proof -
    obtain k where "length d = 16 * k" using assms(1) by (auto elim: dvdE)
    with n p have "length p = 16 * (k - 1) + (16 - n)" by (cases k) auto
    then have "length p mod 16 = (16 - n) mod 16" by simp
    with n show ?thesis by (cases "n = 16") auto
  qed
  then show ?thesis
    using append_take_drop_id [of "length d - n" d] rep p by (simp add: pkcs7_pad_def AES_BLOCK_SIZE_def)
qed

lemma length_pad: "16 dvd length (pkcs7_pad d)"
  using pad_amount(4) [of "length d"] by (simp add: pkcs7_pad_def AES_BLOCK_SIZE_def Let_def)

lemma map_blocks_inverse:
  assumes len: "16 dvd length d"
    and enc: "\<And>b. length b = 16 \<Longrightarrow> length (f b) = 16 \<and> g (f b) = b"
  shows "map_blocks g (map_blocks f d) = d" and "16 dvd length (map_blocks f d)"
proof -
  let ?cs = "chunks 16 d"
  have cs: "\<forall>c\<in>set ?cs. length c = 16" using len chunks_exact by blast
  have f: "map_blocks f d = concat (map f ?cs)"
    unfolding map_blocks_def AES_BLOCK_SIZE_def using cs by (intro arg_cong [where f = concat] map_cong) auto
  have cs': "\<forall>c\<in>set (map f ?cs). length c = 16" using cs enc by auto
  have "chunks 16 (map_blocks f d) = map f ?cs"
    unfolding f using cs' by (intro chunks_concat) auto
  then have "map_blocks g (map_blocks f d) = concat (map g (map f ?cs))"
    unfolding map_blocks_def [of g] AES_BLOCK_SIZE_def using cs'
    by (intro arg_cong [where f = concat]) (auto intro!: map_cong)
  also have "map g (map f ?cs) = ?cs" using cs enc by (auto intro!: map_idI)
  finally show "map_blocks g (map_blocks f d) = d" by simp
  have "map length (map f ?cs) = map (\<lambda>_. 16) ?cs" using cs enc by auto
  then have "length (map_blocks f d) = length ?cs * 16"
    unfolding f length_concat by (simp only: sum_list_triv) simp
  then show "16 dvd length (map_blocks f d)" by simp
qed

section \<open>Properties\<close>

text \<open>
  PKCS#7: among byte strings of whole AES blocks, unpadding yields \<open>p\<close> exactly on the
  padding of \<open>p\<close>. Padding is thus always removed, and malformed padding is always rejected.
\<close>

theorem pkcs7_exact:
  "16 dvd length (pkcs7_pad p) \<and> (16 dvd length d \<longrightarrow> (pkcs7_unpad d = Inr p \<longleftrightarrow> d = pkcs7_pad p))"
  using length_pad unpad_pad pad_unpad by blast

theorem pkcs7_exact_witness: "pkcs7_unpad (pkcs7_pad [7, 8]) = Inr [7, 8]"
  using pkcs7_exact [of "[7, 8]" "pkcs7_pad [7, 8]"] by blast

lemma aes_ecb_inverse:
  assumes "b64_law C" and "aes256_law C" and "utf8_valid (str_bytes plain)" and key: "length key = 32"
  shows "\<exists>ct. aes_ecb_encrypt C plain key = Inr ct \<and> aes_ecb_decrypt C ct key = Inr plain"
proof -
  let ?k = "str_bytes key" and ?padded = "pkcs7_pad (str_bytes plain)"
  have blocks: "length (aes256_encrypt_block C ?k b) = 16 \<and>
      aes256_decrypt_block C ?k (aes256_encrypt_block C ?k b) = b" if "length b = 16" for b
    using assms(2) key that by (simp add: aes256_law_def)
  note inverse = map_blocks_inverse [OF length_pad blocks]
  have "aes256_new C ?k = Inr ()" using assms(2) key by (simp add: aes256_law_def)
  with key inverse assms(1,3) unpad_pad [of "str_bytes plain"] show ?thesis
    by (simp add: aes_ecb_encrypt_def aes_ecb_decrypt_def validate_aes256_key_def b64_law_def
        AES_BLOCK_SIZE_def)
qed

text \<open>
  Under the cipher's and the codec's inverse laws, decrypting an AES-256-ECB message
  with the key that encrypted it returns the text, for every text and every 32-byte key; every
  other key length is refused by both directions.
\<close>

theorem aes_ecb_roundtrip:
  assumes "b64_law C" and "aes256_law C" and "utf8_valid (str_bytes plain)"
  shows "if length key = 32
    then \<exists>ct. aes_ecb_encrypt C plain key = Inr ct \<and> aes_ecb_decrypt C ct key = Inr plain
    else \<exists>e. aes_ecb_encrypt C plain key = Inl e \<and> (\<forall>ct. aes_ecb_decrypt C ct key = Inl e)"
  using aes_ecb_inverse [OF assms, of key]
  by (auto simp: aes_ecb_encrypt_def aes_ecb_decrypt_def validate_aes256_key_def)

definition xor_crypto :: "unit crypto" where
  "xor_crypto =
     \<lparr>md5_digest = (\<lambda>d. replicate 16 (of_nat (length d))), hex_encode = bytes_str, hex_decode = (\<lambda>s. Inr (str_bytes s)),
      b64_encode = bytes_str, b64_decode = (\<lambda>s. Inr (str_bytes s)),
      aes256_new = (\<lambda>k. if length k = 32 then Inr () else Inl ''Invalid Length''),
      aes256_encrypt_block = (\<lambda>k b. map (\<lambda>x. x XOR hd k) b),
      aes256_decrypt_block = (\<lambda>k b. map (\<lambda>x. x XOR hd k) b),
      aes128_gcm_new = (\<lambda>k. Inr ()), aes128_gcm_open = (\<lambda>k n c. Inr (take (length c - 16) c)),
      utf8_error = (\<lambda>_. ''invalid utf-8''), spki_der = (\<lambda>_. Inl ''bad key''), pkcs1_der = (\<lambda>_. Inr ()),
      rsa_size = (\<lambda>_. 13),
      rsa_encrypt_block = (\<lambda>_ i c. Inr (c @ replicate (13 - length c) (of_nat (13 - length c))))\<rparr>"

lemma xor_simps:
  "b64_decode xor_crypto s = Inr (str_bytes s)" "aes128_gcm_new xor_crypto k = Inr ()"
  "aes128_gcm_open xor_crypto k n c = Inr (take (length c - 16) c)" "rsa_size xor_crypto () = 13"
  by (simp_all add: xor_crypto_def)

lemma xor_laws: "b64_law xor_crypto" "aes256_law xor_crypto"
  by (simp_all add: xor_crypto_def b64_law_def aes256_law_def xor.assoc comp_def)

theorem aes_ecb_roundtrip_witness:
  "\<exists>ct. aes_ecb_encrypt xor_crypto ''hello'' (replicate 32 CHR ''k'') = Inr ct \<and>
        aes_ecb_decrypt xor_crypto ct (replicate 32 CHR ''k'') = Inr ''hello''"
  using aes_ecb_roundtrip [of xor_crypto "''hello''" "replicate 32 CHR ''k''"]
  by (simp add: xor_laws str_bytes_def)

text \<open>
  A GCM envelope is ciphertext, then a 12-byte nonce, then a 16-byte tag: the code
  splits every decoded payload of at least 28 bytes at exactly these points, and rejects shorter
  ones before any slice is taken.
\<close>

theorem gcm_envelope_exact:
  assumes "b64_decode C enc = Inr payload" and "aes128_gcm_new C key = Inr ()"
  shows "(length payload < 28 \<longrightarrow>
      aes_gcm_decrypt_with_key C enc key = Inl ''Decryption failed: input data too short'') \<and>
    (\<forall>ct nonce tag. payload = ct @ nonce @ tag \<and> length nonce = 12 \<and> length tag = 16 \<longrightarrow>
      aes_gcm_decrypt_with_key C enc key =
        and_then (aes128_gcm_open C key nonce (ct @ tag)) (from_utf8 (utf8_error C)))"
  using assms by (auto simp: aes_gcm_decrypt_with_key_def Let_def)

theorem gcm_envelope_exact_witness:
  "aes_gcm_decrypt_with_key xor_crypto (''ok'' @ replicate 28 CHR ''t'') (replicate 16 0) = Inr ''ok''"
proof -
  have split: "str_bytes (''ok'' @ replicate 28 CHR ''t'') = str_bytes ''ok'' @ replicate 12 116 @ replicate 16 116"
    by (simp add: str_bytes_def eval_nat_numeral)
  have "aes_gcm_decrypt_with_key xor_crypto (''ok'' @ replicate 28 CHR ''t'') (replicate 16 0) =
      and_then (aes128_gcm_open xor_crypto (replicate 16 0) (replicate 12 116) (str_bytes ''ok'' @ replicate 16 116))
        (from_utf8 (utf8_error xor_crypto))"
    by (rule gcm_envelope_exact [THEN conjunct2, rule_format, OF xor_simps(1,2)]) (simp only: split, simp)
  also have "\<dots> = from_utf8 (utf8_error xor_crypto) (str_bytes ''ok'')"
    by (simp add: xor_simps)
  also have "\<dots> = Inr ''ok''"
    by (rule from_utf8_str) (simp add: str_bytes_def)
  finally show ?thesis .
qed

lemma rsa_blocks_spec:
  assumes "rsa_law C k open_block" "\<forall>c\<in>set cs. length c \<le> rsa_size C k - 11"
  shows "\<exists>bs. rsa_blocks C k i acc cs = Inr (acc @ concat bs) \<and> length bs = length cs \<and>
    (\<forall>b\<in>set bs. length b = rsa_size C k) \<and> map open_block bs = cs"
  using assms(2)
proof (induction cs arbitrary: i acc)
  case Nil
  then show ?case by simp
next
  case (Cons c cs)
  then obtain b where b: "rsa_encrypt_block C k i c = Inr b" "length b = rsa_size C k" "open_block b = c"
    using assms(1) by (force simp: rsa_law_def)
  from Cons.IH [of "Suc i" "acc @ b"] Cons.prems obtain bs where "rsa_blocks C k (Suc i) (acc @ b) cs = Inr ((acc @ b) @ concat bs)"
    "length bs = length cs" "\<forall>x\<in>set bs. length x = rsa_size C k" "map open_block bs = cs"
    by auto
  with b have "rsa_blocks C k i acc (c # cs) = Inr (acc @ concat (b # bs)) \<and> length (b # bs) = length (c # cs) \<and>
      (\<forall>x\<in>set (b # bs). length x = rsa_size C k) \<and> map open_block (b # bs) = c # cs"
    by simp
  then show ?case by (rule exI [of _ "b # bs"])
qed

text \<open>
  RSA encryption in blocks loses nothing: for a key of more than 11 bytes the message
  is cut into blocks the key can hold, encryption succeeds, and a receiver who cuts the decoded
  ciphertext at the key size and opens each block reads the message back. A smaller key is refused.
\<close>

theorem rsa_encrypt_roundtrip:
  assumes "b64_law C" and "rsa_law C k open_block"
  shows "if rsa_size C k \<le> 11 then rsa_encrypt C d k = Inl ''RSA public key is too small''
    else \<exists>enc raw. rsa_encrypt C d k = Inr enc \<and> b64_decode C enc = Inr raw \<and>
      concat (map open_block (chunks (rsa_size C k) raw)) = str_bytes d"
proof (cases "rsa_size C k \<le> 11")
  case True
  then show ?thesis by (simp add: rsa_encrypt_def)
next
  case False
  let ?cs = "chunks (rsa_size C k - 11) (str_bytes d)"
  have "\<forall>c\<in>set ?cs. length c \<le> rsa_size C k - 11"
    using False chunks_length [of "rsa_size C k - 11"] by (meson diff_is_0_eq' not_gr_zero zero_less_diff not_le)
  from rsa_blocks_spec [OF assms(2) this, of 0 "[]"] obtain bs where
    bs: "rsa_blocks C k 0 [] ?cs = Inr (concat bs)" "\<forall>b\<in>set bs. length b = rsa_size C k" "map open_block bs = ?cs"
    by auto
  have "chunks (rsa_size C k) (concat bs) = bs"
    using False bs(2) by (intro chunks_concat) auto
  with False bs assms(1) show ?thesis
    by (simp add: rsa_encrypt_def b64_law_def)
qed

lemma xor_rsa: "rsa_law xor_crypto () (\<lambda>b. take (13 - unat (last b)) b)"
proof -
  have "unat (of_nat (13 - length c) :: u8) = 13 - length c" for c :: bytes
    by (simp add: unat_of_nat)
  then show ?thesis by (auto simp: rsa_law_def xor_crypto_def simp del: of_nat_diff)
qed

theorem rsa_encrypt_roundtrip_witness:
  "\<exists>enc raw. rsa_encrypt xor_crypto ''secret'' () = Inr enc \<and> b64_decode xor_crypto enc = Inr raw \<and>
     concat (map (\<lambda>b. take (13 - unat (last b)) b) (chunks 13 raw)) = str_bytes ''secret''"
  using rsa_encrypt_roundtrip [OF xor_laws(1) xor_rsa, of "''secret''"]
  by (simp add: xor_crypto_def)

text \<open>
  Decoding con_notify data of form 3: an absent key and a malformed key are reported as
  such, naming the key, and every failure past key validation is reported as a rejected key or a
  corrupt payload. No other error text leaves the function, and success is the plain decryption.
\<close>

theorem con_notify_key_errors:
  "case decrypt_con_notify_data_with_aes_128_key C enc key of
     Inr plain \<Rightarrow> aes_gcm_decrypt_with_hex_key C enc key = Inr plain
   | Inl e \<Rightarrow>
       if trim key = [] then e = ''con_notify data2=3 requires aes_128_key or GO2_DORA_UNITREE_AES_128_KEY''
       else case validate_aes128_hex_key C key of
         Inl ke \<Rightarrow> e = ke \<and> starts_with e ''AES-128 key must ''
       | Inr k \<Rightarrow> length k = 16 \<and> (starts_with e con_notify_rejected \<or> starts_with e ''AES-128 key'')"
proof -
  have ke: "starts_with e ''AES-128 key must '' \<and> starts_with e ''AES-128 key''"
    if "validate_aes128_hex_key C key = Inl e" for e
    using that by (cases "hex_decode C (trim key)") (auto simp: validate_aes128_hex_key_def Let_def split: if_splits)
  have len: "length k = 16" if "validate_aes128_hex_key C key = Inr k" for k
    using that by (auto simp: validate_aes128_hex_key_def Let_def and_then_Inr_iff split: if_splits)
  have pre: "starts_with (con_notify_rejected @ e) con_notify_rejected" for e
    by simp
  show ?thesis
    using ke len pre
    by (cases "validate_aes128_hex_key C key"; cases "aes_gcm_decrypt_with_hex_key C enc key")
      (auto simp: decrypt_con_notify_data_with_aes_128_key_def aes_gcm_decrypt_with_hex_key_def)
qed

end
