(* ===== verification/Data_Channel.thy ===== *)
theory Data_Channel
  imports Constants Chunks Framing Lidar_Pool Security
begin

text \<open>
  \<open>src/src/datachannel/core/service.rs\<close>: the request/response and subscription service over a data
  channel. The whole service is one record, shared by its clones; every operation below runs under
  the service's lifecycle lock, as in the code, and is one function on that record. The session id
  is the generation of the callback channel (the code shares one atomic between them), so it is
  \<open>eb_current\<close> of the bus.

  A request that waits for its response is split at the \<open>await\<close>: \<open>publish_begin\<close> registers and sends,
  \<open>publish_end\<close> is what runs when the future is resumed or dropped. The one-shot sender of a pending
  request is a token; what has been sent through it is recorded in \<open>dc_completed\<close>. A panic is
  \<open>None\<close>. The transport is the port of \<open>src/src/protocol/ports.rs\<close>: a record of functions on a
  transport state. Clocks, the random uuid and the outcome of spawning a thread are the fields of a
  \<open>moment\<close>; text rendering, the JSON printer and the cryptography are the fields of a \<open>runtime\<close>.
\<close>

definition MAX_PENDING_REQUESTS :: nat where [policy_defs]: "MAX_PENDING_REQUESTS = 128"

record 't dc_port =
  port_ready_state :: "'t \<Rightarrow> string"
  port_send_text :: "string \<Rightarrow> 't \<Rightarrow> (string + unit) \<times> 't"
  port_set_generation :: "u64 \<Rightarrow> 't \<Rightarrow> (string + unit) \<times> 't"
  port_take_error :: "'t \<Rightarrow> ingress_message option \<times> 't"

record ('t, 'k) runtime =
  rt_port :: "'t dc_port"
  rt_layout :: layout
  rt_crypto :: "'k crypto"
  rt_deserialize :: "bytes \<Rightarrow> raw_json option"
  rt_to_string :: "json \<Rightarrow> string + string"
  rt_value_text :: "json \<Rightarrow> string"
  rt_fmt_f64 :: "fval \<Rightarrow> string"
  rt_fmt_fixed1 :: "fval \<Rightarrow> string"
  rt_instant_max :: nat \<comment> \<open>largest instant of the platform's monotonic clock\<close>

record moment =
  at_instant :: instant
  at_secs :: nat
  at_secs_f64 :: fval
  at_local :: string
  at_uuid :: string
  at_spawn :: bool

record core_diagnostics =
  cd_parse :: repeat_log
  cd_chunk :: repeat_log
  cd_callback :: repeat_log
  cd_binary :: repeat_log
  cd_lidar_submit :: repeat_log
  cd_lidar_invalid :: repeat_log
  cd_control_send :: repeat_log

definition core_diagnostics_new :: core_diagnostics where
  "core_diagnostics_new =
     \<lparr>cd_parse = repeat_log_new ''datachannel_json_parse_failed'' ''malformed_json'',
      cd_chunk = repeat_log_new ''invalid_chunk_response'' ''invalid_chunk'',
      cd_callback = repeat_log_new ''python_callback_drop'' ''queue_budget_or_stale'',
      cd_binary = repeat_log_new ''binary_message_ignored'' ''malformed_frame'',
      cd_lidar_submit = repeat_log_new ''lidar_worker_submit_failed'' ''queue_full_or_closed'',
      cd_lidar_invalid = repeat_log_new ''invalid_lidar_response'' ''invalid_metadata_or_size'',
      cd_control_send = repeat_log_new ''datachannel_control_send_failed'' ''enqueue_failed''\<rparr>"

definition core_diagnostics_reset :: "core_diagnostics \<Rightarrow> core_diagnostics" where
  "core_diagnostics_reset d =
     \<lparr>cd_parse = snd (rl_reset (cd_parse d)), cd_chunk = snd (rl_reset (cd_chunk d)),
      cd_callback = snd (rl_reset (cd_callback d)), cd_binary = snd (rl_reset (cd_binary d)),
      cd_lidar_submit = snd (rl_reset (cd_lidar_submit d)), cd_lidar_invalid = snd (rl_reset (cd_lidar_invalid d)),
      cd_control_send = snd (rl_reset (cd_control_send d))\<rparr>"

record response_expectation =
  re_topics :: "string list option"
  re_api_id :: "int option"

record pending_callback =
  pc_token :: nat
  pc_expectation :: response_expectation
  pc_session :: u64

record 't dc_service =
  dc_transport :: 't
  dc_pending :: "(string, pending_callback) hash_map"
  dc_subscriptions :: "string set"
  dc_chunks :: chunk_assembler
  dc_validation_key :: string
  dc_events :: event_bus
  dc_opened :: bool
  dc_heartbeat_last :: nat
  dc_heartbeat_running :: bool
  dc_heartbeat_stop_tx :: bool \<comment> \<open>the stop channel's sender is held\<close>
  dc_network_probe :: bool
  dc_last_process :: "(string, fval) hash_map"
  dc_decoder :: string
  dc_lidar :: lidar_pool
  dc_is_remote :: bool
  dc_request_sequence :: u64
  dc_diag :: core_diagnostics
  dc_next_token :: nat
  dc_completed :: "(nat \<times> (string + json)) list"

definition session_id :: "'t dc_service \<Rightarrow> u64" where
  "session_id s = eb_current (dc_events s)"

section \<open>What a request expects\<close>

definition expect_any :: response_expectation where
  "expect_any = \<lparr>re_topics = None, re_api_id = None\<rparr>"

definition expected_response_topic :: "string \<Rightarrow> string" where
  "expected_response_topic request_topic =
     (if ends_with request_topic ''/request''
      then take (length request_topic - 8) request_topic @ ''/response'' else request_topic)"

definition expect_api_request :: "string \<Rightarrow> int \<Rightarrow> response_expectation" where
  "expect_api_request request_topic api_id =
     (let response_topic = expected_response_topic request_topic
      in \<lparr>re_topics = Some (if response_topic \<noteq> request_topic then [request_topic, response_topic] else [request_topic]),
          re_api_id = Some api_id\<rparr>)"

fun show_option_int :: "int option \<Rightarrow> string" where
  "show_option_int None = ''None''"
| "show_option_int (Some n) = ''Some('' @ show_int n @ '')''"

definition str_field :: "string \<Rightarrow> json \<Rightarrow> string" where
  "str_field k v = unwrap_or_default (Option.bind (jget k v) as_str)"

definition expectation_validate :: "response_expectation \<Rightarrow> json \<Rightarrow> string + unit" where
  "expectation_validate e message =
     (if (case re_topics e of Some topics \<Rightarrow> str_field ''topic'' message \<notin> set topics | None \<Rightarrow> False)
      then Inl ''Response topic mismatch''
      else case re_api_id e of
        None \<Rightarrow> Inr ()
      | Some expected \<Rightarrow>
          let actual = Option.bind (jpointer [''data'', ''header'', ''identity'', ''api_id''] message) as_i64
          in if actual \<noteq> Some expected
             then Inl (''Response api_id mismatch: expected '' @ show_int expected @ '', got '' @ show_option_int actual)
             else Inr ())"

section \<open>Keys, bytes and other pure helpers\<close>

definition generate_message_key :: "string \<Rightarrow> string \<Rightarrow> string option \<Rightarrow> string" where
  "generate_message_key msg_type topic identifier =
     (case identifier of Some i \<Rightarrow> i | None \<Rightarrow> msg_type @ '' $ '' @ topic)"

definition nested_string :: "json \<Rightarrow> string list \<Rightarrow> string option" where
  "nested_string root keys = Option.bind (jpointer keys root) as_str"

definition outgoing_identifier_from_data :: "('t, 'k) runtime \<Rightarrow> json \<Rightarrow> string option" where
  "outgoing_identifier_from_data W d = extract_key (rt_fmt_f64 W) d"

definition or_else :: "'a option \<Rightarrow> 'a option \<Rightarrow> 'a option" where
  "or_else a b = (case a of Some x \<Rightarrow> Some x | None \<Rightarrow> b)"

definition incoming_key :: "('t, 'k) runtime \<Rightarrow> json \<Rightarrow> string" where
  "incoming_key W message =
     generate_message_key (str_field ''type'' message) (str_field ''topic'' message)
       (or_else (Option.bind (jget ''data'' message) (extract_key (rt_fmt_f64 W)))
         (or_else (nested_string message [''info'', ''uuid'']) (nested_string message [''info'', ''req_uuid''])))"

fun all_bytes :: "json list \<Rightarrow> bytes option" where
  "all_bytes [] = Some []"
| "all_bytes (v # vs) =
     (case as_u64 v of
        None \<Rightarrow> None
      | Some n \<Rightarrow> if n > 255 then None else map_option ((#) (of_nat n)) (all_bytes vs))"

definition value_to_chunk_bytes :: "json \<Rightarrow> bytes option" where
  "value_to_chunk_bytes v =
     (case as_str v of
        Some txt \<Rightarrow> if length txt \<le> MAX_TRANSFER_BYTES then Some (str_bytes txt) else None
      | None \<Rightarrow>
          (case as_array v of
             None \<Rightarrow> None
           | Some vs \<Rightarrow> if length vs > MAX_TRANSFER_BYTES then None else all_bytes vs))"

definition bytes_to_json_array :: "bytes \<Rightarrow> json" where
  "bytes_to_json_array bs = JArray (map (\<lambda>b. JNumber (NInt (int (unat b)))) bs)"

definition inject_binary_data :: "json \<Rightarrow> bytes \<Rightarrow> json option" where
  "inject_binary_data decoded_json binary_data =
     (let with_object =
        (if Option.bind (jget ''data'' decoded_json) as_object = None
         then jindex_set ''data'' (JObject []) decoded_json else Some decoded_json)
      in case with_object of
           None \<Rightarrow> None
         | Some d \<Rightarrow>
             (case Option.bind (jget ''data'' d) as_object of
                None \<Rightarrow> Some d
              | Some m \<Rightarrow> jindex_set ''data'' (JObject (bt_insert ''data'' (bytes_to_json_array binary_data) m)) d))"

definition should_emit_error_log :: "json \<Rightarrow> bool" where
  "should_emit_error_log message =
     (case jget ''data'' message of
        Some (JArray items) \<Rightarrow> items \<noteq> []
      | Some JNull \<Rightarrow> False
      | None \<Rightarrow> False
      | _ \<Rightarrow> True)"

text \<open>\<open>Duration::try_from_secs_f64\<close>: nanoseconds to nearest, or nothing when negative, not finite or too
  large; then the deadline has to be representable.\<close>

fun f64_to_nanos :: "fval \<Rightarrow> nat option" where
  "f64_to_nanos (Finite s m e) =
     (if s \<and> m \<noteq> 0 then None
      else let n = (if 0 \<le> e then m * 2 ^ nat e * 1000000000 else round_shift (m * 1000000000) (nat (- e)))
           in if n \<ge> 2 ^ 64 * 1000000000 then None else Some n)"
| "f64_to_nanos _ = None"

definition validated_timeout :: "('t, 'k) runtime \<Rightarrow> moment \<Rightarrow> fval \<Rightarrow> string + nat" where
  "validated_timeout W now seconds =
     (let invalid = Inl ''Invalid timeout: expected finite nonnegative seconds representable as a deadline'' in
      case f64_to_nanos seconds of
        None \<Rightarrow> invalid
      | Some duration \<Rightarrow> if at_instant now + duration > rt_instant_max W then invalid else Inr duration)"

section \<open>Diagnostics\<close>

definition note_parse :: "moment \<Rightarrow> 't dc_service \<Rightarrow> 't dc_service" where
  "note_parse now s = s\<lparr>dc_diag := (dc_diag s)\<lparr>cd_parse := snd (rl_record (at_instant now) (cd_parse (dc_diag s)))\<rparr>\<rparr>"

definition note_chunk :: "moment \<Rightarrow> 't dc_service \<Rightarrow> 't dc_service" where
  "note_chunk now s = s\<lparr>dc_diag := (dc_diag s)\<lparr>cd_chunk := snd (rl_record (at_instant now) (cd_chunk (dc_diag s)))\<rparr>\<rparr>"

definition note_callback :: "moment \<Rightarrow> 't dc_service \<Rightarrow> 't dc_service" where
  "note_callback now s =
     s\<lparr>dc_diag := (dc_diag s)\<lparr>cd_callback := snd (rl_record (at_instant now) (cd_callback (dc_diag s)))\<rparr>\<rparr>"

definition note_binary :: "moment \<Rightarrow> 't dc_service \<Rightarrow> 't dc_service" where
  "note_binary now s =
     s\<lparr>dc_diag := (dc_diag s)\<lparr>cd_binary := snd (rl_record (at_instant now) (cd_binary (dc_diag s)))\<rparr>\<rparr>"

definition note_lidar_submit :: "moment \<Rightarrow> 't dc_service \<Rightarrow> 't dc_service" where
  "note_lidar_submit now s =
     s\<lparr>dc_diag := (dc_diag s)\<lparr>cd_lidar_submit := snd (rl_record (at_instant now) (cd_lidar_submit (dc_diag s)))\<rparr>\<rparr>"

definition note_lidar_invalid :: "moment \<Rightarrow> 't dc_service \<Rightarrow> 't dc_service" where
  "note_lidar_invalid now s =
     s\<lparr>dc_diag := (dc_diag s)\<lparr>cd_lidar_invalid := snd (rl_record (at_instant now) (cd_lidar_invalid (dc_diag s)))\<rparr>\<rparr>"

definition note_control_send :: "moment \<Rightarrow> 't dc_service \<Rightarrow> 't dc_service" where
  "note_control_send now s =
     s\<lparr>dc_diag := (dc_diag s)\<lparr>cd_control_send := snd (rl_record (at_instant now) (cd_control_send (dc_diag s)))\<rparr>\<rparr>"

section \<open>Pending requests\<close>

definition complete :: "nat \<Rightarrow> string + json \<Rightarrow> 't dc_service \<Rightarrow> 't dc_service" where
  "complete token result s = s\<lparr>dc_completed := dc_completed s @ [(token, result)]\<rparr>"

definition fail_pending :: "string \<Rightarrow> string \<Rightarrow> 't dc_service \<Rightarrow> 't dc_service" where
  "fail_pending key err s =
     (case map_of (dc_pending s) key of
        None \<Rightarrow> s
      | Some callback \<Rightarrow> complete (pc_token callback) (Inl err) (s\<lparr>dc_pending := hm_remove key (dc_pending s)\<rparr>))"

definition resolve_pending_response :: "string \<Rightarrow> json \<Rightarrow> 't dc_service \<Rightarrow> 't dc_service" where
  "resolve_pending_response key message s =
     (case map_of (dc_pending s) key of
        None \<Rightarrow> s
      | Some callback \<Rightarrow>
          let s1 = s\<lparr>dc_pending := hm_remove key (dc_pending s)\<rparr>;
              result = (if pc_session callback \<noteq> session_id s1
                        then Inl ''Response belongs to a stale DataChannel session''
                        else and_then (expectation_validate (pc_expectation callback) message) (\<lambda>_. Inr message))
          in complete (pc_token callback) result s1)"

definition fail_all_pending :: "string \<Rightarrow> 't dc_service \<Rightarrow> 't dc_service" where
  "fail_all_pending reason s =
     fold (\<lambda>(_, callback). complete (pc_token callback) (Inl reason)) (dc_pending s) (s\<lparr>dc_pending := []\<rparr>)"

text \<open>\<open>PendingRequestGuard::drop\<close>: only the registration made with this token is withdrawn.\<close>

definition guard_drop :: "string \<Rightarrow> nat \<Rightarrow> 't dc_service \<Rightarrow> 't dc_service" where
  "guard_drop key token s =
     (case map_of (dc_pending s) key of
        Some callback \<Rightarrow>
          if pc_token callback = token
          then s\<lparr>dc_pending := hm_remove key (dc_pending s), dc_chunks := ca_remove key (dc_chunks s)\<rparr>
          else s
      | None \<Rightarrow> s)"

section \<open>Sending\<close>

text \<open>The message object is built with its keys in the order of the map.\<close>

definition send_message_locked ::
  "('t, 'k) runtime \<Rightarrow> moment \<Rightarrow> string \<Rightarrow> json option \<Rightarrow> string \<Rightarrow> 't dc_service \<Rightarrow> (string + unit) \<times> 't dc_service" where
  "send_message_locked W now topic d msg_type s =
     (if port_ready_state (rt_port W) (dc_transport s) \<noteq> ''open'' then (Inl ''Data channel is not open'', s)
      else
        let fields = [(''topic'', JString topic), (''type'', JString msg_type)];
            message = (case d of None \<Rightarrow> JObject fields | Some v \<Rightarrow> JObject (bt_insert ''data'' v fields))
        in case rt_to_string W message of
             Inl e \<Rightarrow> (Inl e, s)
           | Inr txt \<Rightarrow>
               (case port_send_text (rt_port W) txt (dc_transport s) of
                  (result, t) \<Rightarrow>
                    let s1 = s\<lparr>dc_transport := t\<rparr>
                    in (result, case result of Inl _ \<Rightarrow> note_control_send now s1 | Inr _ \<Rightarrow> s1)))"

definition publish_without_callback ::
  "('t, 'k) runtime \<Rightarrow> moment \<Rightarrow> string \<Rightarrow> json option \<Rightarrow> string option \<Rightarrow> 't dc_service \<Rightarrow> (string + unit) \<times> 't dc_service" where
  "publish_without_callback W now topic d msg_type s =
     send_message_locked W now topic d (case msg_type of Some t \<Rightarrow> t | None \<Rightarrow> dt_msg dc_types) s"

text \<open>A request in flight: what its future keeps across the \<open>await\<close>.\<close>

record ticket =
  tk_key :: string
  tk_token :: nat
  tk_duration :: nat
  tk_timeout :: fval
  tk_topic :: string

definition ten_seconds :: fval where "ten_seconds = Finite False 5 1"

definition publish_begin ::
  "('t, 'k) runtime \<Rightarrow> moment \<Rightarrow> string \<Rightarrow> json option \<Rightarrow> string option \<Rightarrow> fval option \<Rightarrow> response_expectation \<Rightarrow>
     't dc_service \<Rightarrow> (string + ticket) \<times> 't dc_service" where
  "publish_begin W now topic d msg_type timeout_secs expectation s =
     (let timeout = (case timeout_secs of Some t \<Rightarrow> t | None \<Rightarrow> ten_seconds) in
      case validated_timeout W now timeout of
        Inl e \<Rightarrow> (Inl e, s)
      | Inr duration \<Rightarrow>
          let effective_type = (case msg_type of Some t \<Rightarrow> t | None \<Rightarrow> dt_msg dc_types);
              key = generate_message_key effective_type topic (Option.bind d (outgoing_identifier_from_data W)) in
          if port_ready_state (rt_port W) (dc_transport s) \<noteq> ''open'' then (Inl ''Data channel is not open'', s)
          else if map_of (dc_pending s) key \<noteq> None then (Inl (''Duplicate in-flight request key: '' @ key), s)
          else if length (dc_pending s) \<ge> MAX_PENDING_REQUESTS
          then (Inl ''DataChannel in-flight request limit reached'', s)
          else
            let token = dc_next_token s;
                callback = \<lparr>pc_token = token, pc_expectation = expectation, pc_session = session_id s\<rparr>;
                s1 = s\<lparr>dc_pending := hm_insert key callback (dc_pending s), dc_next_token := Suc token\<rparr>
            in case send_message_locked W now topic d effective_type s1 of
                 (Inl e, s2) \<Rightarrow> (Inl e, guard_drop key token s2)
               | (Inr _, s2) \<Rightarrow>
                   (Inr \<lparr>tk_key = key, tk_token = token, tk_duration = duration, tk_timeout = timeout, tk_topic = topic\<rparr>, s2))"

datatype wake = Woken | TimedOut | Cancelled

text \<open>The rest of the future: the result found in the one-shot channel, a lost sender, or the timeout;
  the guard is dropped in every case, also when the caller drops the future.\<close>

definition publish_end ::
  "('t, 'k) runtime \<Rightarrow> wake \<Rightarrow> ticket \<Rightarrow> 't dc_service \<Rightarrow> (string + json) option \<times> 't dc_service" where
  "publish_end W w tk s =
     (let result =
        (case w of
           Cancelled \<Rightarrow> None
         | TimedOut \<Rightarrow>
             Some (Inl (''Publish timeout after '' @ rt_fmt_fixed1 W (tk_timeout tk) @ ''s for topic '' @ tk_topic tk))
         | Woken \<Rightarrow>
             (case map_of (dc_completed s) (tk_token tk) of
                Some r \<Rightarrow> Some r
              | None \<Rightarrow> Some (Inl ''Response receiver dropped'')))
      in (result, guard_drop (tk_key tk) (tk_token tk) s))"

definition publish ::
  "('t, 'k) runtime \<Rightarrow> moment \<Rightarrow> string \<Rightarrow> json option \<Rightarrow> string option \<Rightarrow> fval option \<Rightarrow> 't dc_service \<Rightarrow>
     (string + ticket) \<times> 't dc_service" where
  "publish W now topic d msg_type timeout_secs s = publish_begin W now topic d msg_type timeout_secs expect_any s"

definition generated_identity_id :: "'t dc_service \<Rightarrow> int \<times> 't dc_service" where
  "generated_identity_id s =
     (let nxt = dc_request_sequence s
      in (int (unat nxt mod (2 ^ 31 - 1)) + 1, s\<lparr>dc_request_sequence := nxt + 1\<rparr>))"

definition request_payload :: "('t, 'k) runtime \<Rightarrow> json \<Rightarrow> int \<Rightarrow> int \<Rightarrow> json" where
  "request_payload W options i api_id =
     (let identity = jobject [(''id'', JNumber (NInt i)), (''api_id'', JNumber (NInt api_id))];
          parameter = (case jget ''parameter'' options of
                         None \<Rightarrow> JString []
                       | Some p \<Rightarrow> (case p of JString _ \<Rightarrow> p | _ \<Rightarrow> JString (rt_value_text W p)));
          header = (if jget ''priority'' options \<noteq> None
                    then jobject [(''identity'', identity), (''policy'', jobject [(''priority'', JNumber (NInt 1))])]
                    else jobject [(''identity'', identity)])
      in jobject [(''header'', header), (''parameter'', parameter)])"

definition publish_request_new ::
  "('t, 'k) runtime \<Rightarrow> moment \<Rightarrow> string \<Rightarrow> json \<Rightarrow> fval option \<Rightarrow> 't dc_service \<Rightarrow> (string + ticket) \<times> 't dc_service" where
  "publish_request_new W now topic options timeout_secs s =
     (case Option.bind (jget ''api_id'' options) as_i64 of
        None \<Rightarrow> (Inl ''Please provide api_id'', s)
      | Some api_id \<Rightarrow>
          let (i, s1) = (case Option.bind (jget ''id'' options) as_i64 of
                           Some i \<Rightarrow> (i, s) | None \<Rightarrow> generated_identity_id s)
          in publish_begin W now topic (Some (request_payload W options i api_id)) (Some (dt_request dc_types))
               timeout_secs (expect_api_request topic api_id) s1)"

section \<open>The other public operations\<close>

definition subscribe :: "('t, 'k) runtime \<Rightarrow> moment \<Rightarrow> string \<Rightarrow> 't dc_service \<Rightarrow> (string + unit) \<times> 't dc_service" where
  "subscribe W now topic s =
     (case send_message_locked W now topic None (dt_subscribe dc_types) s of
        (Inl e, s1) \<Rightarrow> (Inl e, s1)
      | (Inr _, s1) \<Rightarrow> (Inr (), s1\<lparr>dc_subscriptions := insert topic (dc_subscriptions s1)\<rparr>))"

definition unsubscribe :: "('t, 'k) runtime \<Rightarrow> moment \<Rightarrow> string \<Rightarrow> 't dc_service \<Rightarrow> (string + unit) \<times> 't dc_service" where
  "unsubscribe W now topic s =
     (case send_message_locked W now topic None (dt_unsubscribe dc_types) s of
        (Inl e, s1) \<Rightarrow> (Inl e, s1)
      | (Inr _, s1) \<Rightarrow> (Inr (), s1\<lparr>dc_subscriptions := dc_subscriptions s1 - {topic}\<rparr>))"

definition on_off :: "bool \<Rightarrow> string" where
  "on_off switch = (if switch then ''on'' else ''off'')"

definition disable_traffic_saving ::
  "('t, 'k) runtime \<Rightarrow> moment \<Rightarrow> bool \<Rightarrow> 't dc_service \<Rightarrow> (string + ticket) \<times> 't dc_service" where
  "disable_traffic_saving W now switch s =
     publish W now [] (Some (jobject [(''req_type'', JString ''disable_traffic_saving''), (''instruction'', JString (on_off switch))]))
       (Some (dt_rtc_inner_req dc_types)) (Some ten_seconds) s"

definition execution_ok :: "json \<Rightarrow> bool" where
  "execution_ok response \<longleftrightarrow> Option.bind (jpointer [''info'', ''execution''] response) as_str = Some ''ok''"

definition switch_video_channel ::
  "('t, 'k) runtime \<Rightarrow> moment \<Rightarrow> bool \<Rightarrow> 't dc_service \<Rightarrow> (string + unit) \<times> 't dc_service" where
  "switch_video_channel W now switch s =
     publish_without_callback W now [] (Some (JString (on_off switch))) (Some (dt_vid dc_types)) s"

definition switch_audio_channel ::
  "('t, 'k) runtime \<Rightarrow> moment \<Rightarrow> bool \<Rightarrow> 't dc_service \<Rightarrow> (string + unit) \<times> 't dc_service" where
  "switch_audio_channel W now switch s =
     publish_without_callback W now [] (Some (JString (on_off switch))) (Some (dt_aud dc_types)) s"

definition dc_ready_state :: "('t, 'k) runtime \<Rightarrow> 't dc_service \<Rightarrow> string" where
  "dc_ready_state W s = port_ready_state (rt_port W) (dc_transport s)"

definition is_open :: "('t, 'k) runtime \<Rightarrow> 't dc_service \<Rightarrow> bool" where
  "is_open W s \<longleftrightarrow> port_ready_state (rt_port W) (dc_transport s) = ''open'' \<and> dc_opened s"

text \<open>The polling loop of \<open>wait_datachannel_open\<close> over the states and elapsed times it observes; \<open>None\<close>
  is a loop that is still polling.\<close>

fun wait_polls :: "nat \<Rightarrow> (bool \<times> nat) list \<Rightarrow> (string + unit) option" where
  "wait_polls timeout [] = None"
| "wait_polls timeout ((opened, elapsed) # rest) =
     (if opened then Some (Inr ())
      else if elapsed > timeout then Some (Inl ''Data channel did not open in time'')
      else wait_polls timeout rest)"

definition wait_datachannel_open ::
  "('t, 'k) runtime \<Rightarrow> moment \<Rightarrow> fval \<Rightarrow> (bool \<times> nat) list \<Rightarrow> (string + unit) option" where
  "wait_datachannel_open W now timeout_secs polls =
     (case validated_timeout W now timeout_secs of
        Inl e \<Rightarrow> Some (Inl e)
      | Inr timeout \<Rightarrow> wait_polls timeout polls)"

definition last_heartbeat_age_s :: "moment \<Rightarrow> 't dc_service \<Rightarrow> nat option" where
  "last_heartbeat_age_s now s =
     (if dc_heartbeat_last s = 0 then None else Some (at_secs now - dc_heartbeat_last s))"

text \<open>The double nearest to \<open>1.0 / 15.0\<close>.\<close>

definition FIFTEENTH :: fval where
  "FIFTEENTH = Finite False 0x11111111111111 (- 56)"

definition throttle_limit :: "string \<Rightarrow> fval option" where
  "throttle_limit topic_or_type =
     (if topic_or_type = ''rt/utlidar/voxel_map_compressed'' \<or> topic_or_type = dt_vid dc_types
      then Some FIFTEENTH else None)"

definition should_process :: "moment \<Rightarrow> string \<Rightarrow> 't dc_service \<Rightarrow> bool \<times> 't dc_service" where
  "should_process now topic_or_type s =
     (case throttle_limit topic_or_type of
        None \<Rightarrow> (True, s)
      | Some limit \<Rightarrow>
          let prev = (case map_of (dc_last_process s) topic_or_type of Some t \<Rightarrow> t | None \<Rightarrow> Finite False 0 0)
          in if fge (fsub binary64 (at_secs_f64 now) prev) limit
             then (True, s\<lparr>dc_last_process := hm_insert topic_or_type (at_secs_f64 now) (dc_last_process s)\<rparr>)
             else (False, s))"

definition set_decoder :: "string \<Rightarrow> 't dc_service \<Rightarrow> (string + unit) \<times> 't dc_service" where
  "set_decoder decoder_type s =
     (if decoder_type = ''libvoxel''
      then (Inl ''The 'libvoxel' decoder is not supported in the Rust backend. Use 'native'.'', s)
      else if decoder_type \<noteq> ''native'' then (Inl ''Invalid decoder type. Choose 'native'.'', s)
      else (Inr (), s\<lparr>dc_decoder := decoder_type\<rparr>))"

definition decoder_name :: "'t dc_service \<Rightarrow> string" where
  "decoder_name s = (if dc_decoder s = ''native'' then ''NativeDecoder'' else ''UnsupportedDecoder'')"

section \<open>Sessions and the heartbeat\<close>

definition stop_heartbeat :: "'t dc_service \<Rightarrow> 't dc_service" where
  "stop_heartbeat s = s\<lparr>dc_heartbeat_running := False, dc_heartbeat_stop_tx := False\<rparr>"

definition next_session :: "'t dc_service \<Rightarrow> 't dc_service" where
  "next_session s = s\<lparr>dc_events := set_generation (session_id s + 1) (dc_events s)\<rparr>"

definition announce_generation ::
  "('t, 'k) runtime \<Rightarrow> 't dc_service \<Rightarrow> (string + unit) \<times> 't dc_service" where
  "announce_generation W s =
     (case port_set_generation (rt_port W) (session_id s) (dc_transport s) of
        (result, t) \<Rightarrow> (result, s\<lparr>dc_transport := t\<rparr>))"

definition start_new_session :: "('t, 'k) runtime \<Rightarrow> 't dc_service \<Rightarrow> 't dc_service" where
  "start_new_session W s =
     (let s1 = s\<lparr>dc_diag := core_diagnostics_reset (dc_diag s)\<rparr>;
          s2 = snd (announce_generation W (next_session s1));
          s3 = (stop_heartbeat s2)\<lparr>dc_network_probe := False, dc_opened := False, dc_heartbeat_last := 0,
                                    dc_chunks := ca_clear (dc_chunks s2)\<rparr>
      in fail_all_pending ''DataChannel session reset'' s3)"

definition stop_background_tasks :: "('t, 'k) runtime \<Rightarrow> 't dc_service \<Rightarrow> 't dc_service" where
  "stop_background_tasks W s =
     start_new_session W ((stop_heartbeat s)\<lparr>dc_network_probe := False, dc_opened := False\<rparr>)"

definition prepare_ingress :: "('t, 'k) runtime \<Rightarrow> 't dc_service \<Rightarrow> (string + unit) \<times> 't dc_service" where
  "prepare_ingress W s = announce_generation W s"

definition dc_initial :: "'t \<Rightarrow> event_bus \<Rightarrow> lidar_pool \<Rightarrow> bool \<Rightarrow> u64 \<Rightarrow> u64 \<Rightarrow> 't dc_service" where
  "dc_initial transport events pool remote new_session_id initial_request_sequence =
     \<lparr>dc_transport = transport, dc_pending = [], dc_subscriptions = {}, dc_chunks = ca_default,
      dc_validation_key = [], dc_events = set_generation new_session_id events, dc_opened = False,
      dc_heartbeat_last = 0, dc_heartbeat_running = False, dc_heartbeat_stop_tx = False,
      dc_network_probe = False, dc_last_process = [], dc_decoder = ''native'', dc_lidar = pool,
      dc_is_remote = remote, dc_request_sequence = initial_request_sequence,
      dc_diag = core_diagnostics_new, dc_next_token = 0, dc_completed = []\<rparr>"

definition dc_try_new ::
  "('t, 'k) runtime \<Rightarrow> 't \<Rightarrow> event_bus \<Rightarrow> lidar_pool \<Rightarrow> bool \<Rightarrow> u64 \<Rightarrow> u64 \<Rightarrow> bool \<Rightarrow> string + 't dc_service" where
  "dc_try_new W transport events pool remote new_session_id initial_request_sequence spawned =
     (let s = snd (prepare_ingress W (dc_initial transport events pool remote new_session_id initial_request_sequence))
      in if spawned then Inr s else Inl ''Failed to start datachannel router'')"

text \<open>The loop condition and the locked part of one heartbeat iteration, in a thread started in session
  \<open>epoch\<close>; the flag says whether the loop goes on to its wait.\<close>

definition heartbeat_continues :: "u64 \<Rightarrow> bool \<Rightarrow> 't dc_service \<Rightarrow> bool" where
  "heartbeat_continues epoch owner_alive s \<longleftrightarrow> dc_heartbeat_running s \<and> session_id s = epoch \<and> owner_alive"

definition heartbeat_iteration ::
  "('t, 'k) runtime \<Rightarrow> moment \<Rightarrow> u64 \<Rightarrow> 't dc_service \<Rightarrow> bool \<times> 't dc_service" where
  "heartbeat_iteration W now epoch s =
     (if session_id s \<noteq> epoch then (False, s)
      else if dc_heartbeat_last s > 0 \<and> at_secs now - dc_heartbeat_last s > 6
      then
        let s1 = fail_all_pending ''Heartbeat timeout'' ((stop_heartbeat s)\<lparr>dc_opened := False\<rparr>)
        in (False, s1\<lparr>dc_chunks := ca_clear (dc_chunks s1)\<rparr>)
      else if port_ready_state (rt_port W) (dc_transport s) = ''open''
      then
        (True, snd (send_message_locked W now []
                 (Some (jobject [(''timeInStr'', JString (at_local now)), (''timeInNum'', JNumber (NInt (int (at_secs now))))]))
                 (dt_heartbeat dc_types) s))
      else (True, s))"

text \<open>Starting the heartbeat panics when the thread cannot be spawned.\<close>

definition start_heartbeat_in_session :: "moment \<Rightarrow> 't dc_service \<Rightarrow> 't dc_service option" where
  "start_heartbeat_in_session now s =
     (if dc_heartbeat_running s then Some s
      else if at_spawn now then Some (s\<lparr>dc_heartbeat_running := True, dc_heartbeat_stop_tx := True\<rparr>)
      else None)"

definition request_network_status_once :: "('t, 'k) runtime \<Rightarrow> moment \<Rightarrow> 't dc_service \<Rightarrow> 't dc_service" where
  "request_network_status_once W now s =
     (if dc_network_probe s then s
      else snd (send_message_locked W now []
             (Some (jobject [(''req_type'', JString ''public_network_status''), (''uuid'', JString (at_uuid now))]))
             (dt_rtc_inner_req dc_types) (s\<lparr>dc_network_probe := True\<rparr>)))"

section \<open>Ingress\<close>

text \<open>Where a message says it is a chunk: its metadata, its payload, and the path of the payload.\<close>

definition chunking :: "json \<Rightarrow> bool" where
  "chunking info \<longleftrightarrow> Option.bind (jget ''enable_chunking'' info) as_bool = Some True"

definition chunk_source :: "json \<Rightarrow> (json \<times> json option \<times> string list \<times> string) option" where
  "chunk_source message =
     (case (jpointer [''data'', ''content_info''] message, jpointer [''info'', ''file''] message) of
        (a, b) \<Rightarrow>
          if (case a of Some info \<Rightarrow> chunking info | None \<Rightarrow> False)
          then Some (the a, jpointer [''data'', ''data''] message, [''data'', ''data''], ''/data/data'')
          else if (case b of Some info \<Rightarrow> chunking info | None \<Rightarrow> False)
          then Some (the b, jget ''data'' (the b), [''info'', ''file'', ''data''], ''/info/file/data'')
          else None)"

definition parse_chunk ::
  "moment \<Rightarrow> string \<Rightarrow> json \<Rightarrow> json option \<Rightarrow> string \<Rightarrow> chunk_assembler \<Rightarrow> (string + bytes option) \<times> chunk_assembler" where
  "parse_chunk now key metadata payload path ca =
     (case Option.bind (jget ''chunk_index'' metadata) as_u64 of None \<Rightarrow> (Inl ''Invalid chunk index'', ca) | Some index \<Rightarrow>
     (case Option.bind (jget ''total_chunk_num'' metadata) as_u64 of None \<Rightarrow> (Inl ''Invalid chunk count'', ca) | Some tot \<Rightarrow>
     (case Option.bind payload value_to_chunk_bytes of None \<Rightarrow> (Inl ''Invalid chunk bytes'', ca) | Some bs \<Rightarrow>
        ca_insert key path index tot bs (at_instant now) ca)))"

definition handle_chunked_response ::
  "('t, 'k) runtime \<Rightarrow> moment \<Rightarrow> json \<Rightarrow> 't dc_service \<Rightarrow> (bool \<times> 't dc_service) option" where
  "handle_chunked_response W now message s =
     (case chunk_source message of
        None \<Rightarrow> Some (False, s)
      | Some (metadata, payload, path, path_text) \<Rightarrow>
          let key = incoming_key W message in
          (case parse_chunk now key metadata payload path_text (dc_chunks s) of
             (Inr (Some bs), ca) \<Rightarrow>
               let s1 = s\<lparr>dc_chunks := ca\<rparr> in
               if length bs > MAX_BINARY_EXPANSION_BYTES
               then Some (True, note_chunk now (fail_pending key ''Binary JSON expansion exceeds 1 MiB'' s1))
               else (case jpointer_set path (bytes_to_json_array bs) message of
                       None \<Rightarrow> None
                     | Some merged \<Rightarrow> Some (True, resolve_pending_response key merged s1))
           | (Inr None, ca) \<Rightarrow> Some (True, s\<lparr>dc_chunks := ca\<rparr>)
           | (Inl e, ca) \<Rightarrow>
               Some (True, note_chunk now (fail_pending key e (s\<lparr>dc_chunks := ca_remove key ca\<rparr>)))))"

definition run_resolve :: "('t, 'k) runtime \<Rightarrow> moment \<Rightarrow> json \<Rightarrow> 't dc_service \<Rightarrow> 't dc_service option" where
  "run_resolve W now message s =
     (if jget ''type'' message = None then Some s
      else case handle_chunked_response W now message s of
        None \<Rightarrow> None
      | Some (True, s1) \<Rightarrow> Some s1
      | Some (False, s1) \<Rightarrow> Some (resolve_pending_response (incoming_key W message) message s1))"

definition expire_chunks :: "moment \<Rightarrow> 't dc_service \<Rightarrow> 't dc_service" where
  "expire_chunks now s =
     (case ca_expire (at_instant now) (dc_chunks s) of
        (expired, ca) \<Rightarrow>
          fold (\<lambda>key. fail_pending key ''Chunk assembly deadline expired'') expired (s\<lparr>dc_chunks := ca\<rparr>))"

definition send_validation :: "('t, 'k) runtime \<Rightarrow> moment \<Rightarrow> string \<Rightarrow> 't dc_service \<Rightarrow> 't dc_service" where
  "send_validation W now key s =
     (case encrypt_key (rt_crypto W) key of
        Inl _ \<Rightarrow> s
      | Inr encrypted \<Rightarrow> snd (send_message_locked W now [] (Some (JString encrypted)) (dt_validation dc_types) s))"

definition handle_validation :: "('t, 'k) runtime \<Rightarrow> moment \<Rightarrow> json \<Rightarrow> 't dc_service \<Rightarrow> 't dc_service option" where
  "handle_validation W now message s =
     (case Option.bind (jget ''data'' message) as_str of
        None \<Rightarrow> Some s
      | Some key \<Rightarrow>
          if key = ''Validation Ok.''
          then map_option (request_network_status_once W now)
                 (start_heartbeat_in_session now (s\<lparr>dc_opened := True, dc_heartbeat_last := at_secs now\<rparr>))
          else Some (send_validation W now key (s\<lparr>dc_validation_key := key\<rparr>)))"

definition handle_validation_err :: "('t, 'k) runtime \<Rightarrow> moment \<Rightarrow> json \<Rightarrow> 't dc_service \<Rightarrow> 't dc_service" where
  "handle_validation_err W now message s =
     (if Option.bind (jget ''info'' message) as_str = Some ''Validation Needed.'' \<and> dc_validation_key s \<noteq> []
      then send_validation W now (dc_validation_key s) s else s)"

definition handle_rtc_inner_req :: "('t, 'k) runtime \<Rightarrow> moment \<Rightarrow> json \<Rightarrow> 't dc_service \<Rightarrow> 't dc_service" where
  "handle_rtc_inner_req W now message s =
     (case jget ''info'' message of
        None \<Rightarrow> s
      | Some info \<Rightarrow>
          let s1 = (if Option.bind (jget ''req_type'' info) as_str = Some ''rtt_probe_send_from_mechine''
                    then snd (send_message_locked W now [] (Some info) (dt_rtc_inner_req dc_types) s) else s)
          in case Option.bind (jget ''status'' info) as_str of
               Some status \<Rightarrow>
                 if status = ''NetworkStatus.ON_4G_CONNECTED'' \<or> status = ''NetworkStatus.ON_WIFI_CONNECTED''
                 then s1\<lparr>dc_network_probe := False\<rparr> else s1
             | None \<Rightarrow> s1)"

text \<open>\<open>handle_error_message\<close> only logs, so it leaves the service as it is.\<close>

definition handle_text_response :: "('t, 'k) runtime \<Rightarrow> moment \<Rightarrow> json \<Rightarrow> 't dc_service \<Rightarrow> 't dc_service option" where
  "handle_text_response W now message s =
     (let msg_type = str_field ''type'' message in
      if msg_type = dt_validation dc_types then handle_validation W now message s
      else if msg_type = dt_rtc_inner_req dc_types then Some (handle_rtc_inner_req W now message s)
      else if msg_type = dt_heartbeat dc_types then Some (s\<lparr>dc_heartbeat_last := at_secs now\<rparr>)
      else if msg_type = dt_err dc_types then Some (handle_validation_err W now message s)
      else Some s)"

definition dispatch_subscription :: "('t, 'k) runtime \<Rightarrow> moment \<Rightarrow> json \<Rightarrow> 't dc_service \<Rightarrow> 't dc_service" where
  "dispatch_subscription W now message s =
     (let topic = str_field ''topic'' message in
      if topic = [] then s
      else case should_process now topic s of
        (False, s1) \<Rightarrow> s1
      | (True, s1) \<Rightarrow>
          if topic \<notin> dc_subscriptions s1 then s1
          else (case try_send (rt_layout W) (session_id s1) (TopicCallback topic message) (dc_events s1) of
                  (Inr _, b) \<Rightarrow> s1\<lparr>dc_events := b\<rparr>
                | (Inl _, b) \<Rightarrow> note_callback now (s1\<lparr>dc_events := b\<rparr>)))"

definition reject_binary_response ::
  "('t, 'k) runtime \<Rightarrow> moment \<Rightarrow> json \<Rightarrow> string \<Rightarrow> 't dc_service \<Rightarrow> 't dc_service" where
  "reject_binary_response W now message reason s =
     (let key = incoming_key W message
      in note_lidar_invalid now (fail_pending key reason (s\<lparr>dc_chunks := ca_remove key (dc_chunks s)\<rparr>)))"

definition topic_or_type_of :: "json \<Rightarrow> string" where
  "topic_or_type_of d =
     unwrap_or_default (or_else (Option.bind (jget ''topic'' d) as_str) (Option.bind (jget ''type'' d) as_str))"

definition lidar_intent :: "binary_frame \<Rightarrow> json \<Rightarrow> bool" where
  "lidar_intent frame d \<longleftrightarrow>
     frame = Lidar \<or> starts_with (topic_or_type_of d) ''rt/utlidar/'' \<or>
     (case jget ''data'' d of
        None \<Rightarrow> False
      | Some dat \<Rightarrow> jget ''src_size'' dat \<noteq> None \<or> (jget ''origin'' dat \<noteq> None \<and> jget ''resolution'' dat \<noteq> None))"

text \<open>The outer option is the panic, the inner one the code's own result.\<close>

definition process_binary_payload ::
  "('t, 'k) runtime \<Rightarrow> moment \<Rightarrow> binary_frame \<Rightarrow> json \<Rightarrow> bytes \<Rightarrow> 't dc_service \<Rightarrow> (json option \<times> 't dc_service) option" where
  "process_binary_payload W now frame decoded_json binary_data s =
     (let topic_or_type = topic_or_type_of decoded_json;
          metadata = Option.bind (jget ''data'' decoded_json) metadata_from_json in
      case metadata of
        None \<Rightarrow>
          if lidar_intent frame decoded_json
          then Some (None, reject_binary_response W now decoded_json ''Invalid LiDAR metadata'' s)
          else if length binary_data > MAX_BINARY_EXPANSION_BYTES
          then
            let key = incoming_key W decoded_json
            in Some (None, note_binary now (fail_pending key ''Binary JSON expansion exceeds 1 MiB''
                   (s\<lparr>dc_chunks := ca_remove key (dc_chunks s)\<rparr>)))
          else (case should_process now topic_or_type s of
                  (False, s1) \<Rightarrow> Some (None, s1)
                | (True, s1) \<Rightarrow>
                    map_option (\<lambda>v. (Some v, s1)) (inject_binary_data decoded_json binary_data))
      | Some md \<Rightarrow>
          if length binary_data > MAX_COMPRESSED_BYTES
          then Some (None, reject_binary_response W now decoded_json ''LiDAR compressed size exceeds resource budget'' s)
          else if dc_decoder s \<noteq> ''native''
          then Some (None, reject_binary_response W now decoded_json ''Unsupported LiDAR decoder'' s)
          else (case should_process now topic_or_type s of
                  (False, s1) \<Rightarrow> Some (None, s1)
                | (True, s1) \<Rightarrow>
                    let key = incoming_key W decoded_json;
                        request = \<lparr>lr_generation = session_id s1, lr_topic = topic_or_type, lr_payload = decoded_json,
                                   lr_compressed = binary_data, lr_metadata = md\<rparr>
                    in (case submit request (dc_lidar s1) of
                          (Inr _, pool) \<Rightarrow> Some (None, s1\<lparr>dc_lidar := pool\<rparr>)
                        | (Inl e, pool) \<Rightarrow>
                            Some (None, note_lidar_submit now (fail_pending key e (s1\<lparr>dc_lidar := pool\<rparr>))))))"

definition deal_array_buffer ::
  "('t, 'k) runtime \<Rightarrow> moment \<Rightarrow> bytes \<Rightarrow> 't dc_service \<Rightarrow> (json option \<times> 't dc_service) option" where
  "deal_array_buffer W now buffer s =
     (if length buffer > MAX_BINARY_BYTES then Some (None, note_binary now s)
      else case parse (rt_deserialize W) buffer of
        Inl _ \<Rightarrow> Some (None, note_binary now s)
      | Inr (frame, header, payload) \<Rightarrow> process_binary_payload W now frame header payload s)"

definition process_fault :: "('t, 'k) runtime \<Rightarrow> moment \<Rightarrow> string \<Rightarrow> 't dc_service \<Rightarrow> 't dc_service" where
  "process_fault W now err s =
     (let (result, s1) = announce_generation W (next_session s);
          s2 = (case result of Inl _ \<Rightarrow> note_control_send now s1 | Inr _ \<Rightarrow> s1);
          s3 = (stop_heartbeat s2)\<lparr>dc_opened := False, dc_network_probe := False, dc_chunks := ca_clear (dc_chunks s2)\<rparr>
      in fail_all_pending err s3)"

definition process_ingress :: "('t, 'k) runtime \<Rightarrow> moment \<Rightarrow> ingress_message \<Rightarrow> 't dc_service \<Rightarrow> 't dc_service option" where
  "process_ingress W now message s =
     (if im_generation message \<noteq> session_id s then Some s
      else case im_payload message of
        TransportFault err \<Rightarrow> Some (process_fault W now err s)
      | Text txt \<Rightarrow>
          (case parse_json (rt_deserialize W) (str_bytes txt) of
             Inl _ \<Rightarrow> Some (note_parse now s)
           | Inr parsed \<Rightarrow>
               (case run_resolve W now parsed s of
                  None \<Rightarrow> None
                | Some s1 \<Rightarrow> map_option (dispatch_subscription W now parsed) (handle_text_response W now parsed s1)))
      | Binary bs \<Rightarrow>
          (case deal_array_buffer W now bs s of
             None \<Rightarrow> None
           | Some (None, s1) \<Rightarrow> Some s1
           | Some (Some parsed, s1) \<Rightarrow> map_option (dispatch_subscription W now parsed) (run_resolve W now parsed s1)))"

text \<open>One iteration of the router loop: a retained transport fault first, then the expired chunk
  transfers, then the next message, if one arrived within the wait.\<close>

definition router_iteration ::
  "('t, 'k) runtime \<Rightarrow> moment \<Rightarrow> ingress_message option \<Rightarrow> 't dc_service \<Rightarrow> 't dc_service option" where
  "router_iteration W now incoming s =
     (let (fault, t) = port_take_error (rt_port W) (dc_transport s);
          s1 = s\<lparr>dc_transport := t\<rparr>
      in case (case fault of None \<Rightarrow> Some s1 | Some f \<Rightarrow> process_ingress W now f s1) of
           None \<Rightarrow> None
         | Some s2 \<Rightarrow>
             let s3 = expire_chunks now s2
             in (case incoming of None \<Rightarrow> Some s3 | Some message \<Rightarrow> process_ingress W now message s3))"

end
