(* ===== verification/Data_Channel_Invariant.thy ===== *)
theory Data_Channel_Invariant
  imports Data_Channel
begin

text \<open>
  The invariant of the data channel service, that every operation keeps it, and the interleavings of
  the service's users (callers, the router, the heartbeat thread, the LiDAR workers and the callback
  dispatcher) as a step relation.
\<close>

definition tokens :: "'t dc_service \<Rightarrow> nat list" where
  "tokens s = map (\<lambda>p. pc_token (snd p)) (dc_pending s)"

text \<open>Everything but the sessions of the pending requests: it also holds half-way through a reset.\<close>

definition base_inv :: "layout \<Rightarrow> 't dc_service \<Rightarrow> bool" where
  "base_inv L s \<longleftrightarrow>
     hm_invar (dc_pending s) \<and> length (dc_pending s) \<le> MAX_PENDING_REQUESTS \<and>
     distinct (tokens s @ map fst (dc_completed s)) \<and>
     (\<forall>t\<in>set (tokens s) \<union> set (map fst (dc_completed s)). t < dc_next_token s) \<and>
     chunks_inv (dc_chunks s) \<and> bus_inv L (dc_events s) \<and> pool_inv (dc_lidar s) \<and> dc_decoder s = ''native''"

definition dc_inv :: "layout \<Rightarrow> 't dc_service \<Rightarrow> bool" where
  "dc_inv L s \<longleftrightarrow> base_inv L s \<and> (\<forall>p\<in>set (dc_pending s). pc_session (snd p) = session_id s)"

section \<open>Fields the invariant does not read\<close>

lemma base_inv_frame [simp]:
  "base_inv L (s\<lparr>dc_transport := t\<rparr>) = base_inv L s" "base_inv L (s\<lparr>dc_subscriptions := x1\<rparr>) = base_inv L s"
  "base_inv L (s\<lparr>dc_validation_key := x2\<rparr>) = base_inv L s" "base_inv L (s\<lparr>dc_opened := x3\<rparr>) = base_inv L s"
  "base_inv L (s\<lparr>dc_heartbeat_last := x4\<rparr>) = base_inv L s" "base_inv L (s\<lparr>dc_heartbeat_running := x5\<rparr>) = base_inv L s"
  "base_inv L (s\<lparr>dc_heartbeat_stop_tx := x6\<rparr>) = base_inv L s" "base_inv L (s\<lparr>dc_network_probe := x7\<rparr>) = base_inv L s"
  "base_inv L (s\<lparr>dc_last_process := x8\<rparr>) = base_inv L s" "base_inv L (s\<lparr>dc_is_remote := x9\<rparr>) = base_inv L s"
  "base_inv L (s\<lparr>dc_request_sequence := x10\<rparr>) = base_inv L s" "base_inv L (s\<lparr>dc_diag := x11\<rparr>) = base_inv L s"
  by (simp_all add: base_inv_def tokens_def)

lemma dc_inv_frame [simp]:
  "dc_inv L (s\<lparr>dc_transport := t\<rparr>) = dc_inv L s" "dc_inv L (s\<lparr>dc_subscriptions := x1\<rparr>) = dc_inv L s"
  "dc_inv L (s\<lparr>dc_validation_key := x2\<rparr>) = dc_inv L s" "dc_inv L (s\<lparr>dc_opened := x3\<rparr>) = dc_inv L s"
  "dc_inv L (s\<lparr>dc_heartbeat_last := x4\<rparr>) = dc_inv L s" "dc_inv L (s\<lparr>dc_heartbeat_running := x5\<rparr>) = dc_inv L s"
  "dc_inv L (s\<lparr>dc_heartbeat_stop_tx := x6\<rparr>) = dc_inv L s" "dc_inv L (s\<lparr>dc_network_probe := x7\<rparr>) = dc_inv L s"
  "dc_inv L (s\<lparr>dc_last_process := x8\<rparr>) = dc_inv L s" "dc_inv L (s\<lparr>dc_is_remote := x9\<rparr>) = dc_inv L s"
  "dc_inv L (s\<lparr>dc_request_sequence := x10\<rparr>) = dc_inv L s" "dc_inv L (s\<lparr>dc_diag := x11\<rparr>) = dc_inv L s"
  by (simp_all add: dc_inv_def session_id_def)

lemmas note_defs =
  note_parse_def note_chunk_def note_callback_def note_binary_def note_lidar_submit_def
  note_lidar_invalid_def note_control_send_def

lemma dc_inv_notes [simp]:
  "dc_inv L (note_parse now s) = dc_inv L s" "dc_inv L (note_chunk now s) = dc_inv L s"
  "dc_inv L (note_callback now s) = dc_inv L s" "dc_inv L (note_binary now s) = dc_inv L s"
  "dc_inv L (note_lidar_submit now s) = dc_inv L s" "dc_inv L (note_lidar_invalid now s) = dc_inv L s"
  "dc_inv L (note_control_send now s) = dc_inv L s"
  by (simp_all add: note_defs)

lemma dc_inv_send [simp]: "dc_inv L (snd (send_message_locked W now topic d ty s)) = dc_inv L s"
  by (auto simp: send_message_locked_def Let_def split: sum.splits prod.splits)

lemma dc_inv_announce [simp]: "dc_inv L (snd (announce_generation W s)) = dc_inv L s"
  "base_inv L (snd (announce_generation W s)) = base_inv L s"
  by (simp_all add: announce_generation_def split: prod.splits)

lemma dc_inv_should_process [simp]: "dc_inv L (snd (should_process now t s)) = dc_inv L s"
  by (auto simp: should_process_def Let_def split: option.splits)

lemma dc_inv_base: "dc_inv L s \<Longrightarrow> base_inv L s"
  by (simp add: dc_inv_def)

section \<open>Components\<close>

lemma dc_inv_chunks: "dc_inv L s \<Longrightarrow> chunks_inv ca \<Longrightarrow> dc_inv L (s\<lparr>dc_chunks := ca\<rparr>)"
  by (simp add: dc_inv_def base_inv_def tokens_def session_id_def)

lemma base_inv_chunks: "base_inv L s \<Longrightarrow> chunks_inv ca \<Longrightarrow> base_inv L (s\<lparr>dc_chunks := ca\<rparr>)"
  by (simp add: base_inv_def tokens_def)

lemma dc_inv_chunks_inv: "dc_inv L s \<Longrightarrow> chunks_inv (dc_chunks s)"
  by (simp add: dc_inv_def base_inv_def)

lemma dc_inv_events:
  "dc_inv L s \<Longrightarrow> bus_inv L b \<Longrightarrow> eb_current b = session_id s \<Longrightarrow> dc_inv L (s\<lparr>dc_events := b\<rparr>)"
  by (simp add: dc_inv_def base_inv_def tokens_def session_id_def)

lemma dc_inv_bus: "dc_inv L s \<Longrightarrow> bus_inv L (dc_events s)"
  by (simp add: dc_inv_def base_inv_def)

lemma dc_inv_lidar: "dc_inv L s \<Longrightarrow> pool_inv p \<Longrightarrow> dc_inv L (s\<lparr>dc_lidar := p\<rparr>)"
  by (simp add: dc_inv_def base_inv_def tokens_def session_id_def)

lemma dc_inv_pool: "dc_inv L s \<Longrightarrow> pool_inv (dc_lidar s)"
  by (simp add: dc_inv_def base_inv_def)

lemma base_inv_next_session: "base_inv L s \<Longrightarrow> base_inv L (next_session s)"
  by (auto simp: base_inv_def tokens_def next_session_def
      intro: inv_bus_step [OF bus_step.new_generation])

section \<open>Pending requests\<close>

lemma hm_split:
  assumes "hm_invar m" "map_of m k = Some v"
  obtains xs ys where "m = xs @ (k, v) # ys" "hm_remove k m = xs @ ys"
proof -
  from assms(2) obtain xs ys where m: "m = xs @ (k, v) # ys"
    by (meson map_of_SomeD split_list)
  then have "k \<notin> fst ` set xs" "k \<notin> fst ` set ys" using assms(1) by (auto simp: hm_invar_def)
  then have "filter (\<lambda>p. fst p \<noteq> k) xs = xs" "filter (\<lambda>p. fst p \<noteq> k) ys = ys"
    by (auto intro!: filter_True)
  then have "hm_remove k m = xs @ ys"
    by (simp add: m hm_remove_def)
  with m that show ?thesis by blast
qed

lemma dc_inv_remove:
  assumes inv: "dc_inv L s" and c: "map_of (dc_pending s) key = Some c"
  shows "dc_inv L (s\<lparr>dc_pending := hm_remove key (dc_pending s)\<rparr>)"
    and "dc_inv L (complete (pc_token c) r (s\<lparr>dc_pending := hm_remove key (dc_pending s)\<rparr>))"
proof -
  have hm: "hm_invar (dc_pending s)" using inv by (simp add: dc_inv_def base_inv_def)
  obtain xs ys where m: "dc_pending s = xs @ (key, c) # ys" and rm: "hm_remove key (dc_pending s) = xs @ ys"
    using hm_split [OF hm c] by blast
  show "dc_inv L (s\<lparr>dc_pending := hm_remove key (dc_pending s)\<rparr>)"
    using inv unfolding rm by (auto simp: dc_inv_def base_inv_def tokens_def m hm_invar_def session_id_def)
  show "dc_inv L (complete (pc_token c) r (s\<lparr>dc_pending := hm_remove key (dc_pending s)\<rparr>))"
    using inv unfolding rm by (auto simp: dc_inv_def base_inv_def tokens_def complete_def m hm_invar_def session_id_def)
qed

lemma dc_inv_fail_pending: "dc_inv L s \<Longrightarrow> dc_inv L (fail_pending key e s)"
  by (simp add: fail_pending_def dc_inv_remove(2) split: option.splits)

lemma dc_inv_resolve: "dc_inv L s \<Longrightarrow> dc_inv L (resolve_pending_response key msg s)"
  by (simp add: resolve_pending_response_def Let_def dc_inv_remove(2) split: option.splits)

lemma dc_inv_guard_drop: "dc_inv L s \<Longrightarrow> dc_inv L (guard_drop key token s)"
proof (cases "map_of (dc_pending s) key")
  case (Some c)
  assume inv: "dc_inv L s"
  have "dc_inv L (s\<lparr>dc_pending := hm_remove key (dc_pending s)\<rparr>)" by (rule dc_inv_remove(1) [OF inv Some])
  then have "dc_inv L (s\<lparr>dc_pending := hm_remove key (dc_pending s)\<rparr>\<lparr>dc_chunks := ca_remove key (dc_chunks s)\<rparr>)"
    by (rule dc_inv_chunks) (rule chunks_inv_remove [OF dc_inv_chunks_inv [OF inv]])
  with inv Some show ?thesis by (simp add: guard_drop_def)
qed (simp add: guard_drop_def)

lemma fail_all_pending_eq:
  "fail_all_pending reason s =
     s\<lparr>dc_pending := [], dc_completed := dc_completed s @ map (\<lambda>t. (t, Inl reason)) (tokens s)\<rparr>"
proof -
  have "fold (\<lambda>(_, c). complete (pc_token c) (Inl reason)) ps x =
      x\<lparr>dc_completed := dc_completed x @ map (\<lambda>p. (pc_token (snd p), Inl reason)) ps\<rparr>" for ps :: "(string \<times> pending_callback) list" and x :: "'a dc_service"
    by (induction ps arbitrary: x) (auto simp: complete_def)
  then show ?thesis by (simp add: fail_all_pending_def tokens_def comp_def)
qed

lemma dc_inv_fail_all: "base_inv L s \<Longrightarrow> dc_inv L (fail_all_pending reason s)"
  unfolding fail_all_pending_eq
  by (auto simp: dc_inv_def base_inv_def tokens_def hm_invar_def comp_def)
lemma dc_inv_register:
  assumes inv: "dc_inv L s" and new: "map_of (dc_pending s) key = None" and room: "length (dc_pending s) < MAX_PENDING_REQUESTS"
  shows "dc_inv L (s\<lparr>dc_pending := hm_insert key \<lparr>pc_token = dc_next_token s, pc_expectation = e, pc_session = session_id s\<rparr>
      (dc_pending s), dc_next_token := Suc (dc_next_token s)\<rparr>)"
proof -
  let ?c = "\<lparr>pc_token = dc_next_token s, pc_expectation = e, pc_session = session_id s\<rparr>"
  have "hm_insert key ?c m = m @ [(key, ?c)]" if "map_of m key = None" for m
    using that unfolding hm_insert_def by (induction m) (auto split: if_splits)
  then have eq: "hm_insert key ?c (dc_pending s) = dc_pending s @ [(key, ?c)]" using new .
  have fresh: "key \<notin> fst ` set (dc_pending s)" using new by (simp add: map_of_eq_None_iff)
  show ?thesis
    using inv room fresh unfolding eq
    by (auto simp: dc_inv_def base_inv_def tokens_def hm_invar_def session_id_def less_Suc_eq)
qed

lemma dc_inv_publish_begin: "dc_inv L s \<Longrightarrow> dc_inv L (snd (publish_begin W now topic d ty timeout e s))"
proof -
  assume inv: "dc_inv L s"
  define ty' where "ty' = (case ty of Some t \<Rightarrow> t | None \<Rightarrow> dt_msg dc_types)"
  define key where "key = generate_message_key ty' topic (Option.bind d (outgoing_identifier_from_data W))"
  let ?s1 = "s\<lparr>dc_pending := hm_insert key \<lparr>pc_token = dc_next_token s, pc_expectation = e, pc_session = session_id s\<rparr>
      (dc_pending s), dc_next_token := Suc (dc_next_token s)\<rparr>"
  have s1: "dc_inv L ?s1" if "map_of (dc_pending s) key = None" "length (dc_pending s) < MAX_PENDING_REQUESTS"
    using dc_inv_register [OF inv that] .
  have sent: "dc_inv L (snd (send_message_locked W now topic d ty' ?s1))"
    if "map_of (dc_pending s) key = None" "length (dc_pending s) < MAX_PENDING_REQUESTS"
    using s1 [OF that] by simp
  obtain r s2 where send: "send_message_locked W now topic d ty' ?s1 = (r, s2)" by (cases "send_message_locked W now topic d ty' ?s1")
  have s2: "dc_inv L s2" if "map_of (dc_pending s) key = None" "length (dc_pending s) < MAX_PENDING_REQUESTS"
    using sent [OF that] unfolding send by simp
  show ?thesis
    using inv s2 unfolding publish_begin_def Let_def ty'_def [symmetric] key_def [symmetric] send
    by (auto simp: not_le dc_inv_guard_drop split: sum.splits)
qed

lemma dc_inv_publish_end: "dc_inv L s \<Longrightarrow> dc_inv L (snd (publish_end W w tk s))"
  by (simp add: publish_end_def Let_def dc_inv_guard_drop)

lemma dc_inv_publish_request_new: "dc_inv L s \<Longrightarrow> dc_inv L (snd (publish_request_new W now topic options t s))"
  by (auto simp: publish_request_new_def generated_identity_id_def Let_def dc_inv_publish_begin
      split: option.splits)

lemma dc_inv_subscribe: "dc_inv L s \<Longrightarrow> dc_inv L (snd (subscribe W now topic s))"
  using dc_inv_send [of L W now topic None "dt_subscribe dc_types" s]
  by (auto simp: subscribe_def split: prod.splits sum.splits simp del: dc_inv_send)

lemma dc_inv_unsubscribe: "dc_inv L s \<Longrightarrow> dc_inv L (snd (unsubscribe W now topic s))"
  using dc_inv_send [of L W now topic None "dt_unsubscribe dc_types" s]
  by (auto simp: unsubscribe_def split: prod.splits sum.splits simp del: dc_inv_send)

lemma dc_inv_set_decoder: "dc_inv L s \<Longrightarrow> dc_inv L (snd (set_decoder ty s))"
  by (auto simp: set_decoder_def dc_inv_def base_inv_def tokens_def session_id_def)

section \<open>Sessions, heartbeat, ingress\<close>

lemma base_inv_stop [simp]: "base_inv L (stop_heartbeat s) = base_inv L s" "dc_inv L (stop_heartbeat s) = dc_inv L s"
  by (simp_all add: stop_heartbeat_def)

lemma dc_inv_start_new_session: "base_inv L s \<Longrightarrow> dc_inv L (start_new_session W s)"
  by (auto simp: start_new_session_def Let_def chunks_inv_clear base_inv_next_session
      intro!: dc_inv_fail_all base_inv_chunks)

lemma dc_inv_stop_background: "dc_inv L s \<Longrightarrow> dc_inv L (stop_background_tasks W s)"
  by (simp add: stop_background_tasks_def dc_inv_start_new_session dc_inv_base)

lemma dc_inv_process_fault: "dc_inv L s \<Longrightarrow> dc_inv L (process_fault W now err s)"
proof -
  assume inv: "dc_inv L s"
  have "base_inv L (snd (announce_generation W (next_session s)))"
    using inv by (simp add: base_inv_next_session dc_inv_base)
  then show ?thesis
    by (cases "announce_generation W (next_session s)")
      (auto simp: process_fault_def note_control_send_def chunks_inv_clear split: sum.splits simp del: dc_inv_announce
        intro!: dc_inv_fail_all base_inv_chunks)
qed

lemma dc_inv_heartbeat: "dc_inv L s \<Longrightarrow> dc_inv L (snd (heartbeat_iteration W now epoch s))"
  by (auto simp: heartbeat_iteration_def Let_def chunks_inv_clear dc_inv_base intro!: dc_inv_chunks dc_inv_fail_all)

lemma dc_inv_expire_chunks: "dc_inv L s \<Longrightarrow> dc_inv L (expire_chunks now s)"
proof -
  assume inv: "dc_inv L s"
  have step: "dc_inv L (fold (\<lambda>key. fail_pending key e) ks x)" if "dc_inv L x" for ks e and x :: "'a dc_service"
    using that by (induction ks arbitrary: x) (simp_all add: dc_inv_fail_pending)
  have "chunks_inv (snd (ca_expire (at_instant now) (dc_chunks s)))"
    using dc_inv_chunks_inv [OF inv] by (rule chunks_inv_expire)
  then show ?thesis
    unfolding expire_chunks_def by (cases "ca_expire (at_instant now) (dc_chunks s)") (auto intro!: step dc_inv_chunks inv)
qed

lemma chunks_inv_parse_chunk: "chunks_inv ca \<Longrightarrow> chunks_inv (snd (parse_chunk now key metadata payload path ca))"
  by (auto simp: parse_chunk_def chunks_inv_insert split: option.splits)

lemma dc_inv_handle_chunked:
  assumes inv: "dc_inv L s" and res: "handle_chunked_response W now msg s = Some (b, s')"
  shows "dc_inv L s'"
proof (cases "chunk_source msg")
  case None
  with inv res show ?thesis by (simp add: handle_chunked_response_def)
next
  case (Some src)
  obtain metadata payload path path_text where src: "src = (metadata, payload, path, path_text)" by (cases src)
  define key where "key = incoming_key W msg"
  obtain r ca where pc: "parse_chunk now key metadata payload path_text (dc_chunks s) = (r, ca)" by (cases "parse_chunk now key metadata payload path_text (dc_chunks s)")
  have ca: "chunks_inv ca"
    using chunks_inv_parse_chunk [OF dc_inv_chunks_inv [OF inv], of now key metadata payload path_text] by (simp add: pc)
  show ?thesis
    using res inv ca unfolding handle_chunked_response_def Some src Let_def key_def [symmetric] prod.case option.case pc
    by (auto split: option.splits sum.splits if_splits
        intro!: dc_inv_fail_pending dc_inv_resolve dc_inv_chunks chunks_inv_remove)
qed

lemma dc_inv_run_resolve:
  assumes inv: "dc_inv L s" and res: "run_resolve W now msg s = Some s'"
  shows "dc_inv L s'"
proof (cases "handle_chunked_response W now msg s")
  case None
  with inv res show ?thesis by (auto simp: run_resolve_def split: if_splits)
next
  case (Some r)
  obtain b s1 where r: "r = (b, s1)" by (cases r)
  have "dc_inv L s1" using dc_inv_handle_chunked [OF inv] Some r by blast
  with inv res Some r show ?thesis
    by (cases b) (auto simp: run_resolve_def dc_inv_resolve split: if_splits)
qed

lemma dc_inv_send_validation [simp]: "dc_inv L (send_validation W now key s) = dc_inv L s"
  by (simp add: send_validation_def split: sum.splits)

lemma dc_inv_network_once [simp]: "dc_inv L (request_network_status_once W now s) = dc_inv L s"
  by (simp add: request_network_status_once_def)

lemma dc_inv_start_heartbeat: "start_heartbeat_in_session now s = Some s' \<Longrightarrow> dc_inv L s' = dc_inv L s"
  by (auto simp: start_heartbeat_in_session_def split: if_splits)

lemma dc_inv_handle_validation: "dc_inv L s \<Longrightarrow> handle_validation W now msg s = Some s' \<Longrightarrow> dc_inv L s'"
  by (auto simp: handle_validation_def split: option.splits if_splits dest!: dc_inv_start_heartbeat [where L = L])

lemma dc_inv_rtc_inner_req [simp]: "dc_inv L (handle_rtc_inner_req W now msg s) = dc_inv L s"
  by (simp add: handle_rtc_inner_req_def Let_def split: option.splits)

lemma dc_inv_validation_err [simp]: "dc_inv L (handle_validation_err W now msg s) = dc_inv L s"
  by (simp add: handle_validation_err_def)

lemma dc_inv_text_response: "dc_inv L s \<Longrightarrow> handle_text_response W now msg s = Some s' \<Longrightarrow> dc_inv L s'"
  by (auto simp: handle_text_response_def Let_def split: if_splits intro: dc_inv_handle_validation)

lemma permit_current [simp]: "eb_current (snd (try_send L g ev b)) = eb_current b"
  by (auto simp: try_send_def try_send_locked_def Let_def split: prod.splits option.splits)

lemma dc_inv_dispatch:
  assumes inv: "dc_inv (rt_layout W) s"
  shows "dc_inv (rt_layout W) (dispatch_subscription W now msg s)"
proof -
  define topic where "topic = str_field ''topic'' msg"
  obtain go s1 where sp: "should_process now topic s = (go, s1)" by (cases "should_process now topic s")
  have s1: "dc_inv (rt_layout W) s1" using inv dc_inv_should_process [of "rt_layout W" now topic s] by (simp add: sp)
  obtain r b where ts: "try_send (rt_layout W) (session_id s1) (TopicCallback topic msg) (dc_events s1) = (r, b)"
    by (cases "try_send (rt_layout W) (session_id s1) (TopicCallback topic msg) (dc_events s1)")
  have "bus_inv (rt_layout W) b" "eb_current b = session_id s1"
    using inv_try_send [OF dc_inv_bus [OF s1], of "session_id s1" "TopicCallback topic msg"]
      permit_current [of "rt_layout W" "session_id s1" "TopicCallback topic msg" "dc_events s1"]
    unfolding ts by (simp_all add: session_id_def)
  then have "dc_inv (rt_layout W) (s1\<lparr>dc_events := b\<rparr>)" using s1 by (intro dc_inv_events)
  with inv s1 show ?thesis
    unfolding dispatch_subscription_def Let_def topic_def [symmetric] sp ts prod.case
    by (auto split: sum.splits bool.splits)
qed

lemma dc_inv_reject_binary: "dc_inv L s \<Longrightarrow> dc_inv L (reject_binary_response W now msg reason s)"
  by (auto simp: reject_binary_response_def Let_def
      intro!: dc_inv_fail_pending dc_inv_chunks chunks_inv_remove dest: dc_inv_chunks_inv)

lemma dc_inv_submit:
  assumes "dc_inv L s"
  shows "dc_inv L (s\<lparr>dc_lidar := snd (submit r (dc_lidar s))\<rparr>)"
  using pool_step_inv [OF dc_inv_pool [OF assms], of "Submit r"] by (simp add: dc_inv_lidar [OF assms])

lemma dc_inv_binary_payload:
  assumes inv: "dc_inv L s" and res: "process_binary_payload W now frame d bin s = Some (out, s')"
  shows "dc_inv L s'"
proof -
  define key where "key = incoming_key W d"
  obtain go s1 where sp: "should_process now (topic_or_type_of d) s = (go, s1)"
    by (cases "should_process now (topic_or_type_of d) s")
  have s1: "dc_inv L s1" using inv dc_inv_should_process [of L now "topic_or_type_of d" s] by (simp add: sp)
  have removed: "dc_inv L (s\<lparr>dc_chunks := ca_remove key (dc_chunks s)\<rparr>)"
    by (intro dc_inv_chunks inv chunks_inv_remove dc_inv_chunks_inv [OF inv])
  show ?thesis
  proof (cases "Option.bind (jget ''data'' d) metadata_from_json")
    case None
    with res inv s1 removed show ?thesis
      unfolding process_binary_payload_def Let_def key_def [symmetric] sp
      by (auto split: if_splits bool.splits intro: dc_inv_reject_binary dc_inv_fail_pending)
  next
    case (Some md)
    define request where "request = \<lparr>lr_generation = session_id s1, lr_topic = topic_or_type_of d, lr_payload = d,
        lr_compressed = bin, lr_metadata = md\<rparr>"
    obtain r pool where sub: "submit request (dc_lidar s1) = (r, pool)" by (cases "submit request (dc_lidar s1)")
    have "dc_inv L (s1\<lparr>dc_lidar := pool\<rparr>)" using dc_inv_submit [OF s1, of request] unfolding sub by simp
    with res inv s1 Some show ?thesis
      unfolding process_binary_payload_def Let_def key_def [symmetric] sp
      by (auto simp: sub [unfolded request_def] split: if_splits bool.splits sum.splits intro: dc_inv_reject_binary dc_inv_fail_pending)
  qed
qed

lemma dc_inv_deal_array_buffer:
  assumes "dc_inv L s" "deal_array_buffer W now bs s = Some (out, s')"
  shows "dc_inv L s'"
  using assms by (auto simp: deal_array_buffer_def split: if_splits sum.splits dest: dc_inv_binary_payload)

lemma dc_inv_process_ingress:
  assumes inv: "dc_inv (rt_layout W) s" and res: "process_ingress W now msg s = Some s'"
  shows "dc_inv (rt_layout W) s'"
proof (cases "im_generation msg = session_id s")
  case False
  with inv res show ?thesis by (simp add: process_ingress_def)
next
  case current: True
  show ?thesis
  proof (cases "im_payload msg")
    case (TransportFault e)
    with inv res current show ?thesis by (auto simp: process_ingress_def dc_inv_process_fault)
  next
    case (Text body)
    with inv res current show ?thesis
      by (auto simp: process_ingress_def split: sum.splits option.splits
          dest: dc_inv_run_resolve dc_inv_text_response intro!: dc_inv_dispatch)
  next
    case (Binary bs)
    obtain out s1 where dab: "deal_array_buffer W now bs s = Some (out, s1)"
      using res current Binary by (cases "deal_array_buffer W now bs s") (auto simp: process_ingress_def)
    have "dc_inv (rt_layout W) s1" by (rule dc_inv_deal_array_buffer [OF inv dab])
    with res current Binary dab show ?thesis
      by (cases out) (auto simp: process_ingress_def dest: dc_inv_run_resolve intro!: dc_inv_dispatch)
  qed
qed

lemma dc_inv_router:
  assumes inv: "dc_inv (rt_layout W) s" and res: "router_iteration W now incoming s = Some s'"
  shows "dc_inv (rt_layout W) s'"
proof -
  obtain fault t where te: "port_take_error (rt_port W) (dc_transport s) = (fault, t)"
    by (cases "port_take_error (rt_port W) (dc_transport s)")
  let ?s1 = "s\<lparr>dc_transport := t\<rparr>"
  have s1: "dc_inv (rt_layout W) ?s1" using inv by simp
  obtain s2 where s2: "(case fault of None \<Rightarrow> Some ?s1 | Some f \<Rightarrow> process_ingress W now f ?s1) = Some s2"
    using res by (auto simp: router_iteration_def te Let_def split: option.splits)
  have "dc_inv (rt_layout W) s2"
    using s2 s1 by (auto split: option.splits dest: dc_inv_process_ingress [OF s1])
  then have "dc_inv (rt_layout W) (expire_chunks now s2)" by (rule dc_inv_expire_chunks)
  with res show ?thesis
    unfolding router_iteration_def te Let_def prod.case s2
    by (auto split: option.splits intro: dc_inv_process_ingress)
qed

section \<open>Interleavings\<close>

text \<open>The service's own steps, then those of its surroundings: the transport's activity is arbitrary here.\<close>

inductive service_step :: "('t, 'k) runtime \<Rightarrow> 't dc_service \<Rightarrow> 't dc_service \<Rightarrow> bool" for W where
  publish: "service_step W s (snd (publish_begin W now topic d ty timeout e s))"
| request: "service_step W s (snd (publish_request_new W now topic options timeout s))"
| resume: "service_step W s (snd (publish_end W w tk s))"
| send: "service_step W s (snd (publish_without_callback W now topic d mt s))"
| subscribe: "service_step W s (snd (subscribe W now topic s))"
| unsubscribe: "service_step W s (snd (unsubscribe W now topic s))"
| set_decoder: "service_step W s (snd (set_decoder ty s))"
| new_session: "service_step W s (start_new_session W s)"
| stop: "service_step W s (stop_background_tasks W s)"
| prepare: "service_step W s (snd (prepare_ingress W s))"
| heartbeat: "service_step W s (snd (heartbeat_iteration W now epoch s))"
| route: "router_iteration W now incoming s = Some s' \<Longrightarrow> service_step W s s'"
| bus: "bus_step (rt_layout W) (dc_events s) b \<Longrightarrow> eb_current b = session_id s \<Longrightarrow> service_step W s (s\<lparr>dc_events := b\<rparr>)"
    \<comment> \<open>LiDAR workers, media tracks and the callback dispatcher\<close>
| worker: "service_step W s (s\<lparr>dc_lidar := snd (pool_recv (dc_lidar s))\<rparr>)"

inductive dc_step :: "('t, 'k) runtime \<Rightarrow> 't dc_service \<Rightarrow> 't dc_service \<Rightarrow> bool" for W where
  service: "service_step W s s' \<Longrightarrow> dc_step W s s'"
| transport: "dc_step W s (s\<lparr>dc_transport := t\<rparr>)"

inductive dc_reachable :: "('t, 'k) runtime \<Rightarrow> 't dc_service \<Rightarrow> bool" for W where
  start: "bus_reachable (rt_layout W) events \<Longrightarrow> lidar_pool_try_new spawn n = Inr pool \<Longrightarrow>
    dc_try_new W t events pool remote session seq spawned = Inr s \<Longrightarrow> dc_reachable W s"
| step: "dc_reachable W s \<Longrightarrow> dc_step W s s' \<Longrightarrow> dc_reachable W s'"

lemma dc_inv_start:
  assumes "bus_reachable (rt_layout W) events" "lidar_pool_try_new spawn n = Inr pool"
    "dc_try_new W t events pool remote session seq spawned = Inr s"
  shows "dc_inv (rt_layout W) s"
proof -
  have "bus_inv (rt_layout W) (set_generation session events)"
    by (rule inv_bus_step [OF bus_step.new_generation bus_reachable_inv [OF assms(1)]])
  then have "dc_inv (rt_layout W) (dc_initial t events pool remote session seq)"
    using pool_new_inv [OF assms(2)]
    by (simp add: dc_initial_def dc_inv_def base_inv_def tokens_def hm_invar_def chunks_inv_default)
  with assms(3) show ?thesis
    by (auto simp: dc_try_new_def prepare_ingress_def Let_def split: if_splits)
qed

lemma dc_inv_service_step: "service_step W s s' \<Longrightarrow> dc_inv (rt_layout W) s \<Longrightarrow> dc_inv (rt_layout W) s'"
proof (induction rule: service_step.induct)
  case (bus s b)
  then show ?case by (blast intro: dc_inv_events inv_bus_step dc_inv_bus)
next
  case (worker s)
  then show ?case using pool_step_inv [of "dc_lidar s" Recv] by (simp add: dc_inv_lidar dc_inv_pool)
next
  case (route now incoming s s')
  then show ?case by (blast intro: dc_inv_router)
qed (simp_all add: dc_inv_publish_begin dc_inv_publish_request_new dc_inv_publish_end publish_without_callback_def
      dc_inv_subscribe dc_inv_unsubscribe dc_inv_set_decoder dc_inv_start_new_session dc_inv_base
      dc_inv_stop_background prepare_ingress_def dc_inv_heartbeat)

lemma dc_inv_step: "dc_step W s s' \<Longrightarrow> dc_inv (rt_layout W) s \<Longrightarrow> dc_inv (rt_layout W) s'"
  by (induction rule: dc_step.induct) (simp_all add: dc_inv_service_step)

lemma dc_reachable_inv: "dc_reachable W s \<Longrightarrow> dc_inv (rt_layout W) s"
  by (induction rule: dc_reachable.induct) (blast intro: dc_inv_start dc_inv_step)+

end
