(* ===== verification/Data_Channel_Properties.thy ===== *)
theory Data_Channel_Properties
  imports Data_Channel_Invariant
begin

text \<open>
  What the data channel service guarantees to its callers: bounded state and at most one completion
  per request, no panic on any input from the peer, exact routing of responses, clean session
  changes, and the request/response round trip.
\<close>

section \<open>Lemmas\<close>

lemma payload_at_path:
  "chunk_source message = Some (metadata, payload, path, path_text) \<Longrightarrow> payload = jpointer path message"
  using jpointer_append [of "[''info'', ''file'']" "[''data'']" message]
  by (auto simp: chunk_source_def split: if_splits option.splits)

lemma parse_chunk_payload: "parse_chunk now key metadata payload path ca = (Inr r, ca') \<Longrightarrow> payload \<noteq> None"
  by (cases payload) (auto simp: parse_chunk_def split: option.splits)

lemma handle_chunked_total [simp]: "handle_chunked_response W now message s \<noteq> None"
proof (cases "chunk_source message")
  case None
  then show ?thesis by (simp add: handle_chunked_response_def)
next
  case (Some src)
  obtain metadata payload path path_text where src: "src = (metadata, payload, path, path_text)" by (cases src)
  have path: "payload = jpointer path message" using payload_at_path Some src by blast
  obtain r ca where pc: "parse_chunk now (incoming_key W message) metadata payload path_text (dc_chunks s) = (r, ca)"
    by (cases "parse_chunk now (incoming_key W message) metadata payload path_text (dc_chunks s)")
  have set_ok: "jpointer_set path x message \<noteq> None" if "r = Inr y" for x y
    using parse_chunk_payload [OF pc [unfolded that]] path jpointer_set_total [of path message _ x] by fastforce
  show ?thesis
    by (auto simp: set_ok handle_chunked_response_def Some src Let_def pc split: sum.splits option.splits
        simp del: not_None_eq)
qed

lemma run_resolve_total [simp]: "run_resolve W now message s \<noteq> None"
  by (auto simp: run_resolve_def split: option.splits bool.splits)

lemma inject_total: "is_object v \<Longrightarrow> inject_binary_data v bs \<noteq> None"
  by (cases v) (auto simp: inject_binary_data_def is_object_def Let_def split: option.splits)

lemma parse_object: "parse deserialize buffer = Inr (k, v, payload) \<Longrightarrow> is_object v"
  by (auto simp: parse_def Let_def split: option.splits sum.splits prod.splits if_splits)

lemma binary_payload_total: "is_object v \<Longrightarrow> process_binary_payload W now k v bs s \<noteq> None"
  using inject_total [of v bs]
  by (auto simp: process_binary_payload_def Let_def split: option.splits prod.splits bool.splits sum.splits if_splits)

lemma deal_array_buffer_total [simp]: "deal_array_buffer W now bs s \<noteq> None"
proof (cases "parse (rt_deserialize W) bs")
  case (Inr r)
  obtain k v payload where r: "r = (k, v, payload)" by (cases r)
  have "process_binary_payload W now k v payload s \<noteq> None"
    using parse_object Inr r by (intro binary_payload_total) blast
  with Inr r show ?thesis by (simp add: deal_array_buffer_def)
qed (simp add: deal_array_buffer_def)

lemma text_response_total [simp]: "at_spawn now \<Longrightarrow> handle_text_response W now message s \<noteq> None"
  by (auto simp: handle_text_response_def handle_validation_def start_heartbeat_in_session_def Let_def
      split: option.splits)

lemma process_ingress_total: "at_spawn now \<Longrightarrow> process_ingress W now message s \<noteq> None"
  by (auto simp: process_ingress_def split: dc_message.splits sum.splits option.splits prod.splits simp del: not_None_eq)

lemma router_total: "at_spawn now \<Longrightarrow> \<exists>s'. router_iteration W now incoming s = Some s'"
proof -
  assume ok: "at_spawn now"
  obtain fault t where te: "port_take_error (rt_port W) (dc_transport s) = (fault, t)"
    by (cases "port_take_error (rt_port W) (dc_transport s)")
  obtain s2 where s2: "(case fault of None \<Rightarrow> Some (s\<lparr>dc_transport := t\<rparr>) | Some f \<Rightarrow> process_ingress W now f (s\<lparr>dc_transport := t\<rparr>)) = Some s2"
    using process_ingress_total [OF ok] that by (cases fault) fastforce+
  show ?thesis
    using process_ingress_total [OF ok, of W _ "expire_chunks now s2"]
    by (cases incoming) (auto simp: router_iteration_def te s2)
qed

lemma send_frame:
  "send_message_locked W now topic d ty s = (r, s') \<Longrightarrow>
     dc_pending s' = dc_pending s \<and> dc_completed s' = dc_completed s \<and> dc_chunks s' = dc_chunks s \<and>
     dc_events s' = dc_events s \<and> dc_next_token s' = dc_next_token s"
  by (auto simp: send_message_locked_def Let_def note_control_send_def split: if_splits sum.splits prod.splits)

lemma send_sent:
  assumes "send_message_locked W now topic d ty s = (Inr u, s')"
  shows "\<exists>message body t. rt_to_string W message = Inr body \<and> jget ''topic'' message = Some (JString topic) \<and>
    jget ''data'' message = d \<and> port_send_text (rt_port W) body (dc_transport s) = (Inr (), t) \<and> dc_transport s' = t"
proof -
  define message where "message = (case d of None \<Rightarrow> JObject [(''topic'', JString topic), (''type'', JString ty)]
      | Some v \<Rightarrow> JObject (bt_insert ''data'' v [(''topic'', JString topic), (''type'', JString ty)]))"
  have fields: "jget ''topic'' message = Some (JString topic)" "jget ''data'' message = d"
    by (auto simp: message_def map_of_bt_insert bt_invar_def less_list_code less_char_def split: option.splits)
  obtain body where body: "rt_to_string W message = Inr body"
    using assms by (auto simp: send_message_locked_def message_def Let_def split: if_splits sum.splits option.splits)
  obtain t where "port_send_text (rt_port W) body (dc_transport s) = (Inr (), t)" "dc_transport s' = t"
    using assms body
    by (auto simp: send_message_locked_def message_def [symmetric] Let_def split: if_splits prod.splits sum.splits)
  with fields body show ?thesis by blast
qed

lemma publish_outcome:
  assumes "dc_inv (rt_layout W) s"
  shows "case publish_begin W now topic d ty timeout e s of
      (Inl _, s') \<Rightarrow> dc_pending s' = dc_pending s \<and> dc_completed s' = dc_completed s
    | (Inr tk, s') \<Rightarrow>
        map_of (dc_pending s) (tk_key tk) = None \<and> length (dc_pending s) < 128 \<and>
        dc_pending s' = hm_insert (tk_key tk) \<lparr>pc_token = tk_token tk, pc_expectation = e, pc_session = session_id s\<rparr> (dc_pending s) \<and>
        dc_completed s' = dc_completed s \<and> tk_token tk \<notin> set (map fst (dc_completed s)) \<and>
        (\<exists>message body t. rt_to_string W message = Inr body \<and> jget ''topic'' message = Some (JString topic) \<and>
           jget ''data'' message = d \<and> port_send_text (rt_port W) body (dc_transport s) = (Inr (), t) \<and> dc_transport s' = t)"
proof -
  define ty' where "ty' = (case ty of Some t \<Rightarrow> t | None \<Rightarrow> dt_msg dc_types)"
  define key where "key = generate_message_key ty' topic (Option.bind d (outgoing_identifier_from_data W))"
  define c where "c = \<lparr>pc_token = dc_next_token s, pc_expectation = e, pc_session = session_id s\<rparr>"
  let ?s1 = "s\<lparr>dc_pending := hm_insert key c (dc_pending s), dc_next_token := Suc (dc_next_token s)\<rparr>"
  obtain r s2 where send: "send_message_locked W now topic d ty' ?s1 = (r, s2)"
    by (cases "send_message_locked W now topic d ty' ?s1")
  note frame = send_frame [OF send]
  have lookup: "map_of (hm_insert key c (dc_pending s)) key = Some c"
    unfolding hm_insert_def by (simp add: update_conv')
  have undo: "dc_pending (guard_drop key (dc_next_token s) s2) = dc_pending s \<and>
      dc_completed (guard_drop key (dc_next_token s) s2) = dc_completed s"
    if "map_of (dc_pending s) key = None"
    using frame lookup that by (simp add: guard_drop_def c_def hm_remove_insert hm_remove_absent)
  have fresh: "dc_next_token s \<notin> set (map fst (dc_completed s))"
    using assms by (fastforce simp: dc_inv_def base_inv_def)
  have sent: "\<exists>message body t. rt_to_string W message = Inr body \<and> jget ''topic'' message = Some (JString topic) \<and>
      jget ''data'' message = d \<and> port_send_text (rt_port W) body (dc_transport s) = (Inr (), t) \<and> dc_transport s2 = t"
    if "r = Inr u" for u
    using send_sent [OF send [unfolded that]] by simp
  show ?thesis
    using undo fresh sent frame
    unfolding publish_begin_def Let_def ty'_def [symmetric] key_def [symmetric] c_def [symmetric] send
    by (auto simp: MAX_PENDING_REQUESTS_def not_le c_def split: sum.splits)
qed

lemma run_resolve_routed:
  assumes "dc_inv L s" and "jget ''type'' message \<noteq> None" and "chunk_source message = None"
  shows "run_resolve W now message s =
    (case map_of (dc_pending s) (incoming_key W message) of
       None \<Rightarrow> Some s
     | Some c \<Rightarrow>
         Some (s\<lparr>dc_pending := hm_remove (incoming_key W message) (dc_pending s),
                  dc_completed := dc_completed s @
                    [(pc_token c, case expectation_validate (pc_expectation c) message of
                                    Inl e \<Rightarrow> Inl e | Inr _ \<Rightarrow> Inr message)]\<rparr>))"
proof -
  have "pc_session c = session_id s" if "map_of (dc_pending s) k = Some c" for k c
    using assms(1) map_of_SomeD [OF that] by (fastforce simp: dc_inv_def)
  with assms(2,3) show ?thesis
    by (auto simp: run_resolve_def handle_chunked_response_def resolve_pending_response_def complete_def session_id_def
        split: option.splits sum.splits)
qed

section \<open>A concrete runtime\<close>

text \<open>A transport that is always open and keeps what it sends; used to instantiate the properties.\<close>

definition open_port :: "string list dc_port" where
  "open_port =
     \<lparr>port_ready_state = (\<lambda>_. ''open''), port_send_text = (\<lambda>m t. (Inr (), t @ [m])),
      port_set_generation = (\<lambda>g t. (Inr (), t)), port_take_error = (\<lambda>t. (None, t))\<rparr>"

definition runtime0 :: "(string list, unit) runtime" where
  "runtime0 =
     \<lparr>rt_port = open_port, rt_layout = layout64, rt_crypto = xor_crypto,
      rt_deserialize = (\<lambda>b. if b = [] then None else Some (VisitMap [])),
      rt_to_string = (\<lambda>v. Inr ''json''), rt_value_text = (\<lambda>v. ''json''),
      rt_fmt_f64 = (\<lambda>_. ''f''), rt_fmt_fixed1 = (\<lambda>_. ''f''), rt_instant_max = 2 ^ 63 * 1000000000\<rparr>"

definition moment0 :: moment where
  "moment0 = \<lparr>at_instant = 7, at_secs = 100, at_secs_f64 = Finite False 25 2, at_local = ''now'', at_uuid = ''u'', at_spawn = True\<rparr>"

definition service0 :: "string list dc_service" where
  "service0 = dc_initial [] bus0 \<lparr>lp_queue = [], lp_workers = 1\<rparr> False 41 1"

lemma service0_reachable: "dc_reachable runtime0 service0"
proof (rule dc_reachable.start)
  show "bus_reachable (rt_layout runtime0) bus0" by (rule bus0_reachable)
  show "lidar_pool_try_new (\<lambda>_. True) 1 = Inr \<lparr>lp_queue = [], lp_workers = 1\<rparr>"
    by (simp add: lidar_pool_try_new_def)
  show "dc_try_new runtime0 [] bus0 \<lparr>lp_queue = [], lp_workers = 1\<rparr> False 41 1 True = Inr service0"
    by (simp add: dc_try_new_def service0_def prepare_ingress_def announce_generation_def runtime0_def open_port_def
        dc_initial_def)
qed

section \<open>Properties\<close>

text \<open>
  Property C1. In every interleaving of callers, the router, the heartbeat, the workers and the
  dispatcher: at most 128 requests are in flight, under distinct keys and all of the current
  session; no request is completed twice and none is both pending and completed; and the chunk
  store, the LiDAR queue and the callback channel stay within their budgets.
\<close>

theorem dc_service_safe:
  assumes "dc_reachable W s"
  shows "length (dc_pending s) \<le> 128 \<and> distinct (map fst (dc_pending s)) \<and>
    (\<forall>(k, c)\<in>set (dc_pending s). pc_session c = session_id s) \<and>
    distinct (map (\<lambda>p. pc_token (snd p)) (dc_pending s) @ map fst (dc_completed s)) \<and>
    chunks_inv (dc_chunks s) \<and> length (lp_queue (dc_lidar s)) \<le> 4 \<and> bus_inv (rt_layout W) (dc_events s)"
  using dc_reachable_inv [OF assms]
  by (auto simp: dc_inv_def base_inv_def hm_invar_def tokens_def pool_inv_def MAX_PENDING_REQUESTS_def)

theorem dc_service_safe_witness: "length (dc_pending service0) \<le> 128 \<and> chunks_inv (dc_chunks service0)"
  using dc_service_safe [OF service0_reachable] by blast

text \<open>
  Property C3. No message of the peer makes the router panic: whatever the message, the retained
  fault and the state, one iteration of the router loop returns (the only panic of the code is the
  failure to spawn the heartbeat thread, excluded by the hypothesis). In particular the payload
  path of a chunked message always exists when it is overwritten, and binary data is only injected
  into a JSON object.
\<close>

theorem dc_router_never_panics:
  assumes "at_spawn now"
  shows "\<exists>s'. router_iteration W now incoming s = Some s'"
  using router_total [OF assms] .

theorem dc_router_never_panics_witness:
  "\<exists>s'. router_iteration runtime0 moment0 (Some \<lparr>im_generation = 41, im_payload = Binary [1, 2, 3, 4, 5]\<rparr>) service0 = Some s'"
  by (rule dc_router_never_panics) (simp add: moment0_def)
text \<open>
  Property C4. A session reset is complete: every request in flight is completed once with the reset
  error, partial transfers are gone, the channel counts as closed and its heartbeat as stopped,
  the generation moves on, and from then on every message tagged with the old generation and every
  iteration of an old heartbeat thread leaves the service unchanged.
\<close>

theorem dc_reset_exact:
  "let s' = start_new_session W s in
     dc_pending s' = [] \<and>
     dc_completed s' = dc_completed s @ map (\<lambda>p. (pc_token (snd p), Inl ''DataChannel session reset'')) (dc_pending s) \<and>
     transfers (dc_chunks s') = [] \<and> \<not> is_open W s' \<and> \<not> dc_heartbeat_running s' \<and>
     session_id s' = session_id s + 1 \<and>
     (\<forall>m now. im_generation m = session_id s \<longrightarrow> process_ingress W now m s' = Some s') \<and>
     (\<forall>now. heartbeat_iteration W now (session_id s) s' = (False, s'))"
proof -
  have next_ne: "session_id s + 1 \<noteq> session_id s" by simp
  have sess: "session_id (start_new_session W s) = session_id s + 1"
    by (simp add: start_new_session_def Let_def fail_all_pending_eq session_id_def stop_heartbeat_def
        announce_generation_def next_session_def set_generation_def split: prod.splits)
  show ?thesis
    unfolding Let_def process_ingress_def heartbeat_iteration_def sess using next_ne
    by (auto simp: start_new_session_def Let_def fail_all_pending_eq tokens_def stop_heartbeat_def
        announce_generation_def next_session_def set_generation_def is_open_def ca_clear_def split: prod.splits)
qed

text \<open>A service with one request in flight.\<close>

definition expect0 :: response_expectation where
  "expect0 = expect_api_request ''rt/api/sport/request'' 1001"

definition service1 :: "string list dc_service" where
  "service1 = service0\<lparr>dc_transport := [''json''], dc_next_token := 1,
     dc_pending := [(''req $ rt/api/sport/request'', \<lparr>pc_token = 0, pc_expectation = expect0, pc_session = 41\<rparr>)]\<rparr>"

definition ticket0 :: ticket where
  "ticket0 = \<lparr>tk_key = ''req $ rt/api/sport/request'', tk_token = 0, tk_duration = 10000000000,
     tk_timeout = ten_seconds, tk_topic = ''rt/api/sport/request''\<rparr>"

lemma service1_published:
  "publish_begin runtime0 moment0 ''rt/api/sport/request'' None (Some ''req'') None expect0 service0 = (Inr ticket0, service1)"
  by (simp add: publish_begin_def Let_def validated_timeout_def ten_seconds_def moment0_def runtime0_def open_port_def
      service0_def dc_initial_def generate_message_key_def MAX_PENDING_REQUESTS_def send_message_locked_def
      hm_insert_def session_id_def set_generation_def service1_def ticket0_def)

lemma service1_reachable: "dc_reachable runtime0 service1"
  using dc_reachable.step [OF service0_reachable dc_step.service [OF service_step.publish]] service1_published by (metis snd_conv)

theorem dc_reset_exact_witness:
  "process_ingress runtime0 moment0 \<lparr>im_generation = 41, im_payload = Text ''late''\<rparr> (start_new_session runtime0 service1) =
     Some (start_new_session runtime0 service1)"
  using dc_reset_exact [of runtime0 service1]
  by (simp add: Let_def service1_def service0_def dc_initial_def session_id_def set_generation_def)

text \<open>
  A transport fault of the current session ends it: every request in flight is completed
  once with the fault's text, partial transfers are gone, the channel counts as closed, and the
  generation moves on, so that the same fault, delivered again, is ignored.
\<close>

theorem dc_fault_exact:
  "let m = \<lparr>im_generation = session_id s, im_payload = TransportFault e\<rparr> in
   \<exists>s'. process_ingress W now m s = Some s' \<and> dc_pending s' = [] \<and>
     dc_completed s' = dc_completed s @ map (\<lambda>p. (pc_token (snd p), Inl e)) (dc_pending s) \<and>
     transfers (dc_chunks s') = [] \<and> \<not> is_open W s' \<and> \<not> dc_heartbeat_running s' \<and>
     session_id s' = session_id s + 1 \<and> process_ingress W now m s' = Some s'"
proof -
  let ?m = "\<lparr>im_generation = session_id s, im_payload = TransportFault e\<rparr>" and ?s = "process_fault W now e s"
  have s': "process_ingress W now ?m s = Some ?s" by (simp add: process_ingress_def)
  have sess: "session_id ?s = session_id s + 1"
    by (simp add: process_fault_def Let_def fail_all_pending_eq session_id_def stop_heartbeat_def note_control_send_def
        announce_generation_def next_session_def set_generation_def split: prod.splits sum.splits)
  have rest: "dc_pending ?s = [] \<and> dc_completed ?s = dc_completed s @ map (\<lambda>p. (pc_token (snd p), Inl e)) (dc_pending s) \<and>
      transfers (dc_chunks ?s) = [] \<and> \<not> is_open W ?s \<and> \<not> dc_heartbeat_running ?s"
    by (auto simp: process_fault_def Let_def fail_all_pending_eq tokens_def stop_heartbeat_def note_control_send_def
        announce_generation_def next_session_def is_open_def ca_clear_def split: prod.splits sum.splits)
  have "process_ingress W now ?m ?s = Some ?s" using sess by (simp add: process_ingress_def)
  with s' sess rest show ?thesis unfolding Let_def by blast
qed

text \<open>
  A response is routed to exactly the request it answers: the pending request with the
  response's key is completed once, with the response if it meets the request's expectation and
  with the mismatch otherwise, and nothing else in the service changes; a response no request
  waits for changes nothing. In a reachable state the session check of the code cannot fail.
\<close>

theorem dc_response_routed:
  assumes "dc_reachable W s" and "jget ''type'' message \<noteq> None" and "chunk_source message = None"
  shows "run_resolve W now message s =
    (case map_of (dc_pending s) (incoming_key W message) of
       None \<Rightarrow> Some s
     | Some c \<Rightarrow>
         Some (s\<lparr>dc_pending := hm_remove (incoming_key W message) (dc_pending s),
                  dc_completed := dc_completed s @
                    [(pc_token c, case expectation_validate (pc_expectation c) message of
                                    Inl e \<Rightarrow> Inl e | Inr _ \<Rightarrow> Inr message)]\<rparr>))"
  by (rule run_resolve_routed [OF dc_reachable_inv [OF assms(1)] assms(2,3)])

definition response0 :: json where
  "response0 = JObject [(''data'', JObject [(''header'', JObject [(''identity'', JObject [(''api_id'', JNumber (NInt 1001))])])]),
     (''topic'', JString ''rt/api/sport/request''), (''type'', JString ''req'')]"

lemma response0_facts:
  "jget ''type'' response0 \<noteq> None" "chunk_source response0 = None"
  "incoming_key runtime0 response0 = ''req $ rt/api/sport/request''"
  "expectation_validate expect0 response0 = Inr ()"
proof -
  show "jget ''type'' response0 \<noteq> None" by (simp add: response0_def)
  show "chunk_source response0 = None" by (simp add: chunk_source_def response0_def)
  show "incoming_key runtime0 response0 = ''req $ rt/api/sport/request''"
    by (simp add: incoming_key_def generate_message_key_def str_field_def unwrap_or_default_def or_else_def
        nested_string_def response0_def extract_key_def nested_scalar_to_string_def)
  show "expectation_validate expect0 response0 = Inr ()"
    by (simp add: expectation_validate_def expect0_def expect_api_request_def Let_def str_field_def response0_def
        unwrap_or_default_def)
qed

theorem dc_response_routed_witness:
  "run_resolve runtime0 moment0 response0 service1 =
     Some (service1\<lparr>dc_pending := [], dc_completed := [(0, Inr response0)]\<rparr>)"
  using dc_response_routed [OF service1_reachable response0_facts(1,2), of moment0]
  unfolding response0_facts by (simp add: service1_def service0_def dc_initial_def hm_remove_def response0_facts)

text \<open>
  Registering a request is all or nothing: on an error the pending requests and the
  completions are as before; on success the request is the only new entry, under the ticket's key,
  which was free, with a token never used before, and its message has been handed to the
  transport.
\<close>

theorem dc_publish_atomic:
  assumes "dc_reachable W s"
  shows "case publish_begin W now topic d ty timeout e s of
      (Inl _, s') \<Rightarrow> dc_pending s' = dc_pending s \<and> dc_completed s' = dc_completed s
    | (Inr tk, s') \<Rightarrow>
        map_of (dc_pending s) (tk_key tk) = None \<and> length (dc_pending s) < 128 \<and>
        dc_pending s' = hm_insert (tk_key tk) \<lparr>pc_token = tk_token tk, pc_expectation = e, pc_session = session_id s\<rparr> (dc_pending s) \<and>
        dc_completed s' = dc_completed s \<and> tk_token tk \<notin> set (map fst (dc_completed s)) \<and>
        (\<exists>message body t. rt_to_string W message = Inr body \<and> jget ''topic'' message = Some (JString topic) \<and>
           jget ''data'' message = d \<and> port_send_text (rt_port W) body (dc_transport s) = (Inr (), t) \<and> dc_transport s' = t)"
  by (rule publish_outcome [OF dc_reachable_inv [OF assms]])

theorem dc_publish_atomic_witness:
  "dc_pending service1 = hm_insert (tk_key ticket0)
     \<lparr>pc_token = tk_token ticket0, pc_expectation = expect0, pc_session = session_id service0\<rparr> (dc_pending service0)"
  using dc_publish_atomic [OF service0_reachable, where now = moment0 and topic = "''rt/api/sport/request''" and d = None
    and ty = "Some ''req''" and timeout = None and e = expect0]
  unfolding service1_published by simp

lemma request_resolved:
  assumes "dc_reachable W s" and "publish_begin W now topic d ty timeout e s = (Inr tk, s1)"
    and "jget ''type'' message \<noteq> None" and "chunk_source message = None"
    and "incoming_key W message = tk_key tk" and "expectation_validate e message = Inr ()"
  shows "\<exists>s2. run_resolve W now' message s1 = Some s2 \<and> fst (publish_end W Woken tk s2) = Some (Inr message) \<and>
    dc_pending (snd (publish_end W Woken tk s2)) = dc_pending s"
proof -
  have inv: "dc_inv (rt_layout W) s" by (rule dc_reachable_inv [OF assms(1)])
  have inv1: "dc_inv (rt_layout W) s1"
    using dc_inv_publish_begin [OF inv, of W now topic d ty timeout e] assms(2) by simp
  let ?c = "\<lparr>pc_token = tk_token tk, pc_expectation = e, pc_session = session_id s\<rparr>"
  have reg: "map_of (dc_pending s) (tk_key tk) = None" "dc_pending s1 = hm_insert (tk_key tk) ?c (dc_pending s)"
    "tk_token tk \<notin> set (map fst (dc_completed s1))"
    using publish_outcome [OF inv, where now = now and topic = topic and d = d and ty = ty and timeout = timeout and e = e] assms(2) by auto
  have lookup: "map_of (dc_pending s1) (incoming_key W message) = Some ?c"
    unfolding reg(2) hm_insert_def assms(5) by (simp add: update_conv')
  let ?s2 = "s1\<lparr>dc_pending := dc_pending s, dc_completed := dc_completed s1 @ [(tk_token tk, Inr message)]\<rparr>"
  have removed: "hm_remove (tk_key tk) (dc_pending s1) = dc_pending s"
    using reg by (simp add: hm_remove_insert hm_remove_absent)
  have "run_resolve W now' message s1 = Some ?s2"
    using run_resolve_routed [OF inv1 assms(3,4), of W now'] lookup removed assms(5,6) by simp
  moreover have "map_of (dc_completed s1 @ [(tk_token tk, Inr message)]) (tk_token tk) = Some (Inr message)"
    using reg(3) by (simp add: map_add_def map_of_eq_None_iff [THEN iffD2])
  ultimately show ?thesis
    using reg(1) by (intro exI [of _ ?s2]) (simp add: publish_end_def Let_def guard_drop_def)
qed

text \<open>
  Property C2. The request/response round trip: after a request has been registered, a response with
  its key that meets its expectation is what the caller receives when it is woken, and afterwards
  the pending requests are those of before the request.
\<close>

theorem dc_request_response:
  assumes "dc_reachable W s" and "publish_begin W now topic d ty timeout e s = (Inr tk, s1)"
    and "jget ''type'' message \<noteq> None" and "chunk_source message = None"
    and "incoming_key W message = tk_key tk" and "expectation_validate e message = Inr ()"
  shows "\<exists>s2. run_resolve W now' message s1 = Some s2 \<and> fst (publish_end W Woken tk s2) = Some (Inr message) \<and>
    dc_pending (snd (publish_end W Woken tk s2)) = dc_pending s"
  by (rule request_resolved [OF assms])

theorem dc_request_response_witness:
  "\<exists>s2. run_resolve runtime0 moment0 response0 service1 = Some s2 \<and>
     fst (publish_end runtime0 Woken ticket0 s2) = Some (Inr response0)"
  using dc_request_response [OF service0_reachable service1_published response0_facts(1,2) _ response0_facts(4)]
  by (auto simp: response0_facts(3) ticket0_def)

lemma dispatch_subscription_events:
  assumes "dc_reachable W s" and "topic = str_field ''topic'' message"
    and "event_size (rt_layout W) (TopicCallback topic message) = (0, n)"
  shows "dc_events (dispatch_subscription W now message s) =
    (if topic \<noteq> [] \<and> fst (should_process now topic s) \<and> topic \<in> dc_subscriptions s \<and>
        eb_receiver (dc_events s) \<and> \<not> exceeds 0 n (dc_events s)
     then enqueue \<lparr>d_event = Some (TopicCallback topic message), d_generation = session_id s, d_class = 0, d_bytes = n\<rparr> (dc_events s)
     else dc_events s)"
proof -
  have inv: "dc_inv (rt_layout W) s" by (rule dc_reachable_inv [OF assms(1)])
  obtain go s1 where sp: "should_process now topic s = (go, s1)" by (cases "should_process now topic s")
  have s1: "dc_events s1 = dc_events s" "dc_subscriptions s1 = dc_subscriptions s"
    using sp by (auto simp: should_process_def Let_def split: option.splits if_splits)
  have send: "try_send (rt_layout W) (session_id s) (TopicCallback topic message) (dc_events s) =
      (if \<not> eb_receiver (dc_events s) then (Inl (Disconnected (TopicCallback topic message)), dc_events s)
       else if exceeds 0 n (dc_events s) then (Inl (Full (TopicCallback topic message)), dc_events s)
       else (Inr (), enqueue \<lparr>d_event = Some (TopicCallback topic message), d_generation = session_id s, d_class = 0, d_bytes = n\<rparr>
               (dc_events s)))"
    using try_send_locked_outcome [OF dc_inv_bus [OF inv] assms(3)] by (simp add: try_send_def session_id_def)
  have sess: "session_id s1 = session_id s" by (simp add: session_id_def s1)
  show ?thesis
    unfolding dispatch_subscription_def assms(2) [symmetric] Let_def sp prod.case s1 sess send
    by (cases go) (auto simp: s1 note_callback_def)
qed

text \<open>
  Subscription dispatch is exact: a message reaches the callback channel if and only if it
  names a topic, passes the throttle of that topic, is subscribed to, and fits the channel's budget;
  it then joins the control queue once, tagged with the current session, with the message itself
  as payload. In every other case the channel is unchanged.
\<close>

theorem dc_dispatch_exact:
  assumes "dc_reachable W s" and "topic = str_field ''topic'' message"
    and "event_size (rt_layout W) (TopicCallback topic message) = (0, n)"
  shows "dc_events (dispatch_subscription W now message s) =
    (if topic \<noteq> [] \<and> fst (should_process now topic s) \<and> topic \<in> dc_subscriptions s \<and>
        eb_receiver (dc_events s) \<and> \<not> exceeds 0 n (dc_events s)
     then enqueue \<lparr>d_event = Some (TopicCallback topic message), d_generation = session_id s, d_class = 0, d_bytes = n\<rparr> (dc_events s)
     else dc_events s)"
  by (rule dispatch_subscription_events [OF assms])

theorem dc_dispatch_exact_witness:
  "dc_events (dispatch_subscription runtime0 moment0 (JObject [(''topic'', JString ''rt/x'')]) service1) = dc_events service1"
proof -
  have size: "event_size (rt_layout runtime0) (TopicCallback ''rt/x'' (JObject [(''topic'', JString ''rt/x'')])) =
      (0, snd (event_size (rt_layout runtime0) (TopicCallback ''rt/x'' (JObject [(''topic'', JString ''rt/x'')]))))"
    by simp
  show ?thesis
    using dc_dispatch_exact [OF service1_reachable _ size, of moment0]
    by (simp add: str_field_def unwrap_or_default_def service1_def service0_def dc_initial_def)
qed

lemma request_payload_key:
  assumes "- (2 ^ 63) \<le> i" "i < 2 ^ 63"
  shows "extract_key fmt (request_payload W options i api_id) = Some (show_int i)"
proof -
  define hdr where "hdr = (if jget ''priority'' options \<noteq> None
      then jobject [(''identity'', jobject [(''id'', JNumber (NInt i)), (''api_id'', JNumber (NInt api_id))]),
                    (''policy'', jobject [(''priority'', JNumber (NInt 1))])]
      else jobject [(''identity'', jobject [(''id'', JNumber (NInt i)), (''api_id'', JNumber (NInt api_id))])])"
  have hdr: "jpointer [''identity'', ''id''] hdr = Some (JNumber (NInt i))"
    by (simp add: hdr_def jobject_def less_list_code less_char_def)
  obtain p where "request_payload W options i api_id = JObject [(''header'', hdr), (''parameter'', p)]"
    by (simp add: request_payload_def hdr_def Let_def jobject_def less_list_code less_char_def)
  with hdr assms show ?thesis
    by (simp add: extract_key_def nested_scalar_to_string_def)
qed

text \<open>
  Property C5. API requests are correlated by their identity: the key of a request is the decimal
  rendering of its id (the caller's, or a generated one between 1 and 2147483647), and every
  response that carries this id in its identity, and no uuid, has the same key.
\<close>

theorem dc_request_correlated:
  assumes "publish_request_new W now topic options timeout s = (Inr tk, s')"
  shows "\<exists>i. tk_key tk = show_int i \<and>
    (case Option.bind (jget ''id'' options) as_i64 of Some n \<Rightarrow> i = n | None \<Rightarrow> 1 \<le> i \<and> i \<le> 2147483647) \<and>
    (\<forall>message v. jget ''data'' message = Some v \<and> jpointer [''header'', ''identity'', ''id''] v = Some (JNumber (NInt i)) \<and>
       jget ''uuid'' v = None \<longrightarrow> incoming_key W message = tk_key tk)"
proof -
  have i64: "- (2 ^ 63) \<le> n \<and> n < 2 ^ 63" if "as_i64 v = Some n" for v n
    using that by (cases v rule: as_i64.cases) (auto split: if_splits)
  define i where "i = (case Option.bind (jget ''id'' options) as_i64 of Some n \<Rightarrow> n
      | None \<Rightarrow> int (unat (dc_request_sequence s) mod (2 ^ 31 - 1)) + 1)"
  have gen: "1 \<le> int (n mod (2 ^ 31 - 1)) + 1 \<and> int (n mod (2 ^ 31 - 1)) + 1 \<le> 2147483647" for n :: nat
    using mod_less_divisor [of "2 ^ 31 - 1" n] by simp
  have range: "- (2 ^ 63) \<le> i \<and> i < 2 ^ 63"
  proof (cases "Option.bind (jget ''id'' options) as_i64")
    case None
    then show ?thesis using gen [of "unat (dc_request_sequence s)"] by (simp add: i_def)
  next
    case (Some n)
    then show ?thesis using i64 by (auto simp: i_def Option.bind_eq_Some_conv)
  qed
  obtain api_id s1 where pb: "publish_begin W now topic (Some (request_payload W options i api_id)) (Some (dt_request dc_types))
      timeout (expect_api_request topic api_id) s1 = (Inr tk, s')"
    using assms
    by (auto simp: publish_request_new_def generated_identity_id_def Let_def i_def split: option.splits)
  then have key: "tk_key tk = show_int i"
    using range by (auto simp: publish_begin_def Let_def generate_message_key_def outgoing_identifier_from_data_def
        request_payload_key split: sum.splits if_splits prod.splits)
  have incoming: "incoming_key W message = show_int i"
    if "jget ''data'' message = Some v" "jpointer [''header'', ''identity'', ''id''] v = Some (JNumber (NInt i))" "jget ''uuid'' v = None" for message v
    using that range by (simp add: incoming_key_def generate_message_key_def or_else_def extract_key_def nested_scalar_to_string_def)
  show ?thesis
    using key incoming gen [of "unat (dc_request_sequence s)"]
    by (intro exI [of _ i]) (auto simp: i_def split: option.splits)
qed

theorem dc_request_correlated_witness:
  "\<exists>tk s'. publish_request_new runtime0 moment0 ''rt/api/sport/request''
       (JObject [(''api_id'', JNumber (NInt 1001)), (''id'', JNumber (NInt 5))]) None service0 = (Inr tk, s') \<and>
     tk_key tk = show_int 5"
proof -
  let ?options = "JObject [(''api_id'', JNumber (NInt 1001)), (''id'', JNumber (NInt 5))]"
  have "\<exists>tk s'. publish_request_new runtime0 moment0 ''rt/api/sport/request'' ?options None service0 = (Inr tk, s')"
    by (simp add: publish_request_new_def publish_begin_def Let_def validated_timeout_def ten_seconds_def moment0_def runtime0_def
        open_port_def service0_def dc_initial_def MAX_PENDING_REQUESTS_def send_message_locked_def)
  then obtain tk s' where tk: "publish_request_new runtime0 moment0 ''rt/api/sport/request'' ?options None service0 = (Inr tk, s')"
    by blast
  with dc_request_correlated [OF tk] show ?thesis by auto
qed

end
