(* ===== verification/Callbacks.thy ===== *)
theory Callbacks
  imports Python_Values Data_Channel_Properties
begin

text \<open>
  \<open>src/src/interface/callbacks.rs\<close> and the bridges \<open>pubsub.rs\<close>, \<open>audio.rs\<close>, \<open>video.rs\<close>, \<open>connection.rs\<close>:
  registration of Python callbacks, delivery of events to them by the dispatcher thread, failure
  diagnostics, and the conversions around requests. A callback is a reference; what the interpreter
  does (attaching the thread, running the callback) is given from outside.
\<close>

section \<open>Registration\<close>

record registered_callback =
  rc_id :: u64
  rc_callback :: py_ref

type_synonym callback_registry = "(string, registered_callback) hash_map"

record 't py_interface =
  pi_service :: "'t dc_service"
  pi_registry :: callback_registry
  pi_next_id :: u64 \<comment> \<open>the static counter of ids\<close>

definition ensure_callable :: "(py_ref \<Rightarrow> bool) \<Rightarrow> py_ref \<Rightarrow> py_error + unit" where
  "ensure_callable callable callback = (if callable callback then Inr () else Inl (PyTypeError ''callback must be callable''))"

definition register_callback :: "string \<Rightarrow> py_ref \<Rightarrow> 't py_interface \<Rightarrow> 't py_interface" where
  "register_callback key callback s =
     s\<lparr>pi_registry := hm_insert key \<lparr>rc_id = pi_next_id s, rc_callback = callback\<rparr> (pi_registry s), pi_next_id := pi_next_id s + 1\<rparr>"

definition py_subscribe ::
  "('t, 'k) runtime \<Rightarrow> moment \<Rightarrow> (py_ref \<Rightarrow> bool) \<Rightarrow> string \<Rightarrow> py_ref \<Rightarrow> 't py_interface \<Rightarrow> (py_error + unit) \<times> 't py_interface" where
  "py_subscribe W now callable topic callback s =
     (case ensure_callable callable callback of
        Inl err \<Rightarrow> (Inl err, s)
      | Inr _ \<Rightarrow>
          (case subscribe W now topic (pi_service s) of
             (Inl err, dc) \<Rightarrow> (Inl (to_py_error err), s\<lparr>pi_service := dc\<rparr>)
           | (Inr _, dc) \<Rightarrow> (Inr (), register_callback topic callback (s\<lparr>pi_service := dc\<rparr>))))"

definition py_unsubscribe ::
  "('t, 'k) runtime \<Rightarrow> moment \<Rightarrow> string \<Rightarrow> 't py_interface \<Rightarrow> (py_error + unit) \<times> 't py_interface" where
  "py_unsubscribe W now topic s =
     (case unsubscribe W now topic (pi_service s) of
        (Inl err, dc) \<Rightarrow> (Inl (to_py_error err), s\<lparr>pi_service := dc\<rparr>)
      | (Inr _, dc) \<Rightarrow> (Inr (), s\<lparr>pi_service := dc, pi_registry := hm_remove topic (pi_registry s)\<rparr>))"

definition on_frame :: "(py_ref \<Rightarrow> bool) \<Rightarrow> py_ref \<Rightarrow> 't py_interface \<Rightarrow> (py_error + unit) \<times> 't py_interface" where
  "on_frame callable callback s =
     (case ensure_callable callable callback of
        Inl err \<Rightarrow> (Inl err, s)
      | Inr _ \<Rightarrow> (Inr (), register_callback ''video'' callback s))"

definition on_audio :: "(py_ref \<Rightarrow> bool) \<Rightarrow> py_ref \<Rightarrow> 't py_interface \<Rightarrow> (py_error + unit) \<times> 't py_interface" where
  "on_audio callable callback s =
     (case ensure_callable callable callback of
        Inl err \<Rightarrow> (Inl err, s)
      | Inr _ \<Rightarrow> (Inr (), register_callback ''audio'' callback s))"

definition clear_callback_registry :: "'t py_interface \<Rightarrow> 't py_interface" where
  "clear_callback_registry s = s\<lparr>pi_registry := []\<rparr>"

section \<open>Arguments\<close>

record lidar_data =
  la_stamp :: "fval option"
  la_frame_id :: "string option"
  la_resolution :: "fval option"
  la_src_size :: "nat option"
  la_width :: "nat option"
  la_origin :: "fval list option"
  la_points :: "fval list" \<comment> \<open>an array with three columns\<close>

record lidar_argument =
  la_topic :: string
  la_data :: "lidar_data option"
  la_type :: "string option"

text \<open>What a callback is called with: the object of a JSON value, a LiDAR message, an image of height,
  width and three channels, or samples.\<close>

datatype py_argument = ArgValue json | ArgLidar lidar_argument | ArgImage bytes nat nat | ArgSamples "int list"

text \<open>The argument of an event, or the class of the exception its conversion raises (an array is only reshaped
  to a shape of its own size).\<close>

definition lidar_to_py :: "string \<Rightarrow> json \<Rightarrow> fval list \<Rightarrow> string + py_argument" where
  "lidar_to_py topic payload points =
     (if length points \<noteq> length points div 3 * 3 then Inl ''ValueError''
      else Inr (ArgLidar \<lparr>la_topic = topic,
        la_data = (case Option.bind (jget ''data'' payload) as_object of
            None \<Rightarrow> None
          | Some m \<Rightarrow> Some \<lparr>la_stamp = Option.bind (map_of m ''stamp'') as_f64, la_frame_id = Option.bind (map_of m ''frame_id'') as_str,
              la_resolution = Option.bind (map_of m ''resolution'') as_f64, la_src_size = Option.bind (map_of m ''src_size'') as_u64,
              la_width = Option.bind (map_of m ''width'') as_u64,
              la_origin = map_option (List.map_filter as_f64) (Option.bind (map_of m ''origin'') as_array), la_points = points\<rparr>),
        la_type = Option.bind (jget ''type'' payload) as_str\<rparr>))"

definition image_to_py :: "bytes \<Rightarrow> nat \<Rightarrow> nat \<Rightarrow> string + py_argument" where
  "image_to_py data width height = (if length data \<noteq> height * width * 3 then Inl ''ValueError'' else Inr (ArgImage data height width))"

section \<open>Diagnostics\<close>

definition ERROR_CLASSES :: "string list" where
  "ERROR_CLASSES = [''ValueError'', ''TypeError'', ''RuntimeError'', ''KeyError'', ''IndexError'', ''MemoryError'',
     ''OverflowError'', ''OSError'', ''unknown_exception'']"

record callback_diagnostics =
  cg_conversion :: "repeat_log list"
  cg_invocation :: "repeat_log list"
  cg_attachment :: repeat_log
  cg_generation :: u64

definition callback_diagnostics_new :: callback_diagnostics where
  "callback_diagnostics_new =
     \<lparr>cg_conversion = map (repeat_log_new ''python_callback_conversion_failed'') ERROR_CLASSES,
      cg_invocation = map (repeat_log_new ''python_callback_invocation_failed'') ERROR_CLASSES,
      cg_attachment = repeat_log_new ''python_callback_failed'' ''interpreter_unavailable'', cg_generation = 0\<rparr>"

definition callback_diagnostics_reset :: "u64 \<Rightarrow> callback_diagnostics \<Rightarrow> callback_diagnostics" where
  "callback_diagnostics_reset generation g =
     \<lparr>cg_conversion = map (snd \<circ> rl_reset) (cg_conversion g), cg_invocation = map (snd \<circ> rl_reset) (cg_invocation g),
      cg_attachment = snd (rl_reset (cg_attachment g)), cg_generation = generation\<rparr>"

text \<open>Only the exact built-in classes are named; everything else is the last class.\<close>

fun class_position :: "string \<Rightarrow> string list \<Rightarrow> nat option" where
  "class_position c [] = None"
| "class_position c (x # xs) = (if x = c then Some 0 else map_option Suc (class_position c xs))"

definition safe_exception_class :: "string \<Rightarrow> string" where
  "safe_exception_class actual =
     (case class_position actual (take 8 ERROR_CLASSES) of Some i \<Rightarrow> ERROR_CLASSES ! i | None \<Rightarrow> ''unknown_exception'')"

text \<open>\<open>None\<close> is the panic of the \<open>unwrap\<close>.\<close>

definition diagnostics_report :: "instant \<Rightarrow> bool \<Rightarrow> string \<Rightarrow> callback_diagnostics \<Rightarrow> callback_diagnostics option" where
  "diagnostics_report now conversion actual g =
     (case class_position (safe_exception_class actual) ERROR_CLASSES of
        None \<Rightarrow> None
      | Some i \<Rightarrow>
          Some (if conversion
                then g\<lparr>cg_conversion := (cg_conversion g)[i := snd (rl_record now (cg_conversion g ! i))]\<rparr>
                else g\<lparr>cg_invocation := (cg_invocation g)[i := snd (rl_record now (cg_invocation g ! i))]\<rparr>))"

section \<open>Dispatch\<close>

text \<open>What the dispatcher meets while it handles one event: whether it can attach to the interpreter, the
  generation and the registry it reads before the conversion, the generation after it, and what
  the callback does.\<close>

record dispatch_env =
  de_now :: instant
  de_attached :: bool
  de_first :: u64
  de_registry :: callback_registry
  de_second :: u64
  de_call :: "py_ref \<Rightarrow> py_argument \<Rightarrow> string option" \<comment> \<open>the class of the exception it raises\<close>

type_synonym invocation = "registered_callback \<times> py_argument"

definition dispatch_callback ::
  "dispatch_env \<Rightarrow> u64 \<Rightarrow> string \<Rightarrow> string + py_argument \<Rightarrow> callback_diagnostics \<Rightarrow> invocation option \<times> callback_diagnostics option" where
  "dispatch_callback v generation key argument g =
     (if \<not> de_attached v then (None, Some (g\<lparr>cg_attachment := snd (rl_record (de_now v) (cg_attachment g))\<rparr>))
      else if de_first v \<noteq> generation then (None, Some g)
      else case map_of (de_registry v) key of
        None \<Rightarrow> (None, Some g)
      | Some rc \<Rightarrow>
          (case argument of
             Inl cls \<Rightarrow> (None, diagnostics_report (de_now v) True cls g)
           | Inr arg \<Rightarrow>
               if de_second v \<noteq> generation then (None, Some g)
               else (Some (rc, arg),
                     case de_call v (rc_callback rc) arg of
                       None \<Rightarrow> Some g
                     | Some cls \<Rightarrow> diagnostics_report (de_now v) False cls g)))"

definition dispatch_event_checked ::
  "dispatch_env \<Rightarrow> u64 \<Rightarrow> callback_event \<Rightarrow> callback_diagnostics \<Rightarrow> invocation option \<times> callback_diagnostics option" where
  "dispatch_event_checked v generation event g =
     (case event of
        TopicCallback topic payload \<Rightarrow> dispatch_callback v generation topic (Inr (ArgValue payload)) g
      | LidarCallback topic payload points \<Rightarrow> dispatch_callback v generation topic (lidar_to_py topic payload points) g
      | VideoFrame data width height \<Rightarrow> dispatch_callback v generation ''video'' (image_to_py data width height) g
      | AudioFrame data _ _ \<Rightarrow> dispatch_callback v generation ''audio'' (Inr (ArgSamples data)) g
      | FutureResolve _ _ \<Rightarrow> (None, Some g))"

text \<open>The dispatcher thread: its diagnostics and the last generation it saw. One iteration of the loop on a
  delivery, up to the release of the envelope; \<open>None\<close> is a panic.\<close>

record dispatcher =
  dp_failures :: callback_diagnostics
  dp_generation :: "u64 option"

definition dispatcher_new :: dispatcher where
  "dispatcher_new = \<lparr>dp_failures = callback_diagnostics_new, dp_generation = None\<rparr>"

definition dispatch_delivery :: "dispatch_env \<Rightarrow> delivery \<Rightarrow> dispatcher \<Rightarrow> (invocation option \<times> dispatcher) option" where
  "dispatch_delivery v d p =
     (let p1 = (if dp_generation p \<noteq> Some (d_generation d)
                then \<lparr>dp_failures = callback_diagnostics_reset (d_generation d) (dp_failures p), dp_generation = Some (d_generation d)\<rparr>
                else p)
      in case d_event d of
           None \<Rightarrow> None
         | Some event \<Rightarrow>
             (case dispatch_event_checked v (d_generation d) event (dp_failures p1) of
                (call, Some g) \<Rightarrow> Some (call, p1\<lparr>dp_failures := g\<rparr>)
              | (call, None) \<Rightarrow> None))"

lemma live_held: "d \<in> set (live b) \<Longrightarrow> d \<in># held b \<and> d_generation d = eb_current b"
  by (auto simp: live_def held_def is_current_def)

lemma try_delivery_live:
  "try_delivery b = (Inr d, b') \<Longrightarrow>
     live b = d # live b' \<and> eb_outstanding b' = d # eb_outstanding b \<and> d \<in># held b \<and> d_generation d = eb_current b"
  using try_delivery_receives [of b] live_held [of d b] by (auto simp: receive_spec_def split: list.splits)

lemma live_drop_delivery [simp]: "live (drop_delivery d b) = live b"
  by (simp add: live_def drop_delivery_def)

text \<open>The dispatcher's loop over what the channel holds, up to the point where it waits or the channel has
  ended: the invocations it makes, in order. What it meets at a delivery is given from outside.\<close>

function dispatcher_loop ::
  "(delivery \<Rightarrow> event_bus \<Rightarrow> dispatch_env) \<Rightarrow> event_bus \<Rightarrow> dispatcher \<Rightarrow> (invocation list \<times> event_bus \<times> dispatcher) option" where
  "dispatcher_loop V b p =
     (case try_delivery b of
        (Inl _, b') \<Rightarrow> Some ([], b', p)
      | (Inr d, b') \<Rightarrow>
          (case dispatch_delivery (V d b') d p of
             None \<Rightarrow> None
           | Some (call, p') \<Rightarrow>
               map_option (\<lambda>(calls, r). (case call of None \<Rightarrow> calls | Some c \<Rightarrow> c # calls, r))
                 (dispatcher_loop V (drop_delivery d b') p')))"
  by pat_completeness auto
termination
proof (relation "measure (\<lambda>(V, b, p). length (live b))", goal_cases)
  case (2 V b p z b' d y call p')
  then have "try_delivery b = (Inr d, b')" by auto
  from try_delivery_live [OF this] show ?case by simp
qed simp

declare dispatcher_loop.simps [simp del]

section \<open>Requests from Python\<close>

definition optional_data :: "value_sizes \<Rightarrow> py_heap \<Rightarrow> py_ref option \<Rightarrow> py_error + json option" where
  "optional_data Z h d =
     (case d of None \<Rightarrow> Inr None | Some r \<Rightarrow> and_then (py_any_to_json_value Z h r) (\<lambda>v. Inr (Some v)))"

text \<open>\<open>PubSubBridge::publish\<close>: checks before the future, then the service's request when it runs; the reply is
  converted back.\<close>

definition py_publish_begin ::
  "('t, 'k) runtime \<Rightarrow> value_sizes \<Rightarrow> py_heap \<Rightarrow> moment \<Rightarrow> moment \<Rightarrow> string \<Rightarrow> py_ref option \<Rightarrow> string option \<Rightarrow> fval \<Rightarrow>
     't dc_service \<Rightarrow> (py_error + ticket) \<times> 't dc_service" where
  "py_publish_begin W Z h called now topic d msg_type timeout s =
     (case validated_timeout W called timeout of
        Inl err \<Rightarrow> (Inl (PyValueError err), s)
      | Inr _ \<Rightarrow>
          (case optional_data Z h d of
             Inl err \<Rightarrow> (Inl err, s)
           | Inr v \<Rightarrow>
               (case publish W now topic v msg_type (Some timeout) s of
                  (r, s1) \<Rightarrow> (map_err to_py_error r, s1))))"

definition py_publish_end ::
  "('t, 'k) runtime \<Rightarrow> wake \<Rightarrow> ticket \<Rightarrow> py_heap \<Rightarrow> 't dc_service \<Rightarrow> (py_error + py_ref) option \<times> py_heap \<times> 't dc_service" where
  "py_publish_end W w tk h s =
     (case publish_end W w tk s of
        (None, s1) \<Rightarrow> (None, h, s1)
      | (Some (Inl err), s1) \<Rightarrow> (Some (Inl (to_py_error err)), h, s1)
      | (Some (Inr v), s1) \<Rightarrow> (case json_value_to_py v h of (r, h1) \<Rightarrow> (Some (Inr r), h1, s1)))"

definition py_publish_without_callback ::
  "('t, 'k) runtime \<Rightarrow> value_sizes \<Rightarrow> py_heap \<Rightarrow> moment \<Rightarrow> string \<Rightarrow> py_ref option \<Rightarrow> string option \<Rightarrow>
     't dc_service \<Rightarrow> (py_error + unit) \<times> 't dc_service" where
  "py_publish_without_callback W Z h now topic d msg_type s =
     (case optional_data Z h d of
        Inl err \<Rightarrow> (Inl err, s)
      | Inr v \<Rightarrow> (case publish_without_callback W now topic v msg_type s of (r, s1) \<Rightarrow> (map_err to_py_error r, s1)))"

definition py_publish_request_new ::
  "('t, 'k) runtime \<Rightarrow> value_sizes \<Rightarrow> py_heap \<Rightarrow> moment \<Rightarrow> moment \<Rightarrow> string \<Rightarrow> py_ref \<Rightarrow> fval \<Rightarrow>
     't dc_service \<Rightarrow> (py_error + ticket) \<times> 't dc_service" where
  "py_publish_request_new W Z h called now topic options timeout s =
     (case validated_timeout W called timeout of
        Inl err \<Rightarrow> (Inl (PyValueError err), s)
      | Inr _ \<Rightarrow>
          (case py_any_to_json_value Z h options of
             Inl err \<Rightarrow> (Inl err, s)
           | Inr v \<Rightarrow>
               (case publish_request_new W now topic v (Some timeout) s of
                  (r, s1) \<Rightarrow> (map_err to_py_error r, s1))))"


section \<open>Delivery\<close>

definition event_target :: "callback_event \<Rightarrow> (string \<times> (string + py_argument)) option" where
  "event_target event =
     (case event of
        TopicCallback topic payload \<Rightarrow> Some (topic, Inr (ArgValue payload))
      | LidarCallback topic payload points \<Rightarrow> Some (topic, lidar_to_py topic payload points)
      | VideoFrame data width height \<Rightarrow> Some (''video'', image_to_py data width height)
      | AudioFrame data _ _ \<Rightarrow> Some (''audio'', Inr (ArgSamples data))
      | FutureResolve _ _ \<Rightarrow> None)"

lemma report_total: "\<exists>g'. diagnostics_report now conversion cls g = Some g'"
proof -
  have "class_position (safe_exception_class cls) ERROR_CLASSES \<noteq> None"
    by (simp add: safe_exception_class_def ERROR_CLASSES_def)
  then show ?thesis by (auto simp: diagnostics_report_def)
qed

lemma dispatch_callback_total: "\<exists>call g'. dispatch_callback v generation key argument g = (call, Some g')"
  using report_total by (fastforce simp: dispatch_callback_def split: option.split sum.split)

lemma dispatch_callback_call:
  "fst (dispatch_callback v generation key argument g) = Some (rc, arg) \<longleftrightarrow>
     de_attached v \<and> de_first v = generation \<and> de_second v = generation \<and> map_of (de_registry v) key = Some rc \<and> argument = Inr arg"
  by (auto simp: dispatch_callback_def split: option.splits sum.splits)

lemma dispatch_delivery_exact:
  assumes "d_event d = Some event"
  shows "\<exists>call p'. dispatch_delivery v d p = Some (call, p') \<and>
    (\<forall>rc arg. call = Some (rc, arg) \<longleftrightarrow>
      de_attached v \<and> de_first v = d_generation d \<and> de_second v = d_generation d \<and>
      (\<exists>key. event_target event = Some (key, Inr arg) \<and> map_of (de_registry v) key = Some rc))"
proof -
  define g where "g = dp_failures (if dp_generation p \<noteq> Some (d_generation d)
    then \<lparr>dp_failures = callback_diagnostics_reset (d_generation d) (dp_failures p), dp_generation = Some (d_generation d)\<rparr> else p)"
  have total: "\<exists>call g'. dispatch_event_checked v (d_generation d) event g = (call, Some g')"
    using dispatch_callback_total by (cases event) (auto simp: dispatch_event_checked_def)
  have call: "fst (dispatch_event_checked v (d_generation d) event g) = Some (rc, arg) \<longleftrightarrow>
      de_attached v \<and> de_first v = d_generation d \<and> de_second v = d_generation d \<and>
      (\<exists>key. event_target event = Some (key, Inr arg) \<and> map_of (de_registry v) key = Some rc)" for rc arg
    by (cases event) (auto simp: dispatch_event_checked_def event_target_def dispatch_callback_call)
  from total obtain c g' where cg: "dispatch_event_checked v (d_generation d) event g = (c, Some g')" by blast
  then show ?thesis
    using call by (auto simp: dispatch_delivery_def assms Let_def g_def)
qed




section \<open>The loop in a settled session\<close>

text \<open>What the dispatcher meets while nobody resets the session or changes the registry: the interpreter is
  there and the generation is the channel's.\<close>

definition settled_env ::
  "instant \<Rightarrow> callback_registry \<Rightarrow> (py_ref \<Rightarrow> py_argument \<Rightarrow> string option) \<Rightarrow> delivery \<Rightarrow> event_bus \<Rightarrow> dispatch_env" where
  "settled_env now reg call d b =
     \<lparr>de_now = now, de_attached = True, de_first = eb_current b, de_registry = reg, de_second = eb_current b, de_call = call\<rparr>"

definition invocation_of :: "callback_registry \<Rightarrow> delivery \<Rightarrow> invocation option" where
  "invocation_of reg d =
     (case Option.bind (d_event d) event_target of
        Some (key, Inr arg) \<Rightarrow> map_option (\<lambda>rc. (rc, arg)) (map_of reg key)
      | _ \<Rightarrow> None)"

lemma try_delivery_current: "try_delivery b = (r, b') \<Longrightarrow> eb_current b' = eb_current b"
proof (induction b rule: try_delivery.induct)
  case (1 b)
  from 1(3) show ?case
    using 1(1,2) by (subst (asm) try_delivery.simps) (auto simp: Let_def drop_queued_def split: list.splits if_splits)
qed

lemma dispatch_settled:
  assumes "d_event d \<noteq> None" "d_generation d = eb_current b"
  shows "\<exists>p'. dispatch_delivery (settled_env now reg call d b) d p = Some (invocation_of reg d, p')"
proof -
  obtain event where event: "d_event d = Some event" using assms(1) by blast
  obtain c p' where c: "dispatch_delivery (settled_env now reg call d b) d p = Some (c, p')"
      and eq: "\<And>rc arg. c = Some (rc, arg) \<longleftrightarrow> (\<exists>key. event_target event = Some (key, Inr arg) \<and> map_of reg key = Some rc)"
    using dispatch_delivery_exact [OF event, of "settled_env now reg call d b" p] assms(2) by (auto simp: settled_env_def)
  have "c = invocation_of reg d"
  proof (cases "invocation_of reg d")
    case None
    then show ?thesis
      using eq by (cases c) (fastforce simp: invocation_of_def event split: option.splits sum.splits)+
  next
    case (Some i)
    then show ?thesis
      using eq by (cases i) (force simp: invocation_of_def event split: option.splits sum.splits)
  qed
  with c show ?thesis by blast
qed

lemma dispatcher_drains:
  assumes "\<forall>d\<in>set (live b). d_event d \<noteq> None"
  shows "\<exists>b' p'. dispatcher_loop (settled_env now reg call) b p = Some (List.map_filter (invocation_of reg) (live b), b', p') \<and>
    live b' = [] \<and> eb_outstanding b' = eb_outstanding b"
  using assms
proof (induction "live b" arbitrary: b p)
  case Nil
  then obtain e b' where "try_delivery b = (Inl e, b')" "live b' = []" "eb_outstanding b' = eb_outstanding b"
    using try_delivery_receives [of b] by (cases "try_delivery b") (auto simp: receive_spec_def)
  then show ?case using Nil by (simp add: dispatcher_loop.simps [of _ b] List.map_filter_def)
next
  case (Cons d ds)
  then obtain b' where td: "try_delivery b = (Inr d, b')"
    using try_delivery_receives [of b] by (cases "try_delivery b") (auto simp: receive_spec_def split: list.splits)
  note d = try_delivery_live [OF td]
  have ds: "live b' = ds" using d Cons(2) by simp
  have out: "eb_outstanding (drop_delivery d b') = eb_outstanding b" using d by (simp add: drop_delivery_def)
  have cur: "eb_current b' = eb_current b" by (rule try_delivery_current [OF td])
  obtain p' where step: "dispatch_delivery (settled_env now reg call d b') d p = Some (invocation_of reg d, p')"
    using dispatch_settled [of d b'] Cons(3) d cur by (metis list.set_intros(1))
  have "\<exists>b2 p2. dispatcher_loop (settled_env now reg call) (drop_delivery d b') p' =
      Some (List.map_filter (invocation_of reg) ds, b2, p2) \<and> live b2 = [] \<and> eb_outstanding b2 = eb_outstanding b"
    using Cons(1) [of "drop_delivery d b'" p'] Cons(3) d ds out by auto
  then show ?case
    unfolding Cons(2) [symmetric] by (auto simp: dispatcher_loop.simps [of _ b] td step List.map_filter_def split: option.split)
qed

lemma bus_inv_live: "bus_inv L b \<Longrightarrow> d \<in> set (live b) \<Longrightarrow> d_event d \<noteq> None"
  using live_held [of d b] by (auto simp: bus_inv_def sized_def split: option.splits)

text \<open>
  Property C14. A message of a subscribed topic reaches Python. If the service admits it (rate limit, subscription,
  room in the channel) and the session settles, the dispatcher's loop ends, and among its
  invocations is that of the callback registered for the topic, with the message's value: after
  those of the control events queued before it, in their order, and before those of the media
  events; every event of the session has then been consumed.
\<close>

theorem message_reaches_callback:
  assumes "dc_reachable W s" and "topic = str_field ''topic'' message"
    and "event_size (rt_layout W) (TopicCallback topic message) = (0, n)"
    and "topic \<noteq> []" "fst (should_process now topic s)" "topic \<in> dc_subscriptions s"
    and "eb_receiver (dc_events s)" "\<not> exceeds 0 n (dc_events s)"
    and "map_of reg topic = Some rc"
  shows "\<exists>b' p'. dispatcher_loop (settled_env later reg call) (dc_events (dispatch_subscription W now message s)) p =
      Some (List.map_filter (invocation_of reg) (filter (is_current (dc_events s)) (eb_control (dc_events s))) @
            (rc, ArgValue message) #
            List.map_filter (invocation_of reg) (filter (is_current (dc_events s)) (eb_media (dc_events s))), b', p') \<and>
    live b' = []"
proof -
  let ?e = "\<lparr>d_event = Some (TopicCallback topic message), d_generation = session_id s, d_class = 0, d_bytes = n\<rparr>"
  let ?b = "dc_events (dispatch_subscription W now message s)"
  have b: "?b = enqueue ?e (dc_events s)"
    unfolding dispatch_subscription_events [OF assms(1-3)] using assms(4-8) by simp
  have cur: "is_current ?b = is_current (dc_events s)" unfolding b by (auto simp: enqueue_def is_current_def fun_eq_iff)
  have live: "live ?b = filter (is_current (dc_events s)) (eb_control (dc_events s)) @ ?e #
      filter (is_current (dc_events s)) (eb_media (dc_events s))"
    unfolding live_def cur unfolding b by (simp add: enqueue_def is_current_def session_id_def)
  have "\<forall>d\<in>set (live ?b). d_event d \<noteq> None"
    using bus_inv_live [OF dc_inv_bus [OF dc_reachable_inv [OF assms(1)]]] unfolding live by (auto simp: live_def)
  from dispatcher_drains [OF this, of later reg call p] show ?thesis
    unfolding live by (auto simp: List.map_filter_def invocation_of_def event_target_def assms(9))
qed

definition subscribed_service :: "string list dc_service" where
  "subscribed_service = service0\<lparr>dc_transport := [''json''], dc_subscriptions := {''rt/x''}\<rparr>"

lemma subscribed_service_reachable: "dc_reachable runtime0 subscribed_service"
proof -
  have "subscribed_service = snd (subscribe runtime0 moment0 ''rt/x'' service0)"
    by (simp add: subscribed_service_def subscribe_def send_message_locked_def runtime0_def open_port_def service0_def dc_initial_def)
  then show ?thesis using dc_reachable.step [OF service0_reachable dc_step.service [OF service_step.subscribe]] by metis
qed

definition message_x :: json where
  "message_x = JObject [(''topic'', JString ''rt/x'')]"

theorem message_reaches_callback_witness:
  "\<exists>b' p'. dispatcher_loop (settled_env 0 [(''rt/x'', \<lparr>rc_id = 1, rc_callback = 5\<rparr>)] (\<lambda>_ _. None))
     (dc_events (dispatch_subscription runtime0 moment0 message_x subscribed_service)) dispatcher_new =
     Some ([(\<lparr>rc_id = 1, rc_callback = 5\<rparr>, ArgValue message_x)], b', p')"
proof -
  define n where "n = snd (event_size layout64 (TopicCallback ''rt/x'' message_x))"
  have n: "event_size (rt_layout runtime0) (TopicCallback ''rt/x'' message_x) = (0, n)" by (simp add: n_def runtime0_def)
  have topic: "''rt/x'' = str_field ''topic'' message_x" by (simp add: message_x_def str_field_def unwrap_or_default_def)
  have small: "n \<le> 1024"
    by (simp add: n_def message_x_def layout64_def json_size_def size_loop.simps sat_add_def sat_mul_def usize_max_def CONTROL_BYTES_def)
  have process: "fst (should_process moment0 ''rt/x'' subscribed_service)" by (simp add: should_process_def throttle_limit_def dc_types_def)
  have bus: "dc_events subscribed_service = set_generation 41 bus0"
    by (simp add: subscribed_service_def service0_def dc_initial_def)
  have room: "\<not> exceeds 0 n (dc_events subscribed_service)"
    using small unfolding bus by (simp add: exceeds_def held_def set_generation_def bus0_def count_limit_def byte_limit_def CONTROL_BYTES_def)
  show ?thesis
    using message_reaches_callback [OF subscribed_service_reachable topic n _ process _ _ room,
        where reg = "[(''rt/x'', \<lparr>rc_id = 1, rc_callback = 5\<rparr>)]" and rc = "\<lparr>rc_id = 1, rc_callback = 5\<rparr>" and later = 0
          and call = "\<lambda>_ _. None" and p = dispatcher_new]
    unfolding bus by (auto simp: subscribed_service_def set_generation_def bus0_def List.map_filter_def)
qed

section \<open>Bridges\<close>

text \<open>
  Subscribing from Python is all or nothing: on an error (not callable, channel closed, message not
  sent) the registry, the ids and the subscriptions are as before; on success the message has been handed
  to the transport, the topic is subscribed and its callback, under a new id, is the given one, and
  no other topic is affected. Unsubscribing likewise removes exactly the topic.
\<close>

theorem py_subscribe_atomic:
  "(case py_subscribe W now callable topic callback s of
      (Inl err, s') \<Rightarrow>
        pi_registry s' = pi_registry s \<and> pi_next_id s' = pi_next_id s \<and> dc_subscriptions (pi_service s') = dc_subscriptions (pi_service s)
    | (Inr _, s') \<Rightarrow>
        callable callback \<and> dc_subscriptions (pi_service s') = insert topic (dc_subscriptions (pi_service s)) \<and>
        map_of (pi_registry s') = (map_of (pi_registry s))(topic \<mapsto> \<lparr>rc_id = pi_next_id s, rc_callback = callback\<rparr>) \<and>
        pi_next_id s' = pi_next_id s + 1 \<and>
        (\<exists>body. port_send_text (rt_port W) body (dc_transport (pi_service s)) = (Inr (), dc_transport (pi_service s')))) \<and>
   (case py_unsubscribe W now topic s of
      (Inl err, s') \<Rightarrow>
        pi_registry s' = pi_registry s \<and> dc_subscriptions (pi_service s') = dc_subscriptions (pi_service s)
    | (Inr _, s') \<Rightarrow>
        dc_subscriptions (pi_service s') = dc_subscriptions (pi_service s) - {topic} \<and>
        map_of (pi_registry s') = (map_of (pi_registry s))(topic := None) \<and>
        (\<exists>body. port_send_text (rt_port W) body (dc_transport (pi_service s)) = (Inr (), dc_transport (pi_service s'))))"
proof -
  have send: "dc_subscriptions s1 = dc_subscriptions dc \<and>
      (r = Inr () \<longrightarrow> (\<exists>body. port_send_text (rt_port W) body (dc_transport dc) = (Inr (), dc_transport s1)))"
    if "send_message_locked W now topic None ty dc = (r, s1)" for ty dc r s1
    using that by (auto simp: send_message_locked_def note_control_send_def Let_def split: if_splits sum.splits prod.splits)
  show ?thesis
    using send [of "dt_subscribe dc_types" "pi_service s"] send [of "dt_unsubscribe dc_types" "pi_service s"]
    by (auto simp: py_subscribe_def py_unsubscribe_def ensure_callable_def subscribe_def unsubscribe_def register_callback_def
        hm_insert_def hm_remove_def update_conv' map_of_filter_key fun_eq_iff split: sum.splits prod.splits)
qed

text \<open>
  Property C15. A request from Python is faithful in both directions: if the argument stands for a JSON value within
  the limits, the message sent carries exactly this value under the topic, and when a response with
  the request's key arrives, the caller is woken with new objects that stand for the response, with
  every existing object untouched.
\<close>

theorem python_request_faithful:
  assumes "dc_reachable W s" "reads h n r v" "0 < size_of_value Z"
    and "value_nodes v \<le> 16384" "value_bytes Z v \<le> 1024 * 1024" "json_nesting v \<le> 64"
    and "py_publish_begin W Z h called now topic (Some r) ty timeout s = (Inr tk, s1)"
    and "jget ''type'' message \<noteq> None" "chunk_source message = None" "incoming_key W message = tk_key tk" "json_wf message"
  shows "(\<exists>m body. rt_to_string W m = Inr body \<and> jget ''topic'' m = Some (JString topic) \<and> jget ''data'' m = Some v \<and>
      port_send_text (rt_port W) body (dc_transport s) = (Inr (), dc_transport s1)) \<and>
    (\<exists>s2 x h' s3. run_resolve W now' message s1 = Some s2 \<and> py_publish_end W Woken tk h s2 = (Some (Inr x), h', s3) \<and>
      reads h' (length h) x message \<and> (\<forall>i < length h. h' ! i = h ! i) \<and> dc_pending s3 = dc_pending s)"
proof -
  have "py_any_to_json_value Z h r = Inr v" by (rule object_converted [OF assms(2-6)])
  then have pub: "publish_begin W now topic (Some v) ty (Some timeout) expect_any s = (Inr tk, s1)"
    using assms(7) by (auto simp: py_publish_begin_def optional_data_def publish_def split: sum.splits prod.splits)
  obtain s2 where s2: "run_resolve W now' message s1 = Some s2" "fst (publish_end W Woken tk s2) = Some (Inr message)"
      "dc_pending (snd (publish_end W Woken tk s2)) = dc_pending s"
    using request_resolved [OF assms(1) pub assms(8-10), of now'] by (auto simp: expectation_validate_def expect_any_def)
  obtain x h' where x: "json_value_to_py message h = (x, h')" by force
  have made: "made message h (x, h')" using json_to_py_made(1) [OF assms(11), of h] x by simp
  have sent: "\<exists>m body. rt_to_string W m = Inr body \<and> jget ''topic'' m = Some (JString topic) \<and> jget ''data'' m = Some v \<and>
      port_send_text (rt_port W) body (dc_transport s) = (Inr (), dc_transport s1)"
    using publish_outcome [OF dc_reachable_inv [OF assms(1)], where now = now and topic = topic and d = "Some v" and ty = ty
        and timeout = "Some timeout" and e = expect_any] unfolding pub by auto
  have "py_publish_end W Woken tk h s2 = (Some (Inr x), h', snd (publish_end W Woken tk s2))"
    using s2(2) by (cases "publish_end W Woken tk s2") (simp add: py_publish_end_def x)
  with sent s2 made show ?thesis by (auto simp: made_def)
qed

lemma request_of_seven:
  "\<exists>tk s1. py_publish_begin runtime0 sizes64 heap0 moment0 moment0 ''rt/api/sport/request'' (Some 0) (Some ''req'') ten_seconds service0 =
     (Inr tk, s1) \<and> tk_key tk = ''req $ rt/api/sport/request''"
proof -
  have seven: "py_any_to_json_value sizes64 heap0 0 = Inr (JNumber (NInt 7))"
    by (rule object_converted [where n = 0], rule reads.scalar) (simp_all add: heap0_def sizes64_def)
  show ?thesis
    by (simp add: py_publish_begin_def seven optional_data_def publish_def publish_begin_def Let_def validated_timeout_def ten_seconds_def
        moment0_def runtime0_def open_port_def service0_def dc_initial_def generate_message_key_def MAX_PENDING_REQUESTS_def
        send_message_locked_def hm_insert_def session_id_def set_generation_def outgoing_identifier_from_data_def extract_key_def
        nested_scalar_to_string_def unwrap_or_default_def)
qed

theorem python_request_faithful_witness:
  "\<exists>tk s1 s2 x h' s3. py_publish_begin runtime0 sizes64 heap0 moment0 moment0 ''rt/api/sport/request'' (Some 0) (Some ''req'')
       ten_seconds service0 = (Inr tk, s1) \<and>
     run_resolve runtime0 moment0 response0 s1 = Some s2 \<and> py_publish_end runtime0 Woken tk heap0 s2 = (Some (Inr x), h', s3) \<and>
     reads h' 4 x response0"
proof -
  obtain tk s1 where start: "py_publish_begin runtime0 sizes64 heap0 moment0 moment0 ''rt/api/sport/request'' (Some 0) (Some ''req'')
      ten_seconds service0 = (Inr tk, s1)" and key: "incoming_key runtime0 response0 = tk_key tk"
    using request_of_seven response0_facts(3) by auto
  have seven: "reads heap0 0 0 (JNumber (NInt 7))" by (rule reads.scalar) (simp_all add: heap0_def)
  have wf: "json_wf response0" by (simp add: response0_def bt_invar_def less_list_code less_char_def)
  have len: "length heap0 = 4" by (simp add: heap0_def)
  have limits: "0 < size_of_value sizes64" "value_nodes (JNumber (NInt 7)) \<le> 16384"
      "value_bytes sizes64 (JNumber (NInt 7)) \<le> 1024 * 1024" "json_nesting (JNumber (NInt 7)) \<le> 64"
    by (simp_all add: sizes64_def)
  show ?thesis
    using python_request_faithful [OF service0_reachable seven limits start response0_facts(1,2) key wf, of moment0] start
    unfolding len by blast
qed

end
