(* ===== verification/Rtc_State.thy ===== *)
theory Rtc_State
  imports Transport_Prelude
begin

text \<open>
  \<open>src/src/infrastructure/rtc_engine/state.rs\<close>: the ready state of a peer, driven by the WebRTC
  callbacks, and the holder that gives every peer its own atomic cell. The cells live in a store
  indexed by allocation; a callback captured by an old peer keeps the index of its cell.
\<close>

datatype rtc_ready_state = Closed | Connecting | Open | Disconnected_state | Failed

datatype rtc_state_event =
  ChannelOpened | ChannelClosed | PeerConnected | PeerDisconnected | PeerFailed | PeerClosed

fun state_u8 :: "rtc_ready_state \<Rightarrow> u8" where
  "state_u8 Closed = 0"
| "state_u8 Connecting = 1"
| "state_u8 Open = 2"
| "state_u8 Disconnected_state = 3"
| "state_u8 Failed = 4"

definition from_u8 :: "u8 \<Rightarrow> rtc_ready_state" where
  "from_u8 v =
     (if v = 1 then Connecting else if v = 2 then Open else if v = 3 then Disconnected_state
      else if v = 4 then Failed else Closed)"

fun state_str :: "rtc_ready_state \<Rightarrow> string" where
  "state_str Closed = ''closed''"
| "state_str Connecting = ''connecting''"
| "state_str Open = ''open''"
| "state_str Disconnected_state = ''disconnected''"
| "state_str Failed = ''failed''"

text \<open>The atomic read-modify-write on the cell.\<close>

definition apply_event :: "u8 \<Rightarrow> rtc_state_event \<Rightarrow> u8" where
  "apply_event v ev =
     (let current = from_u8 v in
      if current = Closed \<or> current = Failed then v
      else state_u8
        (if ev = ChannelClosed \<or> ev = PeerClosed then Closed
         else if ev = PeerFailed then Failed
         else if ev = ChannelOpened \<and> current = Connecting then Open
         else if ev = PeerDisconnected \<and> current = Open then Disconnected_state
         else if ev = PeerConnected \<and> current = Disconnected_state then Open
         else current))"

record state_holder =
  sh_cells :: "u8 list"
  sh_current :: nat

definition holder_new :: state_holder where
  "holder_new = \<lparr>sh_cells = [state_u8 Closed], sh_current = 0\<rparr>"

definition holder_get :: "state_holder \<Rightarrow> rtc_ready_state" where
  "holder_get h = from_u8 (sh_cells h ! sh_current h)"

text \<open>\<open>try_get\<close> gives up when the mutex is held.\<close>

definition holder_try_get :: "bool \<Rightarrow> state_holder \<Rightarrow> rtc_ready_state option" where
  "holder_try_get locked h = (if locked then None else Some (holder_get h))"

definition holder_set :: "rtc_ready_state \<Rightarrow> state_holder \<Rightarrow> state_holder" where
  "holder_set s h = h\<lparr>sh_cells := (sh_cells h)[sh_current h := state_u8 s]\<rparr>"

definition holder_arc :: "state_holder \<Rightarrow> nat" where
  "holder_arc h = sh_current h"

definition holder_reset :: "state_holder \<Rightarrow> state_holder" where
  "holder_reset h = \<lparr>sh_cells = sh_cells h @ [state_u8 Closed], sh_current = length (sh_cells h)\<rparr>"

text \<open>A callback applies an event to the cell it captured.\<close>

definition cell_event :: "nat \<Rightarrow> rtc_state_event \<Rightarrow> state_holder \<Rightarrow> state_holder" where
  "cell_event i ev h = h\<lparr>sh_cells := (sh_cells h)[i := apply_event (sh_cells h ! i) ev]\<rparr>"

section \<open>Specification by history\<close>

definition is_terminal :: "rtc_state_event \<Rightarrow> bool" where
  "is_terminal ev \<longleftrightarrow> ev = ChannelClosed \<or> ev = PeerClosed \<or> ev = PeerFailed"

definition peer_change :: "rtc_state_event \<Rightarrow> bool" where
  "peer_change ev \<longleftrightarrow> ev = PeerConnected \<or> ev = PeerDisconnected"

text \<open>The state of an open channel: what the latest peer notification says.\<close>

definition open_status :: "rtc_state_event list \<Rightarrow> rtc_ready_state" where
  "open_status es =
     (case rev (filter peer_change es) of PeerDisconnected # _ \<Rightarrow> Disconnected_state | _ \<Rightarrow> Open)"

definition history_state :: "rtc_state_event list \<Rightarrow> rtc_ready_state" where
  "history_state es =
     (case dropWhile (\<lambda>e. \<not> is_terminal e) es of
        PeerFailed # _ \<Rightarrow> Failed
      | _ # _ \<Rightarrow> Closed
      | [] \<Rightarrow> (case dropWhile (\<lambda>e. e \<noteq> ChannelOpened) es of [] \<Rightarrow> Connecting | _ # later \<Rightarrow> open_status later))"

lemma from_u8_inverse [simp]: "from_u8 (state_u8 s) = s"
  by (cases s) (simp_all add: from_u8_def)

lemma apply_event_terminal: "from_u8 v = Closed \<or> from_u8 v = Failed \<Longrightarrow> fold (\<lambda>e v. apply_event v e) es v = v"
  by (induction es) (auto simp: apply_event_def Let_def)

definition next_state :: "rtc_ready_state \<Rightarrow> rtc_state_event \<Rightarrow> rtc_ready_state" where
  "next_state s ev = from_u8 (apply_event (state_u8 s) ev)"

lemma apply_event_state: "apply_event (state_u8 s) ev = state_u8 (next_state s ev)"
  by (simp add: next_state_def apply_event_def Let_def)

lemma fold_apply_event:
  "fold (\<lambda>e v. apply_event v e) es (state_u8 s) = state_u8 (fold (\<lambda>e s. next_state s e) es s)"
  by (induction es arbitrary: s) (simp_all add: apply_event_state)

lemma next_state_simps [simp]:
  "next_state Closed e = Closed" "next_state Failed e = Failed"
  "next_state Connecting ChannelOpened = Open" "peer_change e \<Longrightarrow> next_state Connecting e = Connecting"
  "next_state Open PeerDisconnected = Disconnected_state" "next_state Disconnected_state PeerConnected = Open"
  "next_state Open PeerConnected = Open" "next_state Disconnected_state PeerDisconnected = Disconnected_state"
  "next_state Open ChannelOpened = Open" "next_state Disconnected_state ChannelOpened = Disconnected_state"
  by (auto simp: next_state_def apply_event_def peer_change_def Let_def from_u8_def)

lemma next_state_terminal:
  "s \<noteq> Closed \<Longrightarrow> s \<noteq> Failed \<Longrightarrow> is_terminal e \<Longrightarrow> next_state s e = (if e = PeerFailed then Failed else Closed)"
  by (auto simp: next_state_def apply_event_def is_terminal_def Let_def)

lemma live_event_cases: "\<not> is_terminal e \<Longrightarrow> e = ChannelOpened \<or> e = PeerConnected \<or> e = PeerDisconnected"
  by (cases e) (simp_all add: is_terminal_def)

abbreviation run_states :: "rtc_state_event list \<Rightarrow> rtc_ready_state \<Rightarrow> rtc_ready_state" where
  "run_states es s \<equiv> fold (\<lambda>e s. next_state s e) es s"

lemma run_terminal [simp]: "run_states es Closed = Closed" "run_states es Failed = Failed"
  by (induction es) simp_all

lemma run_live:
  "list_all (\<lambda>e. \<not> is_terminal e) es \<Longrightarrow> s \<noteq> Closed \<Longrightarrow> s \<noteq> Failed \<Longrightarrow>
     run_states es s \<noteq> Closed \<and> run_states es s \<noteq> Failed"
proof (induction es arbitrary: s)
  case (Cons e es)
  have "next_state s e \<noteq> Closed \<and> next_state s e \<noteq> Failed"
    using Cons.prems live_event_cases [of e] by (cases s) (auto simp: peer_change_def)
  with Cons show ?case by simp
qed simp

lemma run_connecting:
  "list_all (\<lambda>e. \<not> is_terminal e \<and> e \<noteq> ChannelOpened) es \<Longrightarrow> run_states es Connecting = Connecting"
  by (induction es) (auto dest!: live_event_cases simp: peer_change_def)

lemma run_open: "list_all (\<lambda>e. \<not> is_terminal e) es \<Longrightarrow> run_states es Open = open_status es"
proof (induction es rule: rev_induct)
  case Nil
  then show ?case by (simp add: open_status_def)
next
  case (snoc e es)
  have st: "open_status es = Open \<or> open_status es = Disconnected_state"
    by (simp add: open_status_def split: list.splits rtc_state_event.splits)
  from snoc have "e = ChannelOpened \<or> e = PeerConnected \<or> e = PeerDisconnected"
    by (auto dest: live_event_cases)
  with snoc st show ?case by (auto simp: open_status_def peer_change_def)
qed

lemma run_history: "run_states es Connecting = history_state es"
proof -
  let ?pre = "takeWhile (\<lambda>e. \<not> is_terminal e) es" and ?post = "dropWhile (\<lambda>e. \<not> is_terminal e) es"
  have es: "es = ?pre @ ?post" by simp
  have pre: "list_all (\<lambda>e. \<not> is_terminal e) ?pre" by (auto simp: list_all_iff dest: set_takeWhileD)
  show ?thesis
  proof (cases ?post)
    case (Cons t rest)
    then have t: "is_terminal t" by (simp add: dropWhile_eq_Cons_conv)
    have "run_states es Connecting = run_states rest (next_state (run_states ?pre Connecting) t)"
      using es Cons by (metis fold_append fold_simps(2) comp_apply)
    also have "next_state (run_states ?pre Connecting) t = (if t = PeerFailed then Failed else Closed)"
      using run_live [OF pre, of Connecting] t by (intro next_state_terminal) auto
    finally show ?thesis using Cons t by (cases t) (auto simp: history_state_def)
  next
    case Nil
    then have live: "list_all (\<lambda>e. \<not> is_terminal e) es" by (simp add: list_all_iff)
    let ?early = "takeWhile (\<lambda>e. e \<noteq> ChannelOpened) es" and ?rest = "dropWhile (\<lambda>e. e \<noteq> ChannelOpened) es"
    have "list_all (\<lambda>e. \<not> is_terminal e \<and> e \<noteq> ChannelOpened) ?early"
      using live by (auto simp: list_all_iff dest: set_takeWhileD)
    then have early: "run_states ?early Connecting = Connecting" by (rule run_connecting)
    show ?thesis
    proof (cases ?rest)
      case rest: Nil
      then have "?early = es" by (metis append_Nil2 takeWhile_dropWhile_id)
      with early have "run_states es Connecting = Connecting" by simp
      then show ?thesis unfolding history_state_def Nil rest by simp
    next
      case (Cons c later)
      then have c: "c = ChannelOpened" by (simp add: dropWhile_eq_Cons_conv)
      have es': "es = ?early @ ChannelOpened # later" using Cons c by (metis takeWhile_dropWhile_id)
      have "list_all (\<lambda>e. \<not> is_terminal e) later"
        using live arg_cong [OF es', of set] by (auto simp: list_all_iff)
      moreover have "run_states es Connecting = run_states later Open"
        using early by (subst es') simp
      ultimately have "run_states es Connecting = open_status later" by (simp add: run_open)
      then show ?thesis unfolding history_state_def Nil Cons by simp
    qed
  qed
qed

section \<open>Properties\<close>

text \<open>
  Property C40. The ready state of a peer that started connecting is determined by its callbacks:
  the first terminal callback decides between failed and closed for good, otherwise the state is
  connecting until the data channel opens, and from then on open or disconnected as the latest
  peer notification since the opening says.
\<close>

theorem ready_state_history:
  "fold (\<lambda>e v. apply_event v e) es (state_u8 Connecting) = state_u8 (history_state es)"
  unfolding fold_apply_event run_history ..

text \<open>
  Callbacks of an earlier peer cannot touch the session that follows: once the holder
  has been reset, events on any cell handed out before leave the state that \<open>get\<close> reports alone,
  whatever the order of the events.
\<close>

theorem ready_state_isolated:
  assumes "sh_current h < length (sh_cells h)" and "\<forall>(i, ev)\<in>set evs. i < length (sh_cells h)"
  shows "holder_get (fold (\<lambda>(i, ev). cell_event i ev) evs (holder_set s (holder_reset h))) = s \<and>
    holder_arc (holder_reset h) \<notin> set (map fst evs)"
proof -
  let ?n = "length (sh_cells h)"
  have "sh_current (fold (\<lambda>(i, ev). cell_event i ev) evs g) = sh_current g \<and>
      sh_cells (fold (\<lambda>(i, ev). cell_event i ev) evs g) ! ?n = sh_cells g ! ?n"
    if "\<forall>(i, ev)\<in>set evs. i < ?n" for g
    using that by (induction evs arbitrary: g) (auto simp: cell_event_def)
  with assms show ?thesis
    by (auto simp: holder_get_def holder_set_def holder_reset_def holder_arc_def nth_append)
qed

theorem ready_state_isolated_witness:
  "holder_get (fold (\<lambda>(i, ev). cell_event i ev) [(0, PeerFailed), (0, ChannelClosed)]
     (holder_set Connecting (holder_reset holder_new))) = Connecting"
  using ready_state_isolated [of holder_new "[(0, PeerFailed), (0, ChannelClosed)]" Connecting]
  by (simp add: holder_new_def)

end
