(* ===== verification/Transport_Port.thy ===== *)
theory Transport_Port
  imports Data_Channel_Invariant
begin

text \<open>
  The contract of \<open>DataChannelPort\<close> (\<open>src/src/protocol/ports.rs\<close>) as the data channel service relies on
  it: the generation the transport tags its messages with, the retained fault, and the ready state.
  What the service guarantees over any transport that keeps the contract is proved once, here.
\<close>

locale transport_port =
  fixes ready :: "'t \<Rightarrow> string"
    and send :: "string \<Rightarrow> 't \<Rightarrow> (string + unit) \<times> 't"
    and set_gen :: "u64 \<Rightarrow> 't \<Rightarrow> (string + unit) \<times> 't"
    and take_err :: "'t \<Rightarrow> ingress_message option \<times> 't"
    and generation :: "'t \<Rightarrow> u64"
    and invar :: "'t \<Rightarrow> bool"
  assumes send_invar: "invar t \<Longrightarrow> invar (snd (send m t))"
    and send_generation: "generation (snd (send m t)) = generation t"
    and set_gen_invar: "invar t \<Longrightarrow> invar (snd (set_gen g t))"
    and set_gen_generation: "generation (snd (set_gen g t)) = g"
    and set_gen_clears: "fst (take_err (snd (set_gen g t))) = None"
    and set_gen_closes: "invar t \<Longrightarrow> generation t \<noteq> g \<Longrightarrow> ready (snd (set_gen g t)) \<noteq> ''open''"
    and take_tagged: "invar t \<Longrightarrow> fst (take_err t) = Some f \<Longrightarrow>
      im_generation f = generation t \<and> (\<exists>e. im_payload f = TransportFault e)"
    and take_invar: "invar t \<Longrightarrow> invar (snd (take_err t))"
    and take_generation: "generation (snd (take_err t)) = generation t"
begin

definition port :: "'t dc_port" where
  "port = \<lparr>port_ready_state = ready, port_send_text = send, port_set_generation = set_gen, port_take_error = take_err\<rparr>"

text \<open>Service and transport agree on the generation.\<close>

definition linked :: "'t dc_service \<Rightarrow> bool" where
  "linked s \<longleftrightarrow> invar (dc_transport s) \<and> generation (dc_transport s) = session_id s"

end

text \<open>The service over such a transport.\<close>

locale service_over = transport_port +
  fixes W :: "('a, 'k) runtime"
  assumes over: "rt_port W = port"
begin

lemma linked_frame [simp]:
  "linked (s\<lparr>dc_pending := x0\<rparr>) = linked s" "linked (s\<lparr>dc_subscriptions := x1\<rparr>) = linked s"
  "linked (s\<lparr>dc_chunks := x2\<rparr>) = linked s" "linked (s\<lparr>dc_validation_key := x3\<rparr>) = linked s"
  "linked (s\<lparr>dc_opened := x4\<rparr>) = linked s" "linked (s\<lparr>dc_heartbeat_last := x5\<rparr>) = linked s"
  "linked (s\<lparr>dc_heartbeat_running := x6\<rparr>) = linked s" "linked (s\<lparr>dc_heartbeat_stop_tx := x7\<rparr>) = linked s"
  "linked (s\<lparr>dc_network_probe := x8\<rparr>) = linked s" "linked (s\<lparr>dc_last_process := x9\<rparr>) = linked s"
  "linked (s\<lparr>dc_decoder := x10\<rparr>) = linked s" "linked (s\<lparr>dc_lidar := x11\<rparr>) = linked s"
  "linked (s\<lparr>dc_request_sequence := x12\<rparr>) = linked s" "linked (s\<lparr>dc_diag := x13\<rparr>) = linked s"
  "linked (s\<lparr>dc_next_token := x14\<rparr>) = linked s" "linked (s\<lparr>dc_completed := x15\<rparr>) = linked s"
  by (simp_all add: linked_def session_id_def)

lemma linked_simps [simp]:
  "linked (note_parse now s) = linked s" "linked (note_chunk now s) = linked s"
  "linked (note_callback now s) = linked s" "linked (note_binary now s) = linked s"
  "linked (note_lidar_submit now s) = linked s" "linked (note_lidar_invalid now s) = linked s"
  "linked (note_control_send now s) = linked s" "linked (complete token r s) = linked s"
  "linked (stop_heartbeat s) = linked s" "linked (fail_all_pending reason s) = linked s"
  by (simp_all add: note_defs complete_def stop_heartbeat_def fail_all_pending_eq)

lemma pending_linked [simp]:
  "linked (fail_pending key err s) = linked s" "linked (resolve_pending_response key msg s) = linked s"
  "linked (guard_drop key token s) = linked s" "linked (reject_binary_response W now msg reason s) = linked s"
  "linked (snd (should_process now t s)) = linked s"
  by (simp_all add: fail_pending_def resolve_pending_response_def guard_drop_def reject_binary_response_def
      should_process_def Let_def split: option.splits)

lemma events_linked: "eb_current b = session_id s \<Longrightarrow> linked (s\<lparr>dc_events := b\<rparr>) = linked s"
  by (simp add: linked_def session_id_def)

lemma moved_linked: "linked s \<Longrightarrow> invar t \<Longrightarrow> generation t = generation (dc_transport s) \<Longrightarrow> linked (s\<lparr>dc_transport := t\<rparr>)"
  by (simp add: linked_def session_id_def)

lemma send_linked: "linked s \<Longrightarrow> linked (snd (send_message_locked W now topic d ty s))"
proof -
  assume link: "linked s"
  have "linked (s\<lparr>dc_transport := snd (send body (dc_transport s))\<rparr>)" for body
    by (rule moved_linked [OF link]) (use link in \<open>simp_all add: linked_def send_invar send_generation\<close>)
  then show ?thesis
    using link by (auto simp: send_message_locked_def over port_def Let_def case_prod_beta split: sum.splits)
qed

lemma send_linkedE: "send_message_locked W now topic d ty s = (r, s') \<Longrightarrow> linked s \<Longrightarrow> linked s'"
  using send_linked [of s now topic d ty] by simp

lemma announce_linked: "invar (dc_transport s) \<Longrightarrow> linked (snd (announce_generation W s))"
  using set_gen_invar [of "dc_transport s" "session_id s"] set_gen_generation [of "session_id s" "dc_transport s"]
  by (auto simp: announce_generation_def linked_def over port_def session_id_def split: prod.splits)

lemma linked_invar: "linked s \<Longrightarrow> invar (dc_transport s)"
  by (simp add: linked_def)

lemma next_session_transport [simp]: "dc_transport (next_session s) = dc_transport s"
  by (simp add: next_session_def)

lemma publish_begin_linked: "linked s \<Longrightarrow> linked (snd (publish_begin W now topic d ty timeout e s))"
  by (auto simp: publish_begin_def Let_def split: sum.splits prod.splits dest: send_linkedE)

lemma publish_request_linked: "linked s \<Longrightarrow> linked (snd (publish_request_new W now topic options timeout s))"
  by (auto simp: publish_request_new_def generated_identity_id_def Let_def publish_begin_linked split: option.splits)

lemma subscribe_linked:
  "linked s \<Longrightarrow> linked (snd (subscribe W now topic s))" "linked s \<Longrightarrow> linked (snd (unsubscribe W now topic s))"
  by (auto simp: subscribe_def unsubscribe_def split: sum.splits prod.splits dest: send_linkedE)

lemma start_new_session_linked: "invar (dc_transport s) \<Longrightarrow> linked (start_new_session W s)"
  using announce_linked by (simp add: start_new_session_def Let_def next_session_def)

lemma process_fault_linked: "linked s \<Longrightarrow> linked (process_fault W now err s)"
  using announce_linked [of "next_session s"]
  by (auto simp: process_fault_def Let_def linked_invar split: prod.splits sum.splits)

lemma heartbeat_linked: "linked s \<Longrightarrow> linked (snd (heartbeat_iteration W now epoch s))"
  by (auto simp: heartbeat_iteration_def Let_def send_linked)

lemma expire_chunks_linked: "linked (expire_chunks now s) = linked s"
proof -
  have "linked (fold (\<lambda>key. fail_pending key e) ks x) = linked x" for ks e x
    by (induction ks arbitrary: x) simp_all
  then show ?thesis by (simp add: expire_chunks_def split: prod.splits)
qed

lemma run_resolve_linked: "linked s \<Longrightarrow> run_resolve W now msg s = Some s' \<Longrightarrow> linked s'"
  by (auto simp: run_resolve_def handle_chunked_response_def Let_def
      split: if_splits option.splits prod.splits sum.splits bool.splits)

lemma network_once_linked: "linked s \<Longrightarrow> linked (request_network_status_once W now s)"
  by (simp add: request_network_status_once_def send_linked)

lemma send_validation_linked: "linked s \<Longrightarrow> linked (send_validation W now key s)"
  by (simp add: send_validation_def send_linked split: sum.splits)

lemma start_heartbeat_linked: "start_heartbeat_in_session now s = Some s' \<Longrightarrow> linked s' = linked s"
  by (auto simp: start_heartbeat_in_session_def split: if_splits)

lemma text_response_linked: "linked s \<Longrightarrow> handle_text_response W now msg s = Some s' \<Longrightarrow> linked s'"
  by (auto simp: handle_text_response_def handle_validation_def handle_validation_err_def handle_rtc_inner_req_def Let_def
      send_linked send_validation_linked network_once_linked dest!: start_heartbeat_linked
      split: if_splits option.splits)

lemma should_process_linked: "should_process now t s = (go, s') \<Longrightarrow> linked s \<Longrightarrow> linked s'"
  using pending_linked(5) [of now t s] by simp

lemma dispatch_linked: "linked s \<Longrightarrow> linked (dispatch_subscription W now msg s)"
proof -
  assume link: "linked s"
  have "linked (s1\<lparr>dc_events := b\<rparr>)" if "should_process now t s = (go, s1)"
    "try_send (rt_layout W) (session_id s1) ev (dc_events s1) = (r, b)" for t go s1 ev r b
    using should_process_linked [OF that(1) link] that(2) permit_current [of "rt_layout W" "session_id s1" ev "dc_events s1"]
    by (simp add: events_linked session_id_def)
  then show ?thesis
    using link by (auto simp: dispatch_subscription_def Let_def dest: should_process_linked split: prod.splits bool.splits sum.splits)
qed

lemma deal_array_buffer_linked: "linked s \<Longrightarrow> deal_array_buffer W now bs s = Some (out, s') \<Longrightarrow> linked s'"
  by (auto simp: deal_array_buffer_def process_binary_payload_def Let_def dest: should_process_linked
      split: if_splits sum.splits option.splits prod.splits bool.splits)

lemma process_ingress_linked: "linked s \<Longrightarrow> process_ingress W now msg s = Some s' \<Longrightarrow> linked s'"
  by (auto simp: process_ingress_def process_fault_linked split: if_splits dc_message.splits sum.splits option.splits
      dest: run_resolve_linked [rotated] text_response_linked [rotated] dest!: deal_array_buffer_linked [rotated] intro!: dispatch_linked)

lemma router_linked: "linked s \<Longrightarrow> router_iteration W now incoming s = Some s' \<Longrightarrow> linked s'"
proof -
  assume link: "linked s" and res: "router_iteration W now incoming s = Some s'"
  let ?s1 = "s\<lparr>dc_transport := snd (take_err (dc_transport s))\<rparr>"
  have s1: "linked ?s1"
    by (rule moved_linked [OF link]) (use link in \<open>simp_all add: linked_def take_invar take_generation\<close>)
  obtain s2 where s2: "(case fst (take_err (dc_transport s)) of None \<Rightarrow> Some ?s1 | Some f \<Rightarrow> process_ingress W now f ?s1) = Some s2"
    using res by (auto simp: router_iteration_def over port_def Let_def case_prod_beta split: option.splits)
  then have "linked s2" using s1 by (auto split: option.splits dest: process_ingress_linked)
  with res s2 show ?thesis
    by (auto simp: router_iteration_def over port_def Let_def case_prod_beta expire_chunks_linked
        split: option.splits dest!: process_ingress_linked [rotated])
qed

lemma service_step_linked: "service_step W s s' \<Longrightarrow> linked s \<Longrightarrow> linked s'"
proof (induction rule: service_step.induct)
  case (route now incoming s s')
  then show ?case by (blast intro: router_linked)
next
  case (prepare s)
  then show ?case by (simp add: prepare_ingress_def announce_linked linked_invar)
qed (auto simp: publish_begin_linked publish_request_linked publish_end_def Let_def publish_without_callback_def send_linked
    subscribe_linked set_decoder_def stop_background_tasks_def start_new_session_linked linked_invar stop_heartbeat_def
    heartbeat_linked events_linked)

lemma start_new_session_transport:
  shows "dc_transport (start_new_session W s) = snd (set_gen (session_id s + 1) (dc_transport s))"
    and "session_id (start_new_session W s) = session_id s + 1"
    and "dc_pending (start_new_session W s) = []"
  using over
  by (simp_all add: start_new_session_def Let_def fail_all_pending_eq stop_heartbeat_def announce_generation_def
      next_session_def set_generation_def session_id_def port_def split: prod.splits)

text \<open>A reset silences the transport until it is opened again, and leaves no fault of the old session.\<close>

lemma reset_closes:
  assumes "linked s"
  shows "port_ready_state (rt_port W) (dc_transport (start_new_session W s)) \<noteq> ''open''"
    and "fst (port_take_error (rt_port W) (dc_transport (start_new_session W s))) = None"
proof -
  have "session_id s + 1 \<noteq> session_id s" by simp
  then have "generation (dc_transport s) \<noteq> session_id s + 1" using assms by (simp add: linked_def)
  then show "port_ready_state (rt_port W) (dc_transport (start_new_session W s)) \<noteq> ''open''"
    using assms set_gen_closes by (simp add: start_new_session_transport linked_def over port_def)
  show "fst (port_take_error (rt_port W) (dc_transport (start_new_session W s))) = None"
    using assms set_gen_clears by (simp add: start_new_session_transport over port_def)
qed

lemma publish_after_reset:
  assumes "linked s" "validated_timeout W now (case timeout of Some t \<Rightarrow> t | None \<Rightarrow> ten_seconds) = Inr duration"
  shows "publish_begin W now topic d ty timeout e (start_new_session W s) =
    (Inl ''Data channel is not open'', start_new_session W s)"
  using reset_closes(1) [OF assms(1)] assms(2) by (simp add: publish_begin_def Let_def)

text \<open>A retained fault ends the session at the router's next iteration.\<close>

lemma retained_fault_routed:
  assumes link: "linked s" and fault: "fst (take_err (dc_transport s)) = Some m" and err: "im_payload m = TransportFault err"
    and s': "s' = expire_chunks now (process_fault W now err (s\<lparr>dc_transport := snd (take_err (dc_transport s))\<rparr>))"
  shows "router_iteration W now incoming s = (case incoming of None \<Rightarrow> Some s' | Some m \<Rightarrow> process_ingress W now m s')"
proof -
  have "im_generation m = session_id s" using take_tagged [OF _ fault] link by (auto simp: linked_def)
  then have "process_ingress W now m (s\<lparr>dc_transport := t\<rparr>) = Some (process_fault W now err (s\<lparr>dc_transport := t\<rparr>))" for t
    using err by (simp add: process_ingress_def session_id_def)
  with fault show ?thesis
    unfolding s' by (simp add: router_iteration_def over port_def case_prod_beta Let_def)
qed

end

lemma expire_chunks_empty: "dc_pending s = [] \<Longrightarrow> expire_chunks now s = s\<lparr>dc_chunks := snd (ca_expire (at_instant now) (dc_chunks s))\<rparr>"
proof -
  assume empty: "dc_pending s = []"
  have "fold (\<lambda>key. fail_pending key err) ks x = x" if "dc_pending x = []" for ks err and x :: "'a dc_service"
    using that by (induction ks) (simp_all add: fail_pending_def)
  with empty show ?thesis by (simp add: expire_chunks_def split: prod.splits)
qed

lemma process_fault_state:
  "dc_pending (process_fault W now err s) = []"
  "dc_completed (process_fault W now err s) = dc_completed s @ map (\<lambda>p. (pc_token (snd p), Inl err)) (dc_pending s)"
  "session_id (process_fault W now err s) = session_id s + 1"
  "\<not> dc_opened (process_fault W now err s)"
  by (simp_all add: process_fault_def Let_def fail_all_pending_eq tokens_def stop_heartbeat_def note_control_send_def
      announce_generation_def next_session_def set_generation_def session_id_def split: prod.splits sum.splits)

end
