(* ===== verification/Rtc_Engine.thy ===== *)
theory Rtc_Engine
  imports Rtc_State Transport_Port
begin

text \<open>
  \<open>src/src/infrastructure/rtc_engine/engine.rs\<close>, \<open>handlers.rs\<close> and \<open>sdp.rs\<close>: the engine that owns the
  WebRTC peer, as the transport of the data channel service. The peer itself (offers, descriptions,
  the actual sending) belongs to the WebRTC crate: its outcomes are arguments. The engine's state is
  one record: the bounded ingress queue to the router, the ingress generation, the ready-state
  cells, which peer objects exist, the bounded command queue, the sender task (identified by the
  generation and the cell it captured), and the retained fault. Texts of queue errors are the
  crates' and an argument.
\<close>

definition COMMAND_QUEUE_CAPACITY :: nat where [policy_defs]: "COMMAND_QUEUE_CAPACITY = 128"
definition MAX_COMMAND_BYTES :: nat where [policy_defs]: "MAX_COMMAND_BYTES = 1024 * 1024"

datatype engine_command = CmdText string | CmdBinary bytes

record queue_texts =
  qt_command_full :: string
  qt_command_closed :: string
  qt_ingress_full :: string
  qt_ingress_closed :: string

record ingress_logs =
  il_full :: repeat_log
  il_closed :: repeat_log
  il_invalid_text :: repeat_log
  il_oversized :: repeat_log

record engine =
  en_incoming :: "ingress_message list"
  en_incoming_capacity :: nat
  en_incoming_open :: bool
  en_generation :: u64
  en_holder :: state_holder
  en_peer :: bool
  en_data_channel :: bool
  en_audio_track :: bool
  en_commands :: "engine_command list option" \<comment> \<open>the queue behind \<open>command_tx\<close>\<close>
  en_task :: "(u64 \<times> nat \<times> engine_command option) option" \<comment> \<open>the running sender task and the command it is sending\<close>
  en_fault :: "ingress_message option"
  en_resources :: bool
  en_offering :: "u64 option" \<comment> \<open>the generation captured by an offer whose peer is not there yet\<close>

definition engine_new :: "nat \<Rightarrow> engine" where
  "engine_new capacity =
     \<lparr>en_incoming = [], en_incoming_capacity = capacity, en_incoming_open = True, en_generation = 0,
      en_holder = holder_new, en_peer = False, en_data_channel = False, en_audio_track = False,
      en_commands = None, en_task = None, en_fault = None, en_resources = False, en_offering = None\<rparr>"

text \<open>Sending into the ingress queue: the error is \<open>Some True\<close> for a full, \<open>Some False\<close> for a closed queue.\<close>

definition incoming_try_send :: "ingress_message \<Rightarrow> engine \<Rightarrow> bool option \<times> engine" where
  "incoming_try_send m e =
     (let (failed, q) = channel_try_send (en_incoming_capacity e) (en_incoming_open e) (en_incoming e) m
      in (failed, e\<lparr>en_incoming := q\<rparr>))"

definition store_cell :: "nat \<Rightarrow> rtc_ready_state \<Rightarrow> engine \<Rightarrow> engine" where
  "store_cell cell st e = e\<lparr>en_holder := (en_holder e)\<lparr>sh_cells := (sh_cells (en_holder e))[cell := state_u8 st]\<rparr>\<rparr>"

definition fault_message :: "u64 \<Rightarrow> ingress_message" where
  "fault_message g = for_generation (TransportFault ''DataChannel send failed'') g"

definition record_transport_fault :: "u64 \<Rightarrow> nat \<Rightarrow> engine \<Rightarrow> engine" where
  "record_transport_fault g cell e =
     (if g \<noteq> en_generation e then e
      else snd (incoming_try_send (fault_message g) ((store_cell cell Closed e)\<lparr>en_fault := Some (fault_message g)\<rparr>)))"

text \<open>\<open>send_commands\<close> and the sender task around it, in two steps: the task receives a command and checks
  generation and state; later the data channel answers the send it awaits. Other operations may run
  in between. The task's end drops the receiver of the command queue.\<close>

definition task_ends :: "engine \<Rightarrow> engine" where
  "task_ends e = e\<lparr>en_commands := map_option (\<lambda>_. []) (en_commands e), en_task := None\<rparr>"

definition sender_receive :: "engine \<Rightarrow> engine" where
  "sender_receive e =
     (case (en_task e, en_commands e) of
        (Some (g, cell, None), Some (c # q)) \<Rightarrow>
          if g \<noteq> en_generation e then task_ends e
          else if from_u8 (sh_cells (en_holder e) ! cell) \<noteq> Open then record_transport_fault g cell (task_ends e)
          else e\<lparr>en_commands := Some q, en_task := Some (g, cell, Some c)\<rparr>
      | _ \<Rightarrow> e)"

definition sender_answered :: "string + unit \<Rightarrow> engine \<Rightarrow> engine" where
  "sender_answered outcome e =
     (case en_task e of
        Some (g, cell, Some c) \<Rightarrow>
          (case outcome of
             Inr _ \<Rightarrow> e\<lparr>en_task := Some (g, cell, None)\<rparr>
           | Inl _ \<Rightarrow> record_transport_fault g cell (task_ends e))
      | _ \<Rightarrow> e)"

definition send_command :: "queue_texts \<Rightarrow> nat \<Rightarrow> engine_command \<Rightarrow> engine \<Rightarrow> (string + unit) \<times> engine" where
  "send_command X size_bytes c e =
     (if size_bytes > MAX_COMMAND_BYTES then (Inl ''DataChannel command exceeds byte limit'', e)
      else if holder_get (en_holder e) \<noteq> Open then (Inl ''DataChannel is not open'', e)
      else case en_commands e of
        None \<Rightarrow> (Inl ''DataChannel command sender is not initialized'', e)
      | Some q \<Rightarrow>
          if en_task e = None then (Inl (qt_command_closed X), e)
          else if length q \<ge> COMMAND_QUEUE_CAPACITY then (Inl (qt_command_full X), e)
          else (Inr (), e\<lparr>en_commands := Some (q @ [c])\<rparr>))"

definition engine_send_text :: "queue_texts \<Rightarrow> string \<Rightarrow> engine \<Rightarrow> (string + unit) \<times> engine" where
  "engine_send_text X message e = send_command X (length message) (CmdText message) e"

definition engine_send_binary :: "queue_texts \<Rightarrow> bytes \<Rightarrow> engine \<Rightarrow> (string + unit) \<times> engine" where
  "engine_send_binary X bs e = send_command X (length bs) (CmdBinary bs) e"

definition set_message_sender :: "engine \<Rightarrow> (string + unit) \<times> engine" where
  "set_message_sender e = (Inl ''RtcEngine sender is fixed at construction'', e)"

definition set_ingress_generation :: "u64 \<Rightarrow> engine \<Rightarrow> (string + unit) \<times> engine" where
  "set_ingress_generation g e =
     (let e1 = e\<lparr>en_fault := None, en_generation := g\<rparr>
      in (Inr (), if en_generation e \<noteq> g then e1\<lparr>en_holder := holder_set Closed (en_holder e1)\<rparr> else e1))"

definition take_transport_error :: "engine \<Rightarrow> ingress_message option \<times> engine" where
  "take_transport_error e = (en_fault e, e\<lparr>en_fault := None\<rparr>)"

definition engine_ready_state :: "engine \<Rightarrow> string" where
  "engine_ready_state e = state_str (holder_get (en_holder e))"

definition current_ready_state :: "engine \<Rightarrow> rtc_ready_state" where
  "current_ready_state e = holder_get (en_holder e)"

definition route_text_message :: "queue_texts \<Rightarrow> string \<Rightarrow> engine \<Rightarrow> (string + unit) \<times> engine" where
  "route_text_message X payload e =
     (case incoming_try_send (for_generation (Text payload) (en_generation e)) e of
        (None, e') \<Rightarrow> (Inr (), e')
      | (Some full, e') \<Rightarrow> (Inl (if full then qt_ingress_full X else qt_ingress_closed X), e'))"

definition route_binary_message :: "queue_texts \<Rightarrow> bytes \<Rightarrow> engine \<Rightarrow> (string + unit) \<times> engine" where
  "route_binary_message X payload e =
     (case incoming_try_send (for_generation (Binary payload) (en_generation e)) e of
        (None, e') \<Rightarrow> (Inr (), e')
      | (Some full, e') \<Rightarrow>
          (Inl (''Failed to send binary message to incoming queue: '' @
                (if full then qt_ingress_full X else qt_ingress_closed X)), e'))"

section \<open>Callbacks of the peer (handlers.rs)\<close>

definition on_open :: "u64 \<Rightarrow> nat \<Rightarrow> engine \<Rightarrow> engine" where
  "on_open g cell e =
     (if g \<noteq> en_generation e then e else e\<lparr>en_holder := cell_event cell ChannelOpened (en_holder e)\<rparr>)"

definition on_close :: "u64 \<Rightarrow> nat \<Rightarrow> engine \<Rightarrow> engine" where
  "on_close g cell e =
     (if g \<noteq> en_generation e then e else e\<lparr>en_holder := cell_event cell ChannelClosed (en_holder e)\<rparr>)"

definition message_size_allowed :: "bool \<Rightarrow> nat \<Rightarrow> bool" where
  "message_size_allowed is_string n \<longleftrightarrow> n \<le> (if is_string then MAX_TEXT_BYTES else MAX_BINARY_BYTES)"

definition decode_text_message :: "bytes \<Rightarrow> string option" where
  "decode_text_message d =
     (if length d > MAX_TEXT_BYTES then None else if utf8_valid d then Some (bytes_str d) else None)"

definition enqueue_current :: "u64 \<Rightarrow> dc_message \<Rightarrow> engine \<Rightarrow> bool option \<times> engine" where
  "enqueue_current g payload e =
     (if g \<noteq> en_generation e then (None, e) else incoming_try_send (for_generation payload g) e)"

definition handle_send_error :: "instant \<Rightarrow> bool option \<Rightarrow> ingress_logs \<Rightarrow> ingress_logs" where
  "handle_send_error now failed l =
     (case failed of
        None \<Rightarrow> l
      | Some True \<Rightarrow> l\<lparr>il_full := snd (rl_record now (il_full l))\<rparr>
      | Some False \<Rightarrow> l\<lparr>il_closed := snd (rl_record now (il_closed l))\<rparr>)"

definition on_message :: "instant \<Rightarrow> u64 \<Rightarrow> nat \<Rightarrow> bool \<Rightarrow> bytes \<Rightarrow> ingress_logs \<times> engine \<Rightarrow> ingress_logs \<times> engine" where
  "on_message now g cell is_string d le =
     (case le of (l, e) \<Rightarrow>
        let st = from_u8 (sh_cells (en_holder e) ! cell) in
        if st = Closed \<or> st = Failed then (l, e)
        else if g \<noteq> en_generation e then (l, e)
        else if \<not> message_size_allowed is_string (length d)
        then (l\<lparr>il_oversized := snd (rl_record now (il_oversized l))\<rparr>, e)
        else if is_string
        then (case decode_text_message d of
                None \<Rightarrow> (l\<lparr>il_invalid_text := snd (rl_record now (il_invalid_text l))\<rparr>, e)
              | Some body \<Rightarrow>
                  (case enqueue_current g (Text body) e of (failed, e') \<Rightarrow> (handle_send_error now failed l, e')))
        else (case enqueue_current g (Binary d) e of (failed, e') \<Rightarrow> (handle_send_error now failed l, e')))"

datatype peer_state = PeerNew | PeerConnecting | PeerStateConnected | PeerStateDisconnected | PeerStateFailed | PeerStateClosed

fun peer_event :: "peer_state \<Rightarrow> rtc_state_event option" where
  "peer_event PeerStateConnected = Some PeerConnected"
| "peer_event PeerStateDisconnected = Some PeerDisconnected"
| "peer_event PeerStateFailed = Some PeerFailed"
| "peer_event PeerStateClosed = Some PeerClosed"
| "peer_event _ = None"

definition on_peer_state :: "u64 \<Rightarrow> nat \<Rightarrow> peer_state \<Rightarrow> engine \<Rightarrow> engine" where
  "on_peer_state g cell st e =
     (if g \<noteq> en_generation e then e
      else case peer_event st of
        None \<Rightarrow> e
      | Some ev \<Rightarrow> e\<lparr>en_holder := cell_event cell ev (en_holder e)\<rparr>)"

section \<open>Offer, answer, close\<close>

text \<open>\<open>close_inner\<close> as one step, as calls under the gate of the session see it. Its stages, interleaved with other calls, are in
  \<open>Close_Task\<close>, where a cleanup without an offer beside it is shown to be this step.\<close>

definition close_inner :: "engine \<Rightarrow> engine" where
  "close_inner e =
     (let e1 = e\<lparr>en_holder := holder_set Closed (en_holder e), en_commands := None, en_task := None,
                 en_audio_track := False, en_resources := False, en_data_channel := False, en_peer := False, en_offering := None\<rparr>
      in e1\<lparr>en_holder := holder_set Closed (en_holder e1)\<rparr>)"

text \<open>An offer in its steps, since an offer that is abandoned leaves the engine between them: the peer of
  before is closed and the new cell starts connecting; the new peer, its channel and its sender task
  are stored, with the generation captured before.\<close>

definition offer_begin :: "engine \<Rightarrow> engine" where
  "offer_begin e =
     (let e1 = close_inner e
      in e1\<lparr>en_holder := holder_set Connecting (holder_reset (en_holder e1)), en_offering := Some (en_generation e1)\<rparr>)"

definition offer_create :: "bool \<Rightarrow> engine \<Rightarrow> engine" where
  "offer_create kept e =
     (case en_offering e of
        None \<Rightarrow> e
      | Some g \<Rightarrow>
          e\<lparr>en_resources := kept, en_peer := True, en_data_channel := True, en_audio_track := True,
            en_commands := Some [], en_task := Some (g, holder_arc (en_holder e), None), en_offering := None\<rparr>)"

text \<open>\<open>created\<close> is the outcome of creating the peer connection, \<open>kept\<close> whether its resources are still
  registered when the sender task is handed over, \<open>offered\<close> the outcome of offer and gathering.\<close>

definition prepare_offer :: "string + unit \<Rightarrow> bool \<Rightarrow> string + string \<Rightarrow> engine \<Rightarrow> (string + string) \<times> engine" where
  "prepare_offer created kept offered e =
     (let e2 = offer_begin e
      in case created of
           Inl err \<Rightarrow> (Inl err, close_inner e2)
         | Inr _ \<Rightarrow>
             let e3 = offer_create kept e2
             in if \<not> kept then (Inl ''Peer closed while preparing offer'', close_inner e3)
                else (case offered of
                        Inl err \<Rightarrow> (Inl err, close_inner e3)
                      | Inr sdp \<Rightarrow> (Inr sdp, e3)))"

text \<open>The waiting loop of \<open>apply_answer\<close> over the states and elapsed times it observes.\<close>

fun await_open :: "string \<Rightarrow> (rtc_ready_state \<times> nat) list \<Rightarrow> (string + unit) option" where
  "await_open diagnostic [] = None"
| "await_open diagnostic ((st, elapsed) # rest) =
     (if st = Open then Some (Inr ())
      else if st = Closed \<or> st = Failed then Some (Inl ''Data channel closed or failed before opening'')
      else if elapsed > secs 30 then Some (Inl diagnostic)
      else await_open diagnostic rest)"

text \<open>\<open>parse_answer_payload\<close>: the JSON text, the full description and the plain SDP are parsed by
  third-party code; \<open>'d\<close> is the type of descriptions.\<close>

definition parse_answer_payload ::
  "(string \<Rightarrow> json option) \<Rightarrow> (json \<Rightarrow> 'd option) \<Rightarrow> (string \<Rightarrow> string + 'd) \<Rightarrow> string \<Rightarrow> string + 'd" where
  "parse_answer_payload from_str from_value answer payload =
     (case from_str payload of
        None \<Rightarrow> answer payload
      | Some v \<Rightarrow>
          if Option.bind (jget ''sdp'' v) as_str = Some ''reject''
          then Inl ''Go2 is connected by another WebRTC client. Close your mobile APP and try again.''
          else (case from_value v of
                  Some d \<Rightarrow> Inr d
                | None \<Rightarrow>
                    (case Option.bind (jget ''sdp'' v) as_str of
                       Some sdp \<Rightarrow> answer sdp
                     | None \<Rightarrow> answer payload)))"

definition apply_answer ::
  "(string \<Rightarrow> string + 'd) \<Rightarrow> ('d \<Rightarrow> string + unit) \<Rightarrow> string \<Rightarrow> (rtc_ready_state \<times> nat) list \<Rightarrow> string \<Rightarrow> engine
     \<Rightarrow> (string + unit) option" where
  "apply_answer parse_answer set_remote diagnostic polls payload e =
     (if \<not> en_peer e then Some (Inl ''Peer connection is not initialized'')
      else case parse_answer payload of
        Inl err \<Rightarrow> Some (Inl err)
      | Inr d \<Rightarrow>
          (case set_remote d of Inl err \<Rightarrow> Some (Inl err) | Inr _ \<Rightarrow> await_open diagnostic polls))"

section \<open>Invariant and runs\<close>

definition command_bytes :: "engine_command \<Rightarrow> nat" where
  "command_bytes c = (case c of CmdText m \<Rightarrow> length m | CmdBinary bs \<Rightarrow> length bs)"

definition is_live :: "u8 \<Rightarrow> bool" where
  "is_live v \<longleftrightarrow> from_u8 v \<noteq> Closed \<and> from_u8 v \<noteq> Failed"

text \<open>Cells of earlier peers are dead; the sender task works on the current cell; a live current cell
  has a sender task of the current generation, or belongs to an offer whose peer is not there yet;
  queues are bounded; a retained fault carries the current generation.\<close>

definition holder_live :: "state_holder \<Rightarrow> bool" where
  "holder_live h \<longleftrightarrow> is_live (sh_cells h ! sh_current h)"

definition holder_inv :: "state_holder \<Rightarrow> bool" where
  "holder_inv h \<longleftrightarrow> sh_current h < length (sh_cells h) \<and> (\<forall>i < length (sh_cells h). is_live (sh_cells h ! i) \<longrightarrow> i = sh_current h)"

definition task_inv :: "engine \<Rightarrow> bool" where
  "task_inv e \<longleftrightarrow>
     (\<forall>g cell c. en_task e = Some (g, cell, c) \<longrightarrow> cell = sh_current (en_holder e) \<and> en_commands e \<noteq> None) \<and>
     (en_offering e \<noteq> None \<longrightarrow> \<not> en_peer e \<and> en_task e = None) \<and>
     (holder_live (en_holder e) \<longrightarrow>
        (\<exists>c. en_task e = Some (en_generation e, sh_current (en_holder e), c)) \<or>
        \<not> en_peer e \<and> holder_get (en_holder e) = Connecting \<and> en_offering e = Some (en_generation e))"

definition queues_inv :: "engine \<Rightarrow> bool" where
  "queues_inv e \<longleftrightarrow>
     length (en_incoming e) \<le> en_incoming_capacity e \<and>
     (\<forall>q. en_commands e = Some q \<longrightarrow> length q \<le> COMMAND_QUEUE_CAPACITY \<and> (\<forall>c\<in>set q. command_bytes c \<le> MAX_COMMAND_BYTES)) \<and>
     (\<forall>m. en_fault e = Some m \<longrightarrow> m = fault_message (en_generation e))"

definition engine_inv :: "engine \<Rightarrow> bool" where
  "engine_inv e \<longleftrightarrow> holder_inv (en_holder e) \<and> task_inv e \<and> queues_inv e"

text \<open>What happens to the engine by itself or through its users. Callbacks may come from any peer that
  was ever created, but the current cell has callbacks only once its peer exists; \<open>taken\<close> is the
  router reading the ingress queue, \<open>dropped\<close> the router going away.\<close>

definition bound_cell :: "nat \<Rightarrow> engine \<Rightarrow> bool" where
  "bound_cell cell e \<longleftrightarrow> cell < length (sh_cells (en_holder e)) \<and> (cell = sh_current (en_holder e) \<longrightarrow> en_peer e)"

inductive engine_activity :: "queue_texts \<Rightarrow> engine \<Rightarrow> engine \<Rightarrow> bool" for X where
  send_text: "engine_activity X e (snd (engine_send_text X m e))"
| send_binary: "engine_activity X e (snd (engine_send_binary X bs e))"
| take_error: "engine_activity X e (snd (take_transport_error e))"
| receive: "engine_activity X e (sender_receive e)"
| answered: "engine_activity X e (sender_answered outcome e)"
| opened: "bound_cell cell e \<Longrightarrow> engine_activity X e (on_open g cell e)"
| closed: "bound_cell cell e \<Longrightarrow> engine_activity X e (on_close g cell e)"
| peer: "bound_cell cell e \<Longrightarrow> engine_activity X e (on_peer_state g cell st e)"
| message: "bound_cell cell e \<Longrightarrow> engine_activity X e (snd (on_message now g cell is_string d (l, e)))"
| route_text: "engine_activity X e (snd (route_text_message X m e))"
| route_binary: "engine_activity X e (snd (route_binary_message X bs e))"
| taken: "engine_activity X e (e\<lparr>en_incoming := tl (en_incoming e)\<rparr>)"
| dropped: "engine_activity X e (e\<lparr>en_incoming_open := False\<rparr>)"

text \<open>Together with what its owners do: the service announces generations, connection attempts prepare
  offers and close.\<close>

inductive engine_step :: "queue_texts \<Rightarrow> engine \<Rightarrow> engine \<Rightarrow> bool" for X where
  activity: "engine_activity X e e' \<Longrightarrow> engine_step X e e'"
| generation: "engine_step X e (snd (set_ingress_generation g e))"
| begin_offer: "engine_step X e (offer_begin e)"
| create_peer: "engine_step X e (offer_create kept e)"
| close: "engine_step X e (close_inner e)"

inductive engine_reachable :: "queue_texts \<Rightarrow> nat \<Rightarrow> engine \<Rightarrow> bool" for X capacity where
  new: "engine_reachable X capacity (engine_new capacity)"
| step: "engine_reachable X capacity e \<Longrightarrow> engine_step X e e' \<Longrightarrow> engine_reachable X capacity e'"

lemmas engine_inv_defs = engine_inv_def task_inv_def queues_inv_def

lemma dead_event: "\<not> is_live v \<Longrightarrow> apply_event v ev = v"
  by (simp add: is_live_def apply_event_def Let_def)

lemma live_after_event: "is_live (apply_event v ev) \<Longrightarrow> is_live v"
  using dead_event by metis

lemma not_live_Closed [simp]: "\<not> is_live 0"
  by (simp add: is_live_def from_u8_def)

lemma holder_set_closed [simp]:
  "sh_current (holder_set st h) = sh_current h"
  "holder_inv h \<Longrightarrow> holder_inv (holder_set Closed h)"
  "holder_inv h \<Longrightarrow> \<not> holder_live (holder_set Closed h)"
  by (auto simp: holder_set_def holder_inv_def holder_live_def nth_list_update)

lemma cell_event_holder:
  "sh_current (cell_event i ev h) = sh_current h"
  "i < length (sh_cells h) \<Longrightarrow> holder_inv h \<Longrightarrow> holder_inv (cell_event i ev h)"
  "i < length (sh_cells h) \<Longrightarrow> holder_live (cell_event i ev h) \<Longrightarrow> holder_live h"
  by (auto simp: cell_event_def holder_inv_def holder_live_def nth_list_update split: if_splits dest: live_after_event)

lemma holder_fresh:
  "holder_inv h \<Longrightarrow> \<not> holder_live h \<Longrightarrow> holder_inv (holder_set st (holder_reset h))"
  by (auto simp: holder_inv_def holder_live_def holder_set_def holder_reset_def nth_append)

lemma open_is_live: "from_u8 v = Open \<Longrightarrow> is_live v"
  by (simp add: is_live_def)

lemma incoming_try_send_fields [simp]:
  "en_holder (snd (incoming_try_send m e)) = en_holder e"
  "en_task (snd (incoming_try_send m e)) = en_task e"
  "en_commands (snd (incoming_try_send m e)) = en_commands e"
  "en_generation (snd (incoming_try_send m e)) = en_generation e"
  "en_fault (snd (incoming_try_send m e)) = en_fault e"
  "en_incoming_capacity (snd (incoming_try_send m e)) = en_incoming_capacity e"
  "en_peer (snd (incoming_try_send m e)) = en_peer e"
  "en_offering (snd (incoming_try_send m e)) = en_offering e"
  by (simp_all add: incoming_try_send_def split: prod.splits)

lemma incoming_try_send_length:
  "length (en_incoming e) \<le> en_incoming_capacity e \<Longrightarrow>
     length (en_incoming (snd (incoming_try_send m e))) \<le> en_incoming_capacity e"
  by (simp add: incoming_try_send_def channel_try_send_def)

lemma incoming_try_send_inv: "engine_inv e \<Longrightarrow> engine_inv (snd (incoming_try_send m e))"
  using incoming_try_send_length [of e m] by (simp add: engine_inv_defs)

lemma send_command_inv:
  "engine_inv e \<Longrightarrow> n = command_bytes c \<Longrightarrow> engine_inv (snd (send_command X n c e))"
  by (auto simp: engine_inv_defs send_command_def split: option.splits)

lemma set_generation_inv: "engine_inv e \<Longrightarrow> engine_inv (snd (set_ingress_generation g e))"
  by (auto simp: engine_inv_defs set_ingress_generation_def Let_def)

lemma close_inner_inv: "engine_inv e \<Longrightarrow> engine_inv (close_inner e)"
  by (auto simp: engine_inv_defs close_inner_def Let_def)

lemma cell_event_inv:
  "engine_inv e \<Longrightarrow> bound_cell cell e \<Longrightarrow> engine_inv (e\<lparr>en_holder := cell_event cell ev (en_holder e)\<rparr>)"
proof -
  assume inv: "engine_inv e" and bound: "bound_cell cell e"
  note ev = cell_event_holder [where i = cell and ev = ev and h = "en_holder e"]
  have "holder_get (cell_event cell ev (en_holder e)) = holder_get (en_holder e)" if "cell \<noteq> sh_current (en_holder e)"
    using that by (simp add: holder_get_def cell_event_def)
  with inv bound ev show ?thesis
    by (cases "cell = sh_current (en_holder e)") (auto simp: engine_inv_defs bound_cell_def)
qed

lemma task_ends_inv: "engine_inv e \<Longrightarrow> \<not> holder_live (en_holder e) \<Longrightarrow> engine_inv (task_ends e)"
  by (auto simp: engine_inv_defs task_ends_def)

text \<open>The task's end together with the fault it records.\<close>

lemma fault_inv:
  assumes inv: "engine_inv e" and task: "en_task e = Some (g, cell, c)"
  shows "engine_inv (record_transport_fault g cell (task_ends e))"
proof -
  have cell: "cell = sh_current (en_holder e)" using inv task by (auto simp: engine_inv_defs)
  have dead: "\<not> holder_live (en_holder e)" if "g \<noteq> en_generation e"
    using inv task that by (auto simp: engine_inv_defs)
  define e' where "e' = (store_cell cell Closed (task_ends e))\<lparr>en_fault := Some (fault_message g)\<rparr>"
  have "(en_holder e)\<lparr>sh_cells := (sh_cells (en_holder e))[cell := 0]\<rparr> = holder_set Closed (en_holder e)"
    by (simp add: holder_set_def cell)
  then have "engine_inv e'" if "g = en_generation e"
    using inv that by (auto simp: engine_inv_defs e'_def store_cell_def task_ends_def)
  then show ?thesis
    using task_ends_inv [OF inv] dead incoming_try_send_inv [of e' "fault_message g"]
    by (auto simp: record_transport_fault_def e'_def task_ends_def)
qed

lemma sender_receive_inv: "engine_inv e \<Longrightarrow> engine_inv (sender_receive e)"
proof -
  assume inv: "engine_inv e"
  have "engine_inv (task_ends e)" if "en_task e = Some (g, cell, c)" "g \<noteq> en_generation e" for g cell c
    using task_ends_inv [OF inv] inv that by (auto simp: engine_inv_defs)
  moreover have "engine_inv (e\<lparr>en_commands := Some q, en_task := Some (g, cell, Some c)\<rparr>)"
    if "en_task e = Some (g, cell, None)" "en_commands e = Some (c # q)" for g cell c q
    using inv that by (auto simp: engine_inv_defs)
  ultimately show ?thesis
    using inv by (auto simp: sender_receive_def fault_inv split: option.splits list.splits)
qed

lemma sender_answered_inv: "engine_inv e \<Longrightarrow> engine_inv (sender_answered outcome e)"
proof -
  assume inv: "engine_inv e"
  have "engine_inv (e\<lparr>en_task := Some (g, cell, None)\<rparr>)" if "en_task e = Some (g, cell, c)" for g cell c
    using inv that by (auto simp: engine_inv_defs)
  then show ?thesis using inv by (auto simp: sender_answered_def fault_inv split: option.splits sum.splits)
qed

lemma enqueue_current_inv: "engine_inv e \<Longrightarrow> engine_inv (snd (enqueue_current g payload e))"
  by (simp add: enqueue_current_def incoming_try_send_inv)

lemma on_message_state:
  "snd (on_message now g cell is_string d (l, e)) = e \<or>
   (\<exists>m. snd (on_message now g cell is_string d (l, e)) = snd (incoming_try_send m e))"
  by (auto simp: on_message_def Let_def enqueue_current_def case_prod_beta split: option.split)

lemma on_message_inv: "engine_inv e \<Longrightarrow> engine_inv (snd (on_message now g cell is_string d (l, e)))"
  using on_message_state [of now g cell is_string d l e] incoming_try_send_inv by metis

lemma route_state:
  "snd (route_text_message X m e) = snd (incoming_try_send (for_generation (Text m) (en_generation e)) e)"
  "snd (route_binary_message X bs e) = snd (incoming_try_send (for_generation (Binary bs) (en_generation e)) e)"
  by (simp_all add: route_text_message_def route_binary_message_def split: option.splits prod.splits)

lemma route_inv:
  "engine_inv e \<Longrightarrow> engine_inv (snd (route_text_message X m e))"
  "engine_inv e \<Longrightarrow> engine_inv (snd (route_binary_message X bs e))"
  by (simp_all add: route_state incoming_try_send_inv)

lemma close_inner_dead: "holder_inv (en_holder e) \<Longrightarrow> \<not> holder_live (en_holder (close_inner e))"
  by (simp add: close_inner_def Let_def)

lemma offer_begin_inv: "engine_inv e \<Longrightarrow> engine_inv (offer_begin e)"
proof -
  assume inv: "engine_inv e"
  let ?e1 = "close_inner e"
  have inv1: "engine_inv ?e1" using inv by (rule close_inner_inv)
  have fresh: "holder_inv (holder_set Connecting (holder_reset (en_holder ?e1)))"
    using inv inv1 close_inner_dead by (simp add: holder_fresh engine_inv_def)
  have "holder_get (holder_set Connecting (holder_reset h)) = Connecting" for h
    by (simp add: holder_get_def holder_set_def holder_reset_def from_u8_def)
  then show ?thesis
    using inv1 fresh by (auto simp: engine_inv_defs offer_begin_def Let_def close_inner_def)
qed

lemma offer_create_inv: "engine_inv e \<Longrightarrow> engine_inv (offer_create kept e)"
  by (auto simp: engine_inv_defs offer_create_def holder_arc_def split: option.splits)

lemma engine_activity_inv: "engine_activity X e e' \<Longrightarrow> engine_inv e \<Longrightarrow> engine_inv e'"
proof (induction rule: engine_activity.induct)
  case (take_error e)
  then show ?case by (auto simp: engine_inv_defs take_transport_error_def)
next
  case (taken e)
  then show ?case by (auto simp: engine_inv_defs)
next
  case (dropped e)
  then show ?case by (auto simp: engine_inv_defs)
next
  case (peer cell e g st)
  then show ?case by (auto simp: on_peer_state_def cell_event_inv split: option.splits)
qed (simp_all add: engine_send_text_def engine_send_binary_def send_command_inv command_bytes_def
    sender_receive_inv sender_answered_inv on_open_def on_close_def cell_event_inv on_message_inv route_inv)

lemma engine_step_inv: "engine_step X e e' \<Longrightarrow> engine_inv e \<Longrightarrow> engine_inv e'"
  by (induction rule: engine_step.induct)
    (simp_all add: engine_activity_inv set_generation_inv offer_begin_inv offer_create_inv close_inner_inv)

text \<open>Preparing an offer is a sequence of steps.\<close>

lemma prepare_offer_steps: "(engine_step X)\<^sup>*\<^sup>* e (snd (prepare_offer created kept offered e))"
proof -
  have "(engine_step X)\<^sup>*\<^sup>* e (offer_begin e)" by (intro r_into_rtranclp engine_step.begin_offer)
  moreover from this have "(engine_step X)\<^sup>*\<^sup>* e (offer_create kept (offer_begin e))"
    by (rule rtranclp.rtrancl_into_rtrancl) (rule engine_step.create_peer)
  ultimately show ?thesis
    by (auto simp: prepare_offer_def Let_def split: sum.splits intro: rtranclp.rtrancl_into_rtrancl engine_step.close)
qed

lemma engine_new_inv: "engine_inv (engine_new capacity)"
  by (simp add: engine_inv_defs engine_new_def holder_new_def holder_inv_def holder_live_def)

lemma engine_reachable_inv: "engine_reachable X capacity e \<Longrightarrow> engine_inv e"
  by (induction rule: engine_reachable.induct) (auto intro: engine_step_inv engine_new_inv)

section \<open>The engine as the service's transport\<close>

lemma engine_send_fields: "en_generation (snd (engine_send_text X m e)) = en_generation e"
  by (simp add: engine_send_text_def send_command_def split: option.splits)

lemma send_text_inv: "engine_inv e \<Longrightarrow> engine_inv (snd (engine_send_text X m e))"
  by (simp add: engine_send_text_def send_command_inv command_bytes_def)

interpretation eng: transport_port engine_ready_state "engine_send_text X" set_ingress_generation
  take_transport_error en_generation engine_inv
proof
  fix t :: engine and g and f
  show "engine_inv t \<Longrightarrow> engine_inv (snd (set_ingress_generation g t))" by (rule set_generation_inv)
  show "en_generation (snd (set_ingress_generation g t)) = g" by (simp add: set_ingress_generation_def Let_def)
  show "fst (take_transport_error (snd (set_ingress_generation g t))) = None"
    by (simp add: set_ingress_generation_def take_transport_error_def Let_def)
  show "engine_ready_state (snd (set_ingress_generation g t)) \<noteq> ''open''" if "engine_inv t" "en_generation t \<noteq> g"
    using that
    by (simp add: engine_inv_def holder_inv_def engine_ready_state_def set_ingress_generation_def holder_get_def
        holder_set_def Let_def from_u8_def)
  show "im_generation f = en_generation t \<and> (\<exists>e. im_payload f = TransportFault e)"
    if "engine_inv t" "fst (take_transport_error t) = Some f"
    using that by (auto simp: engine_inv_defs take_transport_error_def fault_message_def for_generation_def)
  show "engine_inv (snd (take_transport_error t))" if "engine_inv t"
    using that by (auto simp: engine_inv_defs take_transport_error_def)
  show "en_generation (snd (take_transport_error t)) = en_generation t" by (simp add: take_transport_error_def)
qed (simp_all only: engine_send_fields send_text_inv)

definition engine_port :: "queue_texts \<Rightarrow> engine dc_port" where
  "engine_port X = \<lparr>port_ready_state = engine_ready_state, port_send_text = engine_send_text X,
     port_set_generation = set_ingress_generation, port_take_error = take_transport_error\<rparr>"

definition engine_runtime :: "queue_texts \<Rightarrow> (engine, 'k) runtime \<Rightarrow> (engine, 'k) runtime" where
  "engine_runtime X R = R\<lparr>rt_port := engine_port X\<rparr>"

interpretation es: service_over engine_ready_state "engine_send_text X" set_ingress_generation
  take_transport_error en_generation engine_inv "engine_runtime X R"
  by unfold_locales (simp add: engine_runtime_def engine_port_def eng.port_def)

section \<open>Properties\<close>





definition texts0 :: queue_texts where
  "texts0 = \<lparr>qt_command_full = ''full'', qt_command_closed = ''closed'', qt_ingress_full = ''full'', qt_ingress_closed = ''closed''\<rparr>"

text \<open>An engine whose channel has opened, at generation 1, with an ingress queue of one.\<close>

definition engine_offered :: engine where
  "engine_offered = snd (prepare_offer (Inr ()) True (Inr ''sdp'') (snd (set_ingress_generation 1 (engine_new 1))))"

definition engine0 :: engine where
  "engine0 = on_open 1 1 engine_offered"

lemma engine0_value:
  "engine0 = \<lparr>en_incoming = [], en_incoming_capacity = 1, en_incoming_open = True, en_generation = 1,
     en_holder = \<lparr>sh_cells = [0, 2], sh_current = 1\<rparr>, en_peer = True, en_data_channel = True, en_audio_track = True,
     en_commands = Some [], en_task = Some (1, 1, None), en_fault = None, en_resources = True, en_offering = None\<rparr>"
  "bound_cell 1 engine_offered"
  by (simp_all add: engine0_def engine_offered_def engine_new_def set_ingress_generation_def prepare_offer_def close_inner_def
      offer_begin_def offer_create_def bound_cell_def
      holder_new_def holder_set_def holder_reset_def holder_arc_def on_open_def cell_event_def apply_event_def from_u8_def Let_def)

lemma engine_reachable_steps: "(engine_step X)\<^sup>*\<^sup>* e e' \<Longrightarrow> engine_reachable X n e \<Longrightarrow> engine_reachable X n e'"
  by (induction rule: rtranclp_induct) (auto intro: engine_reachable.step)

lemma engine0_reachable: "engine_reachable texts0 1 engine0"
proof -
  have "engine_reachable texts0 1 (snd (set_ingress_generation 1 (engine_new 1)))"
    by (rule engine_reachable.step [OF engine_reachable.new engine_step.generation])
  then have "engine_reachable texts0 1 engine_offered"
    unfolding engine_offered_def by (rule engine_reachable_steps [OF prepare_offer_steps])
  then show ?thesis
    unfolding engine0_def
    by (rule engine_reachable.step) (rule engine_step.activity, rule engine_activity.opened, rule engine0_value(2))
qed


text \<open>
  Callbacks of a former peer, or of a peer of another generation, do nothing: whatever
  they report (opening, closing, a change of the peer's state, a message), engine and logs stay as
  they are.
\<close>

theorem engine_stale_silent:
  assumes "engine_reachable X capacity e" and "cell < length (sh_cells (en_holder e))"
    and "g \<noteq> en_generation e \<or> cell \<noteq> sh_current (en_holder e)"
  shows "on_open g cell e = e \<and> on_close g cell e = e \<and> on_peer_state g cell st e = e \<and>
    on_message now g cell is_string d (l, e) = (l, e)"
proof (cases "g = en_generation e")
  case True
  then have dead: "\<not> is_live (sh_cells (en_holder e) ! cell)"
    using assms engine_reachable_inv [OF assms(1)] by (auto simp: engine_inv_def holder_inv_def)
  then have "e\<lparr>en_holder := cell_event cell ev (en_holder e)\<rparr> = e" for ev
    by (simp add: cell_event_def dead_event)
  with True dead show ?thesis
    by (auto simp: on_open_def on_close_def on_peer_state_def on_message_def is_live_def Let_def split: option.splits)
qed (simp add: on_open_def on_close_def on_peer_state_def on_message_def Let_def)

definition logs0 :: ingress_logs where
  "logs0 = (let l = repeat_log_new ''dc_ingress'' ''full'' in
     \<lparr>il_full = l, il_closed = l, il_invalid_text = l, il_oversized = l\<rparr>)"

theorem engine_stale_silent_witness:
  "on_close 1 0 engine0 = engine0 \<and> on_message 7 1 0 True [104] (logs0, engine0) = (logs0, engine0)"
  using engine_stale_silent [OF engine0_reachable, of 0 1 PeerNew 7 True "[104]" logs0] by (simp add: engine0_value)

text \<open>
  A text is refused exactly when it exceeds 1 MiB, when the channel is not open, or
  when 128 commands wait; otherwise it joins the end of the sender task's queue. In particular an
  open channel always has its sender.
\<close>

theorem engine_send_exact:
  assumes "engine_reachable X capacity e"
  shows "engine_send_text X m e =
    (if length m > 1048576 then (Inl ''DataChannel command exceeds byte limit'', e)
     else if engine_ready_state e \<noteq> ''open'' then (Inl ''DataChannel is not open'', e)
     else if length (the (en_commands e)) \<ge> 128 then (Inl (qt_command_full X), e)
     else (Inr (), e\<lparr>en_commands := Some (the (en_commands e) @ [CmdText m])\<rparr>))"
proof -
  have ready: "engine_ready_state e = ''open'' \<longleftrightarrow> holder_get (en_holder e) = Open"
    by (cases "holder_get (en_holder e)") (simp_all add: engine_ready_state_def)
  have "\<exists>q t. en_commands e = Some q \<and> en_task e = Some t" if "holder_get (en_holder e) = Open"
    using engine_reachable_inv [OF assms] that
    by (auto simp: engine_inv_defs holder_live_def is_live_def holder_get_def)
  then show ?thesis
    unfolding ready by (auto simp: engine_send_text_def send_command_def policy_defs)
qed

theorem engine_send_exact_witness:
  "engine_send_text texts0 ''hi'' engine0 = (Inr (), engine0\<lparr>en_commands := Some [CmdText ''hi'']\<rparr>)"
  using engine_send_exact [OF engine0_reachable, of "''hi''"]
  by (simp add: engine0_value engine_ready_state_def holder_get_def from_u8_def)

end
