(* ===== verification/Service_Engine.thy ===== *)
theory Service_Engine
  imports Data_Channel_Properties Rtc_Engine
begin

text \<open>
  The data channel service running over the RTC engine, as \<open>UnitreeSession\<close> assembles them: every
  interleaving of the service's users with the engine's callbacks, its sender task and its peers.
\<close>

text \<open>Service and engine together: the service's steps, and everything that happens to the engine except
  that the generation is the service's to announce.\<close>

inductive system_reachable :: "queue_texts \<Rightarrow> (engine, 'k) runtime \<Rightarrow> nat \<Rightarrow> engine dc_service \<Rightarrow> bool" for X R capacity where
  start: "bus_reachable (rt_layout R) events \<Longrightarrow> lidar_pool_try_new spawn n = Inr pool \<Longrightarrow>
    dc_try_new (engine_runtime X R) (engine_new capacity) events pool remote session seq spawned = Inr s \<Longrightarrow>
    system_reachable X R capacity s"
| service: "system_reachable X R capacity s \<Longrightarrow> service_step (engine_runtime X R) s s' \<Longrightarrow> system_reachable X R capacity s'"
| engine: "system_reachable X R capacity s \<Longrightarrow> engine_step X (dc_transport s) e \<Longrightarrow> en_generation e = en_generation (dc_transport s) \<Longrightarrow>
    system_reachable X R capacity (s\<lparr>dc_transport := e\<rparr>)"

lemma system_linked: "system_reachable X R capacity s \<Longrightarrow> eng.linked s"
proof (induction rule: system_reachable.induct)
  case (start events spawn n pool remote session seq spawned s)
  then show ?case
    using es.announce_linked [of "dc_initial (engine_new capacity) events pool remote session seq" X R] engine_new_inv
    by (auto simp: dc_try_new_def prepare_ingress_def dc_initial_def Let_def split: if_splits)
next
  case (service s s')
  then show ?case using es.service_step_linked by blast
next
  case (engine s e)
  then show ?case by (auto simp: eng.linked_def session_id_def intro: engine_step_inv)
qed

lemma system_dc_reachable: "system_reachable X R capacity s \<Longrightarrow> dc_reachable (engine_runtime X R) s"
proof (induction rule: system_reachable.induct)
  case (start events spawn n pool remote session seq spawned s)
  then show ?case by (intro dc_reachable.start) (simp_all add: engine_runtime_def)
qed (auto intro: dc_reachable.step dc_step.intros)

section \<open>Properties\<close>

lemma failed_send_fault:
  assumes "en_task e = Some (en_generation e, cell, Some c)" "holder_inv (en_holder e)" "cell = sh_current (en_holder e)"
  shows "fst (take_transport_error (sender_answered (Inl err) e)) = Some (fault_message (en_generation e)) \<and>
    engine_ready_state (sender_answered (Inl err) e) = ''closed''"
  using assms
  by (simp add: sender_answered_def take_transport_error_def record_transport_fault_def task_ends_def store_cell_def
      engine_ready_state_def holder_get_def holder_inv_def from_u8_def)

lemma fault_payload: "im_payload (fault_message g) = TransportFault ''DataChannel send failed''"
  by (simp add: fault_message_def for_generation_def)

lemma sender_answered_generation: "en_generation (sender_answered outcome e) = en_generation e"
  by (simp add: sender_answered_def record_transport_fault_def task_ends_def store_cell_def split: option.splits sum.splits)

text \<open>
  Property C6. A failed send is never lost, not even when the ingress queue is full: in every run of
  service and engine, if the data channel refuses a command of the current generation, the channel
  is closed at once, and the router's next iteration fails every pending request with the engine's
  error, ends the session and leaves nothing pending, whatever message of the old session it finds
  in its queue.
\<close>

theorem failed_send_reported:
  assumes reach: "system_reachable X R capacity s"
    and task: "en_task (dc_transport s) = Some (en_generation (dc_transport s), cell, Some c)"
    and old: "\<forall>m. incoming = Some m \<longrightarrow> im_generation m \<noteq> session_id s + 1"
  shows "\<exists>s'. router_iteration (engine_runtime X R) now incoming
        (s\<lparr>dc_transport := sender_answered (Inl err) (dc_transport s)\<rparr>) = Some s' \<and>
      engine_ready_state (sender_answered (Inl err) (dc_transport s)) = ''closed'' \<and>
      dc_pending s' = [] \<and> \<not> dc_opened s' \<and> session_id s' = session_id s + 1 \<and>
      dc_completed s' = dc_completed s @ map (\<lambda>p. (pc_token (snd p), Inl ''DataChannel send failed'')) (dc_pending s)"
proof -
  let ?e = "sender_answered (Inl err) (dc_transport s)"
  let ?s = "s\<lparr>dc_transport := ?e\<rparr>"
  note link = system_linked [OF reach]
  have inv: "engine_inv (dc_transport s)" using link by (simp add: eng.linked_def)
  then have fault: "fst (take_transport_error ?e) = Some (fault_message (en_generation (dc_transport s)))"
      and closed: "engine_ready_state ?e = ''closed''"
    using failed_send_fault [OF task, of err] task by (auto simp: engine_inv_defs)
  have "eng.linked ?s"
    using es.moved_linked [OF link sender_answered_inv [OF inv] sender_answered_generation] .
  note linked = this
  define s' where "s' = expire_chunks now (process_fault (engine_runtime X R) now ''DataChannel send failed''
    (?s\<lparr>dc_transport := snd (take_transport_error (dc_transport ?s))\<rparr>))"
  have "router_iteration (engine_runtime X R) now incoming ?s =
      (case incoming of None \<Rightarrow> Some s' | Some m \<Rightarrow> process_ingress (engine_runtime X R) now m s')"
    using es.retained_fault_routed [OF linked _ fault_payload s'_def] fault by simp
  moreover have state: "dc_pending s' = []" "\<not> dc_opened s'" "session_id s' = session_id s + 1"
    "dc_completed s' = dc_completed s @ map (\<lambda>p. (pc_token (snd p), Inl ''DataChannel send failed'')) (dc_pending s)"
    by (simp_all add: s'_def expire_chunks_empty process_fault_state process_fault_state(3) [unfolded session_id_def] session_id_def)
  ultimately have "router_iteration (engine_runtime X R) now incoming ?s = Some s'"
    using old by (auto simp: process_ingress_def split: option.splits)
  with state closed show ?thesis by blast
qed

text \<open>A run: the service starts over a new engine, the peer's channel opens, a text is queued and the
  sender task takes it.\<close>

definition runtime1 :: "(engine, unit) runtime" where
  "runtime1 =
     \<lparr>rt_port = engine_port texts0, rt_layout = layout64, rt_crypto = xor_crypto,
      rt_deserialize = (\<lambda>b. if b = [] then None else Some (VisitMap [])),
      rt_to_string = (\<lambda>v. Inr ''json''), rt_value_text = (\<lambda>v. ''json''),
      rt_fmt_f64 = (\<lambda>_. ''f''), rt_fmt_fixed1 = (\<lambda>_. ''f''), rt_instant_max = 2 ^ 63 * 1000000000\<rparr>"

definition service2 :: "engine dc_service" where
  "service2 = snd (prepare_ingress runtime1 (dc_initial (engine_new 1) bus0 \<lparr>lp_queue = [], lp_workers = 1\<rparr> False 1 1))"

definition engine_sending :: engine where
  "engine_sending = sender_receive (snd (engine_send_text texts0 ''hi'' engine0))"

lemma runtime1_engine: "engine_runtime texts0 runtime1 = runtime1"
  by (simp add: engine_runtime_def runtime1_def)

lemma service2_reachable: "system_reachable texts0 runtime1 1 service2"
proof (rule system_reachable.start)
  show "bus_reachable (rt_layout runtime1) bus0" using bus0_reachable by (simp add: runtime1_def runtime0_def)
  show "lidar_pool_try_new (\<lambda>_. True) 1 = Inr \<lparr>lp_queue = [], lp_workers = 1\<rparr>"
    by (simp add: lidar_pool_try_new_def)
  show "dc_try_new (engine_runtime texts0 runtime1) (engine_new 1) bus0 \<lparr>lp_queue = [], lp_workers = 1\<rparr> False 1 1 True = Inr service2"
    by (simp add: dc_try_new_def service2_def runtime1_engine)
qed

lemma service2_transport: "dc_transport service2 = snd (set_ingress_generation 1 (engine_new 1))"
  by (simp add: service2_def prepare_ingress_def announce_generation_def dc_initial_def runtime1_def engine_port_def session_id_def
      set_generation_def split: prod.splits)

lemma engine_sending_value:
  "engine_sending = engine0\<lparr>en_task := Some (1, 1, Some (CmdText ''hi''))\<rparr>"
  by (simp add: engine_sending_def engine_send_text_def send_command_def sender_receive_def engine0_value holder_get_def
      from_u8_def policy_defs)

lemma engine_offered_steps:
  "engine_offered = offer_create True (offer_begin (snd (set_ingress_generation 1 (engine_new 1))))"
  by (simp add: engine_offered_def prepare_offer_def Let_def)

lemma system_engine:
  "system_reachable X R n (s\<lparr>dc_transport := e\<rparr>) \<Longrightarrow> engine_step X e e' \<Longrightarrow> en_generation e' = en_generation e \<Longrightarrow>
     system_reachable X R n (s\<lparr>dc_transport := e'\<rparr>)"
  using system_reachable.engine [of X R n "s\<lparr>dc_transport := e\<rparr>" e'] by simp

lemma service2_sending: "system_reachable texts0 runtime1 1 (service2\<lparr>dc_transport := engine_sending\<rparr>)"
proof -
  have "system_reachable texts0 runtime1 1 (service2\<lparr>dc_transport := snd (set_ingress_generation 1 (engine_new 1))\<rparr>)"
    using service2_reachable unfolding service2_transport [symmetric] by simp
  then have "system_reachable texts0 runtime1 1 (service2\<lparr>dc_transport := offer_begin (snd (set_ingress_generation 1 (engine_new 1)))\<rparr>)"
    by (rule system_engine) (rule engine_step.begin_offer, simp add: offer_begin_def close_inner_def Let_def)
  then have "system_reachable texts0 runtime1 1 (service2\<lparr>dc_transport := engine_offered\<rparr>)"
    unfolding engine_offered_steps
    by (rule system_engine) (rule engine_step.create_peer, simp add: offer_create_def split: option.split)
  then have "system_reachable texts0 runtime1 1 (service2\<lparr>dc_transport := engine0\<rparr>)"
    unfolding engine0_def
    by (rule system_engine) (rule engine_step.activity, rule engine_activity.opened, rule engine0_value(2), simp add: on_open_def)
  then have "system_reachable texts0 runtime1 1 (service2\<lparr>dc_transport := snd (engine_send_text texts0 ''hi'' engine0)\<rparr>)"
    by (rule system_engine) (rule engine_step.activity, rule engine_activity.send_text, rule engine_send_fields)
  then show ?thesis
  proof (rule system_engine)
    show "engine_step texts0 (snd (engine_send_text texts0 ''hi'' engine0)) engine_sending"
      unfolding engine_sending_def by (rule engine_step.activity, rule engine_activity.receive)
    show "en_generation engine_sending = en_generation (snd (engine_send_text texts0 ''hi'' engine0))"
      by (simp add: engine_sending_value engine_send_fields)
  qed
qed

theorem failed_send_reported_witness:
  "\<exists>s'. router_iteration runtime1 moment0 None
     (service2\<lparr>dc_transport := sender_answered (Inl ''gone'') engine_sending\<rparr>) = Some s' \<and> session_id s' = session_id service2 + 1"
  using failed_send_reported [OF service2_sending, of 1 "CmdText ''hi''" None moment0 "''gone''"]
  by (auto simp: engine_sending_value engine0_value runtime1_engine session_id_def)

text \<open>
  Property C7. Starting a new session silences the transport: in every run, the engine no longer
  reports an open channel after the reset, holds no fault of the old session, is tagged with the new
  session, and every request is refused until a new peer opens.
\<close>

theorem reset_silences_transport:
  assumes "system_reachable X R capacity s"
    and "validated_timeout (engine_runtime X R) now (case timeout of Some t \<Rightarrow> t | None \<Rightarrow> ten_seconds) = Inr duration"
  shows "let s' = start_new_session (engine_runtime X R) s in
    engine_ready_state (dc_transport s') \<noteq> ''open'' \<and> en_fault (dc_transport s') = None \<and>
    en_generation (dc_transport s') = session_id s + 1 \<and>
    publish_begin (engine_runtime X R) now topic d ty timeout e s' = (Inl ''Data channel is not open'', s')"
proof -
  note link = system_linked [OF assms(1)]
  have inv: "engine_inv (dc_transport s)" using link by (simp add: eng.linked_def)
  have "eng.linked (start_new_session (engine_runtime X R) s)" by (rule es.start_new_session_linked [OF inv])
  then have "en_generation (dc_transport (start_new_session (engine_runtime X R) s)) = session_id s + 1"
    by (simp add: eng.linked_def es.start_new_session_transport(2))
  moreover have port: "rt_port (engine_runtime X R) = engine_port X" by (simp add: engine_runtime_def)
  note es.reset_closes [OF link, where X = X and R = R] es.publish_after_reset [OF link assms(2)]
  ultimately show ?thesis
    unfolding Let_def port by (simp add: engine_port_def take_transport_error_def)
qed

theorem reset_silences_transport_witness:
  "engine_ready_state (dc_transport (start_new_session runtime1 (service2\<lparr>dc_transport := engine_sending\<rparr>))) \<noteq> ''open''"
proof -
  have "validated_timeout runtime1 moment0 ten_seconds = Inr 10000000000"
    by (simp add: validated_timeout_def ten_seconds_def moment0_def runtime1_def)
  then show ?thesis
    using reset_silences_transport [OF service2_sending, of moment0 None 10000000000]
    by (simp add: runtime1_engine Let_def)
qed

end
