(* ===== verification/Connection.thy ===== *)
theory Connection
  imports Service_Engine "HOL-Library.Sublist"
begin

text \<open>
  \<open>src/src/connection/service.rs\<close>, \<open>lifecycle.rs\<close> and \<open>session.rs\<close>: connection attempts, disconnects and
  audio operations over the data channel service and the engine. Every asynchronous operation is a
  task with the list of the stages it still has to go through; other tasks, the router and the peer's
  callbacks run between its stages, and its future may be cancelled or dropped there. What the
  network, the audio pipeline and the WebRTC crate answer is a \<open>stage_env\<close>.
\<close>

section \<open>Options, targets and delays\<close>

definition MAX_INCOMING_CAPACITY :: nat where [policy_defs]: "MAX_INCOMING_CAPACITY = 4096"
definition MAX_EVENT_CAPACITY :: nat where [policy_defs]: "MAX_EVENT_CAPACITY = 256"
definition MAX_LIDAR_WORKERS :: nat where [policy_defs]: "MAX_LIDAR_WORKERS = 32"

record session_options =
  so_method :: connection_method
  so_ip :: "string option"
  so_validation_timeout :: nat \<comment> \<open>nanoseconds\<close>
  so_incoming_capacity :: nat
  so_event_capacity :: nat
  so_lidar_workers :: nat

definition session_options_new :: "nat option \<Rightarrow> connection_method \<Rightarrow> string option \<Rightarrow> session_options" where
  "session_options_new parallelism method ip =
     \<lparr>so_method = method, so_ip = ip, so_validation_timeout = secs 5,
      so_incoming_capacity = (if method = Remote then 512 else 256),
      so_event_capacity = (if method = Remote then 128 else 64),
      so_lidar_workers = (case parallelism of Some n \<Rightarrow> max 2 (min n 4) | None \<Rightarrow> 2)\<rparr>"

fun check_ranges :: "(string \<times> nat \<times> nat) list \<Rightarrow> string + unit" where
  "check_ranges [] = Inr ()"
| "check_ranges ((name, v, maximum) # rest) =
     (if v = 0 \<or> v > maximum then Inl (name @ '' must be between 1 and '' @ show_nat maximum) else check_ranges rest)"

definition options_validate :: "nat \<Rightarrow> instant \<Rightarrow> session_options \<Rightarrow> string + unit" where
  "options_validate instant_max now so =
     and_then (check_ranges
         [(''incoming_capacity'', so_incoming_capacity so, MAX_INCOMING_CAPACITY),
          (''event_capacity'', so_event_capacity so, MAX_EVENT_CAPACITY),
          (''lidar_workers'', so_lidar_workers so, MAX_LIDAR_WORKERS)])
       (\<lambda>_. if so_validation_timeout so = 0 \<or> now + so_validation_timeout so > instant_max
            then Inl ''validation_timeout must be positive and within the monotonic clock range'' else Inr ())"

definition target_ip :: "connection_method \<Rightarrow> string option \<Rightarrow> string + string" where
  "target_ip method ip =
     (case method of
        LocalSTA \<Rightarrow> (case ip of Some a \<Rightarrow> Inr a | None \<Rightarrow> Inl ''LocalSTA connection requires ip'')
      | LocalAP \<Rightarrow> Inr ''192.168.12.1''
      | Remote \<Rightarrow> Inl ''Remote connection is not implemented in phase 1'')"

definition offer_payload :: "connection_method \<Rightarrow> string \<Rightarrow> json" where
  "offer_payload method sdp =
     jobject [(''id'', JString (if method = LocalSTA then ''STA_localNetwork'' else [])), (''sdp'', JString sdp),
              (''type'', JString ''offer''), (''token'', JString [])]"

text \<open>The delay after a failed attempt, in milliseconds.\<close>

definition backoff_millis :: "nat \<Rightarrow> nat" where
  "backoff_millis attempt = min (200 * 2 ^ min attempt 8) (2 ^ 64 - 1)"

text \<open>\<open>auto_reconnect\<close> of the session and of the connection service: for every attempt whether an
  intentional disconnect is noticed before it, and its outcome. The service notices one also under
  the gate (its second argument), and sleeps after the last attempt too.\<close>

fun session_auto_reconnect :: "(nat \<Rightarrow> bool) \<Rightarrow> (nat \<Rightarrow> string + unit) \<Rightarrow> nat \<Rightarrow> nat \<Rightarrow> bool \<times> nat list" where
  "session_auto_reconnect intentional result attempt 0 = (False, [])"
| "session_auto_reconnect intentional result attempt (Suc left) =
     (if intentional attempt then (False, [])
      else case result attempt of
        Inr _ \<Rightarrow> (True, [])
      | Inl _ \<Rightarrow>
          (case session_auto_reconnect intentional result (Suc attempt) left of
             (r, sleeps) \<Rightarrow> (r, (if left > 0 then [backoff_millis attempt] else []) @ sleeps)))"

fun service_auto_reconnect_loop ::
  "(nat \<Rightarrow> bool) \<Rightarrow> (nat \<Rightarrow> bool) \<Rightarrow> (nat \<Rightarrow> string + unit) \<Rightarrow> nat \<Rightarrow> nat \<Rightarrow> bool \<times> nat list" where
  "service_auto_reconnect_loop before under_gate result attempt 0 = (False, [])"
| "service_auto_reconnect_loop before under_gate result attempt (Suc left) =
     (if before attempt \<or> under_gate attempt then (False, [])
      else case result attempt of
        Inr _ \<Rightarrow> (True, [])
      | Inl _ \<Rightarrow>
          (case service_auto_reconnect_loop before under_gate result (Suc attempt) left of
             (r, sleeps) \<Rightarrow> (r, backoff_millis attempt # sleeps)))"

definition service_auto_reconnect ::
  "bool \<Rightarrow> (nat \<Rightarrow> bool) \<Rightarrow> (nat \<Rightarrow> bool) \<Rightarrow> (nat \<Rightarrow> string + unit) \<Rightarrow> nat \<Rightarrow> bool \<times> nat list" where
  "service_auto_reconnect intentional before under_gate result max_retries =
     (if intentional then (False, []) else service_auto_reconnect_loop before under_gate result 0 max_retries)"

section \<open>Tasks\<close>

datatype session_connect = SessionConnect | SessionReconnect | SessionRetry

datatype operation =
  ServiceConnect | ServiceReconnect | ServiceRetry | ServiceDisconnect
| ValidatedSession session_connect | DisconnectSession
| PlayAudio | StopAudioOp

datatype stage =
  StopAudio | StopAudioQuietly | StopBackground | PrepareIngress | Unmark | CloseEngine | Target
| OfferBegin | OfferCreate | OfferMade | ExchangeSdp | ApplyAnswer | Validate | StartAudio

datatype phase =
  Waiting | Admitted | Working
| Unwinding "(string + unit) option" \<comment> \<open>\<open>None\<close>: the future was dropped, its guard cleans up\<close>
| Finished "(string + unit) option"

record task =
  tk_op :: operation
  tk_seen :: nat \<comment> \<open>version of the cancellation channel at subscription\<close>
  tk_phase :: phase
  tk_todo :: "stage list"
  tk_text :: "string \<times> string" \<comment> \<open>the target and the description in transit\<close>

record audio_playback =
  ap_sender :: bool
  ap_cleanup :: bool

record lifecycle =
  ls_service :: "engine dc_service"
  ls_connected :: bool
  ls_intentional :: bool
  ls_version :: nat
  ls_gate :: "nat option"
  ls_tasks :: "task list"
  ls_audio :: audio_playback
  ls_runtime :: bool \<comment> \<open>a runtime is remembered for the final cleanup\<close>
  ls_connected_by :: nat \<comment> \<open>history: the version the attempt that connected had subscribed at\<close>

fun is_disconnect :: "operation \<Rightarrow> bool" where
  "is_disconnect ServiceDisconnect = True"
| "is_disconnect DisconnectSession = True"
| "is_disconnect _ = False"

fun is_audio :: "operation \<Rightarrow> bool" where
  "is_audio PlayAudio = True"
| "is_audio StopAudioOp = True"
| "is_audio _ = False"

fun is_retry :: "operation \<Rightarrow> bool" where
  "is_retry ServiceRetry = True"
| "is_retry (ValidatedSession SessionRetry) = True"
| "is_retry _ = False"

definition connect_stages :: "bool \<Rightarrow> stage list" where
  "connect_stages reconnect =
     [Unmark] @ (if reconnect then [Unmark, CloseEngine] else []) @
     [Target, OfferBegin, OfferCreate, OfferMade, ExchangeSdp, ApplyAnswer]"

fun work_stages :: "operation \<Rightarrow> stage list" where
  "work_stages ServiceConnect = connect_stages False"
| "work_stages ServiceReconnect = connect_stages True"
| "work_stages ServiceRetry = connect_stages True"
| "work_stages (ValidatedSession mode) =
     [StopAudio, StopBackground, PrepareIngress] @ connect_stages (mode \<noteq> SessionConnect) @ [Validate]"
| "work_stages PlayAudio = [StopAudio, StartAudio]"
| "work_stages StopAudioOp = [StopAudio]"
| "work_stages _ = []"

text \<open>After an error, and for a disconnect: the rollback under the gate.\<close>

fun unwind_stages :: "operation \<Rightarrow> bool \<Rightarrow> stage list" where
  "unwind_stages (ValidatedSession mode) _ = [StopAudioQuietly, StopBackground, Unmark, CloseEngine]"
| "unwind_stages DisconnectSession _ = [StopAudioQuietly, StopBackground, Unmark, CloseEngine]"
| "unwind_stages PlayAudio playing = (if playing then [StopAudioQuietly] else [])"
| "unwind_stages StopAudioOp _ = []"
| "unwind_stages _ _ = [Unmark, CloseEngine]"

text \<open>What the guards' destructors spawn, with the gate.\<close>

fun drop_stages :: "operation \<Rightarrow> stage list" where
  "drop_stages (ValidatedSession mode) = [StopAudioQuietly, Unmark, CloseEngine]"
| "drop_stages DisconnectSession = [StopAudioQuietly, Unmark, CloseEngine]"
| "drop_stages PlayAudio = [StopAudioQuietly]"
| "drop_stages StopAudioOp = [StopAudioQuietly]"
| "drop_stages _ = [CloseEngine]"

record stage_env =
  sv_now :: moment
  sv_elapsed :: nat
  sv_audio :: "string + unit"
  sv_created :: "string + unit"
  sv_kept :: bool
  sv_offered :: "string + string"
  sv_exchange :: "string \<Rightarrow> string \<Rightarrow> string + string"
  sv_parse :: "string \<Rightarrow> string + string"
  sv_set_remote :: "string \<Rightarrow> string + unit"
  sv_diagnostic :: string
  sv_sender :: "string + unit"
  sv_play :: "string + unit"

record connection_config =
  cc_method :: connection_method
  cc_ip :: "string option"
  cc_to_string :: "json \<Rightarrow> string"
  cc_timeout :: fval

definition set_engine :: "engine \<Rightarrow> lifecycle \<Rightarrow> lifecycle" where
  "set_engine e s = s\<lparr>ls_service := (ls_service s)\<lparr>dc_transport := e\<rparr>\<rparr>"

definition session_engine :: "lifecycle \<Rightarrow> engine" where
  "session_engine s = dc_transport (ls_service s)"

text \<open>\<open>stop_audio_sender\<close>: the sender becomes the stored cleanup task, then its end is awaited.\<close>

definition audio_stop_begin :: "audio_playback \<Rightarrow> audio_playback" where
  "audio_stop_begin a = (if \<not> ap_cleanup a \<and> ap_sender a then \<lparr>ap_sender = False, ap_cleanup = True\<rparr> else a)"

definition stop_audio_sender :: "string + unit \<Rightarrow> audio_playback \<Rightarrow> (string + unit) \<times> audio_playback" where
  "stop_audio_sender ended a =
     (let b = audio_stop_begin a in (if ap_cleanup b then ended else Inr (), b\<lparr>ap_cleanup := False\<rparr>))"

definition session_is_connected :: "(engine, 'k) runtime \<Rightarrow> lifecycle \<Rightarrow> bool" where
  "session_is_connected W s \<longleftrightarrow> ls_connected s \<and> is_open W (ls_service s)"

text \<open>\<open>play_audio\<close> once the previous playback has ended: the sender is kept before it is started.\<close>

definition start_audio :: "(engine, 'k) runtime \<Rightarrow> stage_env \<Rightarrow> lifecycle \<Rightarrow> (string + unit) \<times> lifecycle" where
  "start_audio W v s =
     (if \<not> session_is_connected W s \<or> \<not> en_audio_track (session_engine s)
      then (Inl ''Audio track not initialized. Call connect() first.'', s)
      else case sv_sender v of
        Inl err \<Rightarrow> (Inl err, s)
      | Inr _ \<Rightarrow> (sv_play v, s\<lparr>ls_audio := (ls_audio s)\<lparr>ap_sender := True\<rparr>\<rparr>))"

text \<open>One stage: \<open>None\<close> while it is still waiting, then its error or the text it hands on.\<close>

definition perform ::
  "(engine, 'k) runtime \<Rightarrow> connection_config \<Rightarrow> stage_env \<Rightarrow> nat \<Rightarrow> string \<times> string \<Rightarrow> stage \<Rightarrow> lifecycle \<Rightarrow>
     (string + (string \<times> string)) option \<times> lifecycle" where
  "perform W cfg v seen txt st s =
     (case st of
        StopAudio \<Rightarrow>
          (case stop_audio_sender (sv_audio v) (ls_audio s) of
             (r, a) \<Rightarrow> (Some (and_then r (\<lambda>_. Inr txt)), s\<lparr>ls_audio := a\<rparr>))
      | StopAudioQuietly \<Rightarrow> (Some (Inr txt), s\<lparr>ls_audio := snd (stop_audio_sender (sv_audio v) (ls_audio s))\<rparr>)
      | StopBackground \<Rightarrow> (Some (Inr txt), s\<lparr>ls_service := stop_background_tasks W (ls_service s)\<rparr>)
      | PrepareIngress \<Rightarrow>
          (case prepare_ingress W (ls_service s) of
             (r, dc) \<Rightarrow> (Some (and_then r (\<lambda>_. Inr txt)), s\<lparr>ls_service := dc\<rparr>))
      | Unmark \<Rightarrow> (Some (Inr txt), s\<lparr>ls_connected := False\<rparr>)
      | CloseEngine \<Rightarrow> (Some (Inr txt), set_engine (close_inner (session_engine s)) s)
      | Target \<Rightarrow> (Some (and_then (target_ip (cc_method cfg) (cc_ip cfg)) (\<lambda>ip. Inr (ip, []))), s)
      | OfferBegin \<Rightarrow> (Some (Inr txt), set_engine (offer_begin (session_engine s)) s)
      | OfferCreate \<Rightarrow>
          (case sv_created v of
             Inl err \<Rightarrow> (Some (Inl err), set_engine (close_inner (session_engine s)) s)
           | Inr _ \<Rightarrow>
               let e = offer_create (sv_kept v) (session_engine s)
               in if sv_kept v then (Some (Inr txt), set_engine e s)
                  else (Some (Inl ''Peer closed while preparing offer''), set_engine (close_inner e) s))
      | OfferMade \<Rightarrow>
          (case sv_offered v of
             Inl err \<Rightarrow> (Some (Inl err), set_engine (close_inner (session_engine s)) s)
           | Inr sdp \<Rightarrow> (Some (Inr (fst txt, sdp)), s))
      | ExchangeSdp \<Rightarrow>
          (Some (and_then (sv_exchange v (fst txt) (cc_to_string cfg (offer_payload (cc_method cfg) (snd txt))))
                   (\<lambda>answer. Inr (fst txt, answer))), s)
      | ApplyAnswer \<Rightarrow>
          (case apply_answer (sv_parse v) (sv_set_remote v) (sv_diagnostic v)
                  [(current_ready_state (session_engine s), sv_elapsed v)] (snd txt) (session_engine s) of
             None \<Rightarrow> (None, s)
           | Some (Inl err) \<Rightarrow> (Some (Inl err), s)
           | Some (Inr _) \<Rightarrow> (Some (Inr txt), s\<lparr>ls_connected := True, ls_connected_by := seen\<rparr>))
      | Validate \<Rightarrow>
          (map_option (\<lambda>r. and_then r (\<lambda>_. Inr txt))
             (wait_datachannel_open W (sv_now v) (cc_timeout cfg) [(is_open W (ls_service s), sv_elapsed v)]), s)
      | StartAudio \<Rightarrow> (case start_audio W v s of (r, s') \<Rightarrow> (Some (and_then r (\<lambda>_. Inr txt)), s')))"

definition set_task :: "nat \<Rightarrow> task \<Rightarrow> lifecycle \<Rightarrow> lifecycle" where
  "set_task i t s = s\<lparr>ls_tasks := (ls_tasks s)[i := t]\<rparr>"

definition set_phase :: "nat \<Rightarrow> phase \<Rightarrow> stage list \<Rightarrow> lifecycle \<Rightarrow> lifecycle" where
  "set_phase i p todo s = set_task i ((ls_tasks s ! i)\<lparr>tk_phase := p, tk_todo := todo\<rparr>) s"

definition finish :: "nat \<Rightarrow> (string + unit) option \<Rightarrow> lifecycle \<Rightarrow> lifecycle" where
  "finish i r s = (set_phase i (Finished r) [] s)\<lparr>ls_gate := None\<rparr>"

definition unwind :: "nat \<Rightarrow> string + unit \<Rightarrow> lifecycle \<Rightarrow> lifecycle" where
  "unwind i r s = set_phase i (Unwinding (Some r)) (unwind_stages (tk_op (ls_tasks s ! i)) (ap_sender (ls_audio s))) s"

definition new_task :: "operation \<Rightarrow> nat \<Rightarrow> task" where
  "new_task op version = \<lparr>tk_op = op, tk_seen = version, tk_phase = Waiting, tk_todo = [], tk_text = ([], [])\<rparr>"

text \<open>The operations of \<open>UnitreeSession\<close> remember the runtime they run on.\<close>

fun of_session :: "operation \<Rightarrow> bool" where
  "of_session (ValidatedSession mode) = True"
| "of_session DisconnectSession = True"
| "of_session PlayAudio = True"
| "of_session StopAudioOp = True"
| "of_session _ = False"

definition begin_attempt :: "operation \<Rightarrow> lifecycle \<Rightarrow> lifecycle" where
  "begin_attempt op s =
     s\<lparr>ls_tasks := ls_tasks s @ [new_task op (ls_version s)], ls_runtime := ls_runtime s \<or> of_session op\<rparr>"

definition request_disconnect :: "lifecycle \<Rightarrow> lifecycle" where
  "request_disconnect s = s\<lparr>ls_version := Suc (ls_version s), ls_intentional := True\<rparr>"

definition cancelled :: string where
  "cancelled = ''Connection attempt cancelled by disconnect''"

definition timed_out :: "string option \<Rightarrow> string" where
  "timed_out diagnostic =
     (case diagnostic of Some detail \<Rightarrow> ''Connection attempt timed out: '' @ detail | None \<Rightarrow> ''Connection attempt timed out'')"

text \<open>The first thing a task does under the gate: \<open>ConnectionAttempt::run\<close> up to the operation itself, with
  the check of \<open>SessionConnect::Retry\<close> before. (The service's own retry loop makes the same check and
  returns \<open>false\<close> instead of an error.)\<close>

definition enter :: "nat \<Rightarrow> lifecycle \<Rightarrow> lifecycle" where
  "enter i s =
     (let t = ls_tasks s ! i; op = tk_op t in
      if is_disconnect op then unwind i (Inr ()) s
      else if is_audio op then set_phase i Working (work_stages op) s
      else if is_retry op \<and> ls_intentional s
      then finish i (Some (Inl ''Reconnect cancelled by intentional disconnect'')) s
      else if tk_seen t \<noteq> ls_version s then unwind i (Inl cancelled) s
      else (set_phase i Working (work_stages op) s)\<lparr>ls_intentional := False\<rparr>)"

text \<open>The future is dropped under the gate: the guards' destructors.\<close>

definition drop_future :: "(engine, 'k) runtime \<Rightarrow> nat \<Rightarrow> lifecycle \<Rightarrow> lifecycle" where
  "drop_future W i s =
     (let op = tk_op (ls_tasks s ! i);
          s1 = (case op of
                  ValidatedSession _ \<Rightarrow> s\<lparr>ls_service := stop_background_tasks W (ls_service s)\<rparr>
                | DisconnectSession \<Rightarrow> s\<lparr>ls_service := stop_background_tasks W (ls_service s)\<rparr>
                | _ \<Rightarrow> if is_audio op then s else s\<lparr>ls_connected := False\<rparr>)
      in set_phase i (Unwinding None) (drop_stages op) s1)"

text \<open>The destructor of \<open>UnitreeSession\<close>: a last disconnect is spawned when a runtime is known.\<close>

definition session_drop :: "(engine, 'k) runtime \<Rightarrow> lifecycle \<Rightarrow> lifecycle" where
  "session_drop W s =
     (let s1 = s\<lparr>ls_service := stop_background_tasks W (ls_service s)\<rparr>
      in (if ls_runtime s then begin_attempt DisconnectSession (request_disconnect s1) else s1)\<lparr>ls_runtime := False\<rparr>)"

section \<open>Interleavings\<close>

text \<open>The moves of the task that holds the gate.\<close>

inductive holder_step :: "(engine, 'k) runtime \<Rightarrow> connection_config \<Rightarrow> nat \<Rightarrow> lifecycle \<Rightarrow> lifecycle \<Rightarrow> bool" for W cfg i where
  enter: "ls_gate s = Some i \<Longrightarrow> tk_phase (ls_tasks s ! i) = Admitted \<Longrightarrow> holder_step W cfg i s (enter i s)"
| work: "ls_gate s = Some i \<Longrightarrow> ls_tasks s ! i = t \<Longrightarrow> tk_phase t = Working \<Longrightarrow> tk_todo t = st # rest \<Longrightarrow>
    perform W cfg v (tk_seen t) (tk_text t) st s = (Some (Inr txt), s') \<Longrightarrow>
    holder_step W cfg i s (set_task i (t\<lparr>tk_todo := rest, tk_text := txt\<rparr>) s')"
| fail: "ls_gate s = Some i \<Longrightarrow> ls_tasks s ! i = t \<Longrightarrow> tk_phase t = Working \<Longrightarrow> tk_todo t = st # rest \<Longrightarrow>
    perform W cfg v (tk_seen t) (tk_text t) st s = (Some (Inl err), s') \<Longrightarrow> holder_step W cfg i s (unwind i (Inl err) s')"
| cancel: "ls_gate s = Some i \<Longrightarrow> ls_tasks s ! i = t \<Longrightarrow> tk_phase t = Working \<Longrightarrow> \<not> is_audio (tk_op t) \<Longrightarrow>
    tk_seen t \<noteq> ls_version s \<Longrightarrow> holder_step W cfg i s (unwind i (Inl cancelled) s)"
| timeout: "ls_gate s = Some i \<Longrightarrow> ls_tasks s ! i = t \<Longrightarrow> tk_phase t = Working \<Longrightarrow> tk_todo t = st # rest \<Longrightarrow>
    st \<in> {OfferBegin, OfferCreate, OfferMade, ExchangeSdp, ApplyAnswer} \<Longrightarrow>
    holder_step W cfg i s (unwind i (Inl (timed_out diagnostic)) s)"
| succeed: "ls_gate s = Some i \<Longrightarrow> tk_phase (ls_tasks s ! i) = Working \<Longrightarrow> tk_todo (ls_tasks s ! i) = [] \<Longrightarrow>
    holder_step W cfg i s (finish i (Some (Inr ())) s)"
| undo: "ls_gate s = Some i \<Longrightarrow> ls_tasks s ! i = t \<Longrightarrow> tk_phase t = Unwinding r \<Longrightarrow> tk_todo t = st # rest \<Longrightarrow>
    perform W cfg v (tk_seen t) (tk_text t) st s = (Some out, s') \<Longrightarrow>
    holder_step W cfg i s (set_task i (t\<lparr>tk_todo := rest\<rparr>) s')"
| undone: "ls_gate s = Some i \<Longrightarrow> tk_phase (ls_tasks s ! i) = Unwinding r \<Longrightarrow> tk_todo (ls_tasks s ! i) = [] \<Longrightarrow>
    holder_step W cfg i s (finish i r s)"
| drop: "ls_gate s = Some i \<Longrightarrow> tk_phase (ls_tasks s ! i) \<in> {Admitted, Working, Unwinding (Some r)} \<Longrightarrow>
    holder_step W cfg i s (drop_future W i s)"

text \<open>All steps: new tasks, the gate, its holder, the audio cleanup that starts before it is awaited, the
  service's users and the engine's own activity.\<close>

inductive lifecycle_step ::
  "queue_texts \<Rightarrow> (engine, 'k) runtime \<Rightarrow> connection_config \<Rightarrow> lifecycle \<Rightarrow> lifecycle \<Rightarrow> bool" for X R cfg where
  begin_op: "\<not> is_disconnect op \<Longrightarrow> lifecycle_step X R cfg s (begin_attempt op s)"
| begin_disconnect: "is_disconnect op \<Longrightarrow> lifecycle_step X R cfg s (begin_attempt op (request_disconnect s))"
| acquire: "ls_gate s = None \<Longrightarrow> i < length (ls_tasks s) \<Longrightarrow> tk_phase (ls_tasks s ! i) = Waiting \<Longrightarrow>
    lifecycle_step X R cfg s ((set_phase i Admitted [] s)\<lparr>ls_gate := Some i\<rparr>)"
| abandon: "i < length (ls_tasks s) \<Longrightarrow> tk_phase (ls_tasks s ! i) = Waiting \<Longrightarrow>
    lifecycle_step X R cfg s (set_phase i (Finished None) [] s)"
| holder: "holder_step (engine_runtime X R) cfg i s s' \<Longrightarrow> lifecycle_step X R cfg s s'"
| audio_stops: "ls_gate s = Some i \<Longrightarrow> tk_todo (ls_tasks s ! i) = st # rest \<Longrightarrow> st \<in> {StopAudio, StopAudioQuietly} \<Longrightarrow>
    lifecycle_step X R cfg s (s\<lparr>ls_audio := audio_stop_begin (ls_audio s)\<rparr>)"
| dropped: "lifecycle_step X R cfg s (session_drop (engine_runtime X R) s)"
| background: "service_step (engine_runtime X R) (ls_service s) dc \<Longrightarrow> lifecycle_step X R cfg s (s\<lparr>ls_service := dc\<rparr>)"
| activity: "engine_activity X (session_engine s) e \<Longrightarrow> lifecycle_step X R cfg s (set_engine e s)"

text \<open>\<open>UnitreeSession::new\<close>: the options are checked, then channel, engine, workers, service and router are
  made; \<open>spawn\<close> says which of the threads can be started.\<close>

definition session_new ::
  "queue_texts \<Rightarrow> (engine, 'k) runtime \<Rightarrow> instant \<Rightarrow> (nat \<Rightarrow> bool) \<Rightarrow> bool \<Rightarrow> u64 \<Rightarrow> u64 \<Rightarrow> session_options \<Rightarrow> string + lifecycle" where
  "session_new X R now spawn router session seq so =
     and_then (options_validate (rt_instant_max R) now so) (\<lambda>_.
     and_then (event_channel (so_event_capacity so)) (\<lambda>events.
     and_then (lidar_pool_try_new spawn (so_lidar_workers so)) (\<lambda>pool.
     and_then (dc_try_new (engine_runtime X R) (engine_new (so_incoming_capacity so)) events pool (so_method so = Remote)
                 session seq router) (\<lambda>dc.
     Inr \<lparr>ls_service = dc, ls_connected = False, ls_intentional = False, ls_version = 0, ls_gate = None,
          ls_tasks = [], ls_audio = \<lparr>ap_sender = False, ap_cleanup = False\<rparr>,
          ls_runtime = False, ls_connected_by = 0\<rparr>))))"

inductive lifecycle_reachable ::
  "queue_texts \<Rightarrow> (engine, 'k) runtime \<Rightarrow> connection_config \<Rightarrow> lifecycle \<Rightarrow> bool" for X R cfg where
  start: "session_new X R now spawn router session seq so = Inr s \<Longrightarrow> lifecycle_reachable X R cfg s"
| step: "lifecycle_reachable X R cfg s \<Longrightarrow> lifecycle_step X R cfg s s' \<Longrightarrow> lifecycle_reachable X R cfg s'"

section \<open>A closed engine stays closed\<close>

definition engine_closed :: "engine \<Rightarrow> bool" where
  "engine_closed e \<longleftrightarrow>
     \<not> en_peer e \<and> \<not> en_data_channel e \<and> \<not> en_audio_track e \<and> \<not> en_resources e \<and> en_commands e = None \<and>
     en_task e = None \<and> en_offering e = None \<and> \<not> holder_live (en_holder e)"

lemma closed_not_open: "engine_closed e \<Longrightarrow> holder_get (en_holder e) \<noteq> Open"
  by (auto simp: engine_closed_def holder_live_def is_live_def holder_get_def)

lemma close_inner_closed: "engine_inv e \<Longrightarrow> engine_closed (close_inner e)"
  using close_inner_dead [of e] by (simp add: engine_closed_def engine_inv_def) (simp add: close_inner_def Let_def)

lemma closed_send: "engine_closed e \<Longrightarrow> snd (send_command X n c e) = e"
  using closed_not_open by (auto simp: send_command_def)

lemma closed_incoming: "engine_closed (snd (incoming_try_send m e)) = engine_closed e"
  by (simp add: engine_closed_def) (simp add: incoming_try_send_def split: prod.splits)

lemma closed_cell_event:
  "engine_closed e \<Longrightarrow> bound_cell cell e \<Longrightarrow> engine_closed (e\<lparr>en_holder := cell_event cell ev (en_holder e)\<rparr>)"
  by (auto simp: engine_closed_def bound_cell_def dest: cell_event_holder(3))

lemma closed_activity: "engine_activity X e e' \<Longrightarrow> engine_closed e \<Longrightarrow> engine_closed e'"
proof (induction rule: engine_activity.induct)
  case (message cell e now g is_string d l)
  then show ?case using on_message_state [of now g cell is_string d l e] closed_incoming by metis
next
  case (peer cell e g st)
  then show ?case by (auto simp: on_peer_state_def closed_cell_event split: option.splits)
next
  case (receive e)
  then show ?case by (simp add: sender_receive_def engine_closed_def)
next
  case (answered outcome e)
  then show ?case by (simp add: sender_answered_def engine_closed_def)
qed (simp_all add: engine_send_text_def engine_send_binary_def closed_send on_open_def on_close_def closed_cell_event route_state
    closed_incoming, simp_all add: engine_closed_def take_transport_error_def)

lemma closed_set_generation: "engine_inv e \<Longrightarrow> engine_closed e \<Longrightarrow> engine_closed (snd (set_ingress_generation g e))"
  by (auto simp: engine_closed_def set_ingress_generation_def Let_def engine_inv_def)

text \<open>The service over a closed engine: the same contract with a stronger invariant.\<close>

interpretation ec: service_over engine_ready_state "engine_send_text X" set_ingress_generation
  take_transport_error en_generation "\<lambda>e. engine_inv e \<and> engine_closed e" "engine_runtime X R"
proof unfold_locales
  fix t :: engine and g m f
  show "engine_inv (snd (engine_send_text X m t)) \<and> engine_closed (snd (engine_send_text X m t))"
    if "engine_inv t \<and> engine_closed t"
    using that by (simp add: send_text_inv closed_send engine_send_text_def)
  show "engine_inv (snd (set_ingress_generation g t)) \<and> engine_closed (snd (set_ingress_generation g t))"
    if "engine_inv t \<and> engine_closed t"
    using that by (simp add: set_generation_inv closed_set_generation)
  show "engine_ready_state (snd (set_ingress_generation g t)) \<noteq> ''open''" if "engine_inv t \<and> engine_closed t" "en_generation t \<noteq> g"
    using that eng.set_gen_closes by blast
  show "im_generation f = en_generation t \<and> (\<exists>e. im_payload f = TransportFault e)"
    if "engine_inv t \<and> engine_closed t" "fst (take_transport_error t) = Some f"
    using that eng.take_tagged by blast
  show "engine_inv (snd (take_transport_error t)) \<and> engine_closed (snd (take_transport_error t))"
    if "engine_inv t \<and> engine_closed t"
    using that eng.take_invar by (simp add: take_transport_error_def engine_closed_def)
qed (simp_all add: eng.send_generation eng.set_gen_generation eng.set_gen_clears eng.take_generation
    engine_runtime_def engine_port_def eng.port_def)

section \<open>Invariant of the lifecycle\<close>

definition holding :: "task \<Rightarrow> bool" where
  "holding t \<longleftrightarrow> (case tk_phase t of Waiting \<Rightarrow> False | Finished _ \<Rightarrow> False | _ \<Rightarrow> True)"

definition gate_inv :: "lifecycle \<Rightarrow> bool" where
  "gate_inv s \<longleftrightarrow>
     (\<forall>i < length (ls_tasks s). holding (ls_tasks s ! i) \<longleftrightarrow> ls_gate s = Some i) \<and>
     (\<forall>i. ls_gate s = Some i \<longrightarrow> i < length (ls_tasks s))"

definition quiet :: "lifecycle \<Rightarrow> bool" where
  "quiet s \<longleftrightarrow> (\<not> ls_connected s \<longrightarrow> engine_closed (session_engine s))"

definition task_ok :: "task \<Rightarrow> lifecycle \<Rightarrow> bool" where
  "task_ok t s \<longleftrightarrow>
     (case tk_phase t of
        Working \<Rightarrow>
          if is_audio (tk_op t) then quiet s \<and> set (tk_todo t) \<subseteq> {StopAudio, StartAudio}
          else suffix (tk_todo t) (work_stages (tk_op t)) \<and> \<not> is_disconnect (tk_op t) \<and>
            (ApplyAnswer \<notin> set (tk_todo t) \<longrightarrow> ls_connected s)
      | Unwinding _ \<Rightarrow>
          if is_audio (tk_op t) then quiet s \<and> set (tk_todo t) \<subseteq> {StopAudioQuietly}
          else set (tk_todo t) \<subseteq> {StopAudioQuietly, StopBackground, Unmark, CloseEngine} \<and>
            (Unmark \<notin> set (tk_todo t) \<longrightarrow> \<not> ls_connected s) \<and>
            (CloseEngine \<notin> set (tk_todo t) \<longrightarrow> engine_closed (session_engine s))
      | _ \<Rightarrow> quiet s)"

definition stage_inv :: "lifecycle \<Rightarrow> bool" where
  "stage_inv s \<longleftrightarrow> (case ls_gate s of None \<Rightarrow> quiet s | Some i \<Rightarrow> task_ok (ls_tasks s ! i) s)"

definition passed :: "task \<Rightarrow> bool" where
  "passed t \<longleftrightarrow> is_disconnect (tk_op t) \<and> (\<exists>r. tk_phase t = Unwinding (Some r) \<or> tk_phase t = Finished (Some r))"

definition version_inv :: "lifecycle \<Rightarrow> bool" where
  "version_inv s \<longleftrightarrow>
     (\<forall>t\<in>set (ls_tasks s). tk_seen t \<le> ls_version s) \<and>
     (\<forall>d\<in>set (ls_tasks s). passed d \<longrightarrow>
        (\<forall>t\<in>set (ls_tasks s). tk_phase t = Working \<and> \<not> is_audio (tk_op t) \<longrightarrow> tk_seen d \<le> tk_seen t) \<and>
        (\<forall>r. tk_phase d = Finished (Some r) \<longrightarrow> ls_connected s \<longrightarrow> tk_seen d \<le> ls_connected_by s))"

definition lifecycle_inv :: "lifecycle \<Rightarrow> bool" where
  "lifecycle_inv s \<longleftrightarrow> eng.linked (ls_service s) \<and> gate_inv s \<and> stage_inv s \<and> version_inv s"

section \<open>What the stages change\<close>

lemma set_engine_fields [simp]:
  "ls_gate (set_engine e s) = ls_gate s" "ls_tasks (set_engine e s) = ls_tasks s" "ls_version (set_engine e s) = ls_version s"
  "ls_connected (set_engine e s) = ls_connected s" "ls_connected_by (set_engine e s) = ls_connected_by s"
  "session_engine (set_engine e s) = e" "ls_audio (set_engine e s) = ls_audio s"
  "ls_service (set_engine e s) = (ls_service s)\<lparr>dc_transport := e\<rparr>"
  by (simp_all add: set_engine_def session_engine_def)

lemmas perform_splits = stage.splits sum.splits option.splits prod.splits if_splits

lemma start_audio_fields:
  assumes "start_audio W v s = (r, s')"
  shows "ls_gate s' = ls_gate s" "ls_tasks s' = ls_tasks s" "ls_version s' = ls_version s" "ls_connected s' = ls_connected s"
    "ls_connected_by s' = ls_connected_by s" "ls_service s' = ls_service s"
  using assms by (auto simp: start_audio_def split: if_splits sum.splits)

lemma perform_frame:
  assumes "perform W cfg v seen txt st s = (r, s')"
  shows "ls_gate s' = ls_gate s" "ls_tasks s' = ls_tasks s" "ls_version s' = ls_version s"
  using assms by (auto simp: perform_def Let_def start_audio_fields split: perform_splits)

lemma perform_connected:
  assumes "perform W cfg v seen txt st s = (r, s')"
  shows "ls_connected s' = (st \<noteq> Unmark \<and> (ls_connected s \<or> st = ApplyAnswer \<and> (\<exists>x. r = Some (Inr x))))"
    and "ls_connected_by s' = (if st = ApplyAnswer \<and> (\<exists>x. r = Some (Inr x)) then seen else ls_connected_by s)"
  using assms by (cases "txt"; cases st; auto simp: perform_def Let_def start_audio_fields split: sum.splits option.splits prod.splits if_splits)+

lemma linked_moved:
  "eng.linked dc \<Longrightarrow> engine_inv e \<Longrightarrow> en_generation e = en_generation (dc_transport dc) \<Longrightarrow> eng.linked (dc\<lparr>dc_transport := e\<rparr>)"
  by (rule es.moved_linked)

lemma offer_generation [simp]:
  "en_generation (close_inner e) = en_generation e" "en_generation (offer_begin e) = en_generation e"
  "en_generation (offer_create kept e) = en_generation e"
  by (simp_all add: close_inner_def offer_begin_def offer_create_def Let_def split: option.splits)

lemma stop_background_linked: "eng.linked dc \<Longrightarrow> eng.linked (stop_background_tasks (engine_runtime X R) dc)"
  by (rule es.service_step_linked [OF service_step.stop])

lemma prepare_ingress_linked: "eng.linked dc \<Longrightarrow> eng.linked (snd (prepare_ingress (engine_runtime X R) dc))"
  by (rule es.service_step_linked [OF service_step.prepare])

lemma perform_linked:
  assumes "perform (engine_runtime X R) cfg v seen txt st s = (r, s')" "eng.linked (ls_service s)"
  shows "eng.linked (ls_service s')"
proof -
  have inv: "engine_inv (session_engine s)" using assms(2) by (simp add: eng.linked_def session_engine_def)
  have moved: "eng.linked ((ls_service s)\<lparr>dc_transport := e\<rparr>)" if "engine_inv e" "en_generation e = en_generation (session_engine s)" for e
    using linked_moved [OF assms(2)] that by (simp add: session_engine_def)
  have prep: "eng.linked dc" if "prepare_ingress (engine_runtime X R) (ls_service s) = (x, dc)" for x dc
    using prepare_ingress_linked [OF assms(2), of X R] that by simp
  note facts = moved [OF close_inner_inv [OF inv]] moved [OF offer_begin_inv [OF inv]] moved [OF offer_create_inv [OF inv]]
    moved [OF close_inner_inv [OF offer_create_inv [OF inv]]]
  show ?thesis
    using assms(1) assms(2) facts
    by (cases st) (auto simp: perform_def Let_def stop_background_linked start_audio_fields split: sum.splits option.splits prod.splits if_splits dest: prep)
qed

text \<open>The stages of the rollback never wait or fail, and keep a closed engine closed.\<close>

lemma linked_closed: "eng.linked dc \<and> engine_closed (dc_transport dc) \<longleftrightarrow> ec.linked dc"
  by (auto simp: eng.linked_def ec.linked_def)

lemma service_step_closed:
  assumes "service_step (engine_runtime X R) dc dc'" "eng.linked dc" "engine_closed (dc_transport dc)"
  shows "engine_closed (dc_transport dc')"
  using ec.service_step_linked [OF assms(1)] assms(2,3) by (simp add: linked_closed [symmetric])

lemma undo_total:
  "st \<in> {StopAudioQuietly, StopBackground, Unmark, CloseEngine} \<Longrightarrow> \<exists>s'. perform W cfg v seen txt st s = (Some (Inr txt), s')"
  by (auto simp: perform_def)

lemma undo_closed:
  assumes "perform (engine_runtime X R) cfg v seen txt st s = (r, s')" "eng.linked (ls_service s)"
    "st \<in> {StopAudio, StartAudio, StopAudioQuietly, StopBackground, Unmark, CloseEngine}"
  shows "engine_closed (session_engine s) \<or> st = CloseEngine \<Longrightarrow> engine_closed (session_engine s')"
proof -
  assume closed: "engine_closed (session_engine s) \<or> st = CloseEngine"
  have inv: "engine_inv (session_engine s)" using assms(2) by (simp add: eng.linked_def session_engine_def)
  have stop: "engine_closed (session_engine (s\<lparr>ls_service := stop_background_tasks (engine_runtime X R) (ls_service s)\<rparr>))"
    if "engine_closed (session_engine s)"
    using service_step_closed [OF service_step.stop assms(2)] that by (simp add: session_engine_def)
  have same: "session_engine s' = session_engine s" if "st \<in> {StopAudio, StartAudio, StopAudioQuietly, Unmark}"
    using assms(1) that by (auto simp: perform_def session_engine_def start_audio_fields split: prod.splits sum.splits if_splits)
  from closed assms(1,3) same stop close_inner_closed [OF inv] show ?thesis
    by (cases st) (auto simp: perform_def)
qed

section \<open>Preservation\<close>

lemma task_ok_cong:
  "ls_connected s' = ls_connected s \<Longrightarrow> session_engine s' = session_engine s \<Longrightarrow> task_ok t s' = task_ok t s"
  "ls_connected s' = ls_connected s \<Longrightarrow> session_engine s' = session_engine s \<Longrightarrow> quiet s' = quiet s"
  by (simp_all add: task_ok_def quiet_def cong: phase.case_cong)

lemma set_task_fields [simp]:
  "ls_gate (set_task i t s) = ls_gate s" "ls_tasks (set_task i t s) = (ls_tasks s)[i := t]"
  "ls_version (set_task i t s) = ls_version s" "ls_connected (set_task i t s) = ls_connected s"
  "ls_connected_by (set_task i t s) = ls_connected_by s" "session_engine (set_task i t s) = session_engine s"
  "ls_service (set_task i t s) = ls_service s" "ls_intentional (set_task i t s) = ls_intentional s"
  by (simp_all add: set_task_def session_engine_def)

lemma gate_inv_holder:
  assumes "gate_inv s" "ls_gate s = Some i"
  shows "i < length (ls_tasks s)" "j < length (ls_tasks s) \<Longrightarrow> j \<noteq> i \<Longrightarrow> \<not> holding (ls_tasks s ! j)" "holding (ls_tasks s ! i)"
  using assms by (auto simp: gate_inv_def)

text \<open>The holder moves on: it keeps the gate, or gives it up when it has finished.\<close>

lemma gate_inv_moved:
  assumes "gate_inv s" "ls_gate s = Some i" "ls_tasks s' = (ls_tasks s)[i := t]"
    "holding t \<and> ls_gate s' = Some i \<or> \<not> holding t \<and> ls_gate s' = None"
  shows "gate_inv s'"
  using gate_inv_holder [OF assms(1,2)] assms(3,4) by (auto simp: gate_inv_def nth_list_update)

lemma version_inv_moved:
  assumes inv: "version_inv s" and gate: "gate_inv s" "ls_gate s = Some i"
    and tasks: "ls_tasks s' = (ls_tasks s)[i := t]" and version: "ls_version s' = ls_version s"
    and same: "tk_op t = tk_op (ls_tasks s ! i)" "tk_seen t = tk_seen (ls_tasks s ! i)"
    and working: "tk_phase t = Working \<Longrightarrow> \<not> is_audio (tk_op t) \<Longrightarrow>
      tk_phase (ls_tasks s ! i) = Working \<or> tk_seen t = ls_version s"
    and finished: "\<And>r. tk_phase t = Finished (Some r) \<Longrightarrow> is_disconnect (tk_op t) \<Longrightarrow> \<not> ls_connected s'"
    and connected: "ls_connected s' \<Longrightarrow>
      ls_connected s \<and> ls_connected_by s' = ls_connected_by s \<or>
      ls_connected_by s' = tk_seen t \<and> tk_phase (ls_tasks s ! i) = Working \<and> \<not> is_audio (tk_op t)"
  shows "version_inv s'"
proof -
  let ?T = "ls_tasks s"
  note holder = gate_inv_holder [OF gate]
  have other: "x = t \<or> (x \<in> set ?T \<and> \<not> holding x)" if "x \<in> set (ls_tasks s')" for x
    using that holder(1,2) unfolding tasks by (auto simp: in_set_conv_nth nth_list_update split: if_splits)
  have seen: "tk_seen t \<le> ls_version s" "\<And>d. d \<in> set ?T \<Longrightarrow> tk_seen d \<le> ls_version s"
    using inv same holder(1) by (auto simp: version_inv_def)
  have working_seen: "tk_seen d \<le> tk_seen t" if "d \<in> set ?T" "passed d" "tk_phase (?T ! i) = Working" "\<not> is_audio (tk_op t)" for d
    using inv that holder(1) same by (auto simp: version_inv_def)
  have "(\<forall>x\<in>set (ls_tasks s'). tk_phase x = Working \<and> \<not> is_audio (tk_op x) \<longrightarrow> tk_seen d \<le> tk_seen x) \<and>
      (\<forall>r. tk_phase d = Finished (Some r) \<longrightarrow> ls_connected s' \<longrightarrow> tk_seen d \<le> ls_connected_by s')"
    if d: "d \<in> set (ls_tasks s')" "passed d" for d
  proof (cases "d = t")
    case True
    have "tk_phase x \<noteq> Working" if "x \<in> set (ls_tasks s')" for x
      using other [OF that] d(2) True by (auto simp: passed_def holding_def)
    with finished d(2) True show ?thesis by (auto simp: passed_def)
  next
    case False
    with other [OF d(1)] have old: "d \<in> set ?T" "\<not> holding d" by auto
    have "tk_seen d \<le> tk_seen x" if x: "x \<in> set (ls_tasks s')" "tk_phase x = Working" "\<not> is_audio (tk_op x)" for x
    proof -
      have "x = t" using other [OF x(1)] x(2) by (auto simp: holding_def)
      with working x working_seen [OF old(1) d(2)] seen(2) [OF old(1)] show ?thesis by auto
    qed
    moreover have "tk_seen d \<le> ls_connected_by s'" if "tk_phase d = Finished (Some r)" "ls_connected s'" for r
      using connected [OF that(2)] working_seen [OF old(1) d(2)] inv old(1) d(2) that(1)
      by (auto simp: version_inv_def)
    ultimately show ?thesis by blast
  qed
  moreover have "\<forall>x\<in>set (ls_tasks s'). tk_seen x \<le> ls_version s'"
    using other seen version by auto
  ultimately show ?thesis by (simp add: version_inv_def)
qed

lemma moved_inv:
  assumes inv: "lifecycle_inv s" and gate: "ls_gate s = Some i" and linked: "eng.linked (ls_service s')"
    and tasks: "ls_tasks s' = (ls_tasks s)[i := t]" and version: "ls_version s' = ls_version s"
    and same: "tk_op t = tk_op (ls_tasks s ! i)" "tk_seen t = tk_seen (ls_tasks s ! i)"
    and moves: "holding t \<and> ls_gate s' = Some i \<and> task_ok t s' \<or> \<not> holding t \<and> ls_gate s' = None \<and> quiet s'"
    and working: "tk_phase t = Working \<Longrightarrow> \<not> is_audio (tk_op t) \<Longrightarrow>
      tk_phase (ls_tasks s ! i) = Working \<or> tk_seen t = ls_version s"
    and finished: "\<And>r. tk_phase t = Finished (Some r) \<Longrightarrow> is_disconnect (tk_op t) \<Longrightarrow> \<not> ls_connected s'"
    and connected: "ls_connected s' \<Longrightarrow>
      ls_connected s \<and> ls_connected_by s' = ls_connected_by s \<or>
      ls_connected_by s' = tk_seen t \<and> tk_phase (ls_tasks s ! i) = Working \<and> \<not> is_audio (tk_op t)"
  shows "lifecycle_inv s'"
proof -
  have parts: "gate_inv s" "version_inv s" using inv by (simp_all add: lifecycle_inv_def)
  have "gate_inv s'" using gate_inv_moved [OF parts(1) gate tasks] moves by blast
  moreover have "version_inv s'"
    by (rule version_inv_moved [OF parts(2,1) gate tasks version same working finished connected])
  moreover have "stage_inv s'"
    using moves tasks gate_inv_holder(1) [OF parts(1) gate] by (auto simp: stage_inv_def)
  ultimately show ?thesis using linked by (simp add: lifecycle_inv_def)
qed

lemma work_todo: "ApplyAnswer \<notin> set todo \<Longrightarrow> suffix todo (work_stages op) \<Longrightarrow> \<not> is_audio op \<Longrightarrow> todo = [] \<or> todo = [Validate]"
  by (cases op) (auto simp: connect_stages_def suffix_Cons split: if_splits)

lemma unwind_ok:
  "task_ok (t\<lparr>tk_phase := Unwinding r, tk_todo := unwind_stages (tk_op t) b\<rparr>) s \<longleftrightarrow> (is_audio (tk_op t) \<longrightarrow> quiet s)"
  by (cases "tk_op t") (auto simp: task_ok_def)

lemma holding_simps [simp]:
  "tk_phase t = Admitted \<Longrightarrow> holding t" "tk_phase t = Working \<Longrightarrow> holding t" "tk_phase t = Unwinding r \<Longrightarrow> holding t"
  "tk_phase t = Finished r \<Longrightarrow> \<not> holding t" "tk_phase t = Waiting \<Longrightarrow> \<not> holding t"
  by (simp_all add: holding_def)

lemma set_phase_fields [simp]:
  "ls_gate (set_phase i p todo s) = ls_gate s"
  "ls_tasks (set_phase i p todo s) = (ls_tasks s)[i := (ls_tasks s ! i)\<lparr>tk_phase := p, tk_todo := todo\<rparr>]"
  "ls_version (set_phase i p todo s) = ls_version s" "ls_connected (set_phase i p todo s) = ls_connected s"
  "ls_connected_by (set_phase i p todo s) = ls_connected_by s" "session_engine (set_phase i p todo s) = session_engine s"
  "ls_service (set_phase i p todo s) = ls_service s"
  by (simp_all add: set_phase_def)

lemma inv_parts:
  assumes "lifecycle_inv s"
  shows "eng.linked (ls_service s)" "gate_inv s" "version_inv s"
    "ls_gate s = Some i \<Longrightarrow> task_ok (ls_tasks s ! i) s" "ls_gate s = None \<Longrightarrow> quiet s"
  using assms by (auto simp: lifecycle_inv_def stage_inv_def)

lemma finish_inv:
  assumes inv: "lifecycle_inv s" and gate: "ls_gate s = Some i" and "quiet s"
    and "is_disconnect (tk_op (ls_tasks s ! i)) \<Longrightarrow> r \<noteq> None \<Longrightarrow> \<not> ls_connected s"
  shows "lifecycle_inv (finish i r s)"
  by (rule moved_inv [OF inv gate, where t = "(ls_tasks s ! i)\<lparr>tk_phase := Finished r, tk_todo := []\<rparr>"])
    (use assms inv_parts [OF inv] in \<open>auto simp: finish_def quiet_def session_engine_def set_phase_def set_task_def\<close>)

lemma unwind_inv:
  assumes inv: "lifecycle_inv s" and gate: "ls_gate s = Some i" and "is_audio (tk_op (ls_tasks s ! i)) \<Longrightarrow> quiet s"
  shows "lifecycle_inv (unwind i r s)"
proof (rule moved_inv [OF inv gate])
  let ?t = "(ls_tasks s ! i)\<lparr>tk_phase := Unwinding (Some r), tk_todo := unwind_stages (tk_op (ls_tasks s ! i)) (ap_sender (ls_audio s))\<rparr>"
  show "ls_tasks (unwind i r s) = (ls_tasks s)[i := ?t]" by (simp add: unwind_def)
  have "quiet (unwind i r s) = quiet s" by (rule task_ok_cong(2)) (simp_all add: unwind_def)
  then have "task_ok ?t (unwind i r s)" using assms(3) unfolding unwind_ok by simp
  then show "holding ?t \<and> ls_gate (unwind i r s) = Some i \<and> task_ok ?t (unwind i r s) \<or>
      \<not> holding ?t \<and> ls_gate (unwind i r s) = None \<and> quiet (unwind i r s)"
    using gate by (simp add: unwind_def)
qed (use inv_parts(1) [OF inv] in \<open>simp_all add: unwind_def\<close>)

lemma enter_inv:
  assumes inv: "lifecycle_inv s" and gate: "ls_gate s = Some i" and phase: "tk_phase (ls_tasks s ! i) = Admitted"
  shows "lifecycle_inv (enter i s)"
proof -
  let ?t = "ls_tasks s ! i"
  let ?w = "?t\<lparr>tk_phase := Working, tk_todo := work_stages (tk_op ?t)\<rparr>"
  have quiet: "quiet s" using inv_parts(4) [OF inv gate] phase by (simp add: task_ok_def)
  have work: "lifecycle_inv ((set_phase i Working (work_stages (tk_op ?t)) s)\<lparr>ls_intentional := b\<rparr>)"
    if "is_audio (tk_op ?t) \<or> tk_seen ?t = ls_version s" "\<not> is_disconnect (tk_op ?t)" for b
  proof (rule moved_inv [OF inv gate, where t = ?w])
    let ?s = "(set_phase i Working (work_stages (tk_op ?t)) s)\<lparr>ls_intentional := b\<rparr>"
    have "quiet ?s = quiet s" by (rule task_ok_cong(2)) (simp_all add: session_engine_def)
    then have "task_ok ?w ?s"
      using that(2) quiet by (cases "tk_op ?t") (auto simp: task_ok_def connect_stages_def)
    then show "holding ?w \<and> ls_gate ?s = Some i \<and> task_ok ?w ?s \<or> \<not> holding ?w \<and> ls_gate ?s = None \<and> quiet ?s"
      using gate by simp
  qed (use that inv_parts(1) [OF inv] in auto)
  have again: "lifecycle_inv (set_phase i Working (work_stages (tk_op ?t)) s)"
    if "is_audio (tk_op ?t)" "\<not> is_disconnect (tk_op ?t)"
    using work [of "ls_intentional s"] that by (simp add: set_phase_def set_task_def)
  show ?thesis
    using unwind_inv [OF inv gate] finish_inv [OF inv gate quiet] quiet work again
    by (auto simp: enter_def Let_def)
qed

lemma drop_inv:
  assumes inv: "lifecycle_inv s" and gate: "ls_gate s = Some i"
  shows "lifecycle_inv (drop_future (engine_runtime X R) i s)"
proof (rule moved_inv [OF inv gate])
  let ?op = "tk_op (ls_tasks s ! i)" and ?s = "drop_future (engine_runtime X R) i s"
  let ?t = "(ls_tasks s ! i)\<lparr>tk_phase := Unwinding None, tk_todo := drop_stages ?op\<rparr>"
  have fields: "ls_gate ?s = ls_gate s" "ls_version ?s = ls_version s" "ls_connected_by ?s = ls_connected_by s"
    "ls_connected ?s \<Longrightarrow> ls_connected s" "ls_tasks ?s = (ls_tasks s)[i := ?t]"
    by (cases ?op; simp add: drop_future_def Let_def)+
  show "ls_tasks ?s = (ls_tasks s)[i := ?t]" by (rule fields)
  show "eng.linked (ls_service ?s)"
    using inv_parts(1) [OF inv] stop_background_linked by (cases ?op) (simp_all add: drop_future_def Let_def)
  have audio: "quiet ?s \<and> quiet s" if "is_audio ?op"
  proof -
    have "quiet s"
      using inv_parts(4) [OF inv gate] gate_inv_holder(3) [OF inv_parts(2) [OF inv] gate] that
      by (auto simp: task_ok_def holding_def split: phase.splits)
    moreover have "quiet ?s = quiet s" by (rule task_ok_cong(2)) (use that in \<open>cases ?op; simp add: drop_future_def\<close>)+
    ultimately show ?thesis by simp
  qed
  have "task_ok ?t ?s"
    using audio by (cases ?op) (auto simp: task_ok_def drop_future_def Let_def)
  then show "holding ?t \<and> ls_gate ?s = Some i \<and> task_ok ?t ?s \<or> \<not> holding ?t \<and> ls_gate ?s = None \<and> quiet ?s"
    using gate fields(1) by simp
  show "ls_version ?s = ls_version s" by (rule fields)
  show "ls_connected s \<and> ls_connected_by ?s = ls_connected_by s \<or>
      ls_connected_by ?s = tk_seen ?t \<and> tk_phase (ls_tasks s ! i) = Working \<and> \<not> is_audio (tk_op ?t)"
    if "ls_connected ?s" using fields that by simp
qed simp_all

text \<open>A stage that is performed keeps everything but the tasks' progress.\<close>

lemma audio_quiet:
  assumes "perform (engine_runtime X R) cfg v seen txt st s = (r, s')" "eng.linked (ls_service s)" "quiet s"
    "st \<in> {StopAudio, StartAudio, StopAudioQuietly}"
  shows "quiet s'"
  using undo_closed [OF assms(1,2)] perform_connected(1) [OF assms(1)] assms(3,4) by (auto simp: quiet_def)

lemma work_inv:
  assumes inv: "lifecycle_inv s" and gate: "ls_gate s = Some i" and t: "ls_tasks s ! i = t" "tk_phase t = Working" "tk_todo t = st # rest"
    and res: "perform (engine_runtime X R) cfg v (tk_seen t) (tk_text t) st s = (Some (Inr txt), s')"
  shows "lifecycle_inv (set_task i (t\<lparr>tk_todo := rest, tk_text := txt\<rparr>) s')"
proof (rule moved_inv [OF inv gate, where t = "t\<lparr>tk_todo := rest, tk_text := txt\<rparr>"])
  let ?t = "t\<lparr>tk_todo := rest, tk_text := txt\<rparr>" and ?s = "set_task i (t\<lparr>tk_todo := rest, tk_text := txt\<rparr>) s'"
  note frame = perform_frame [OF res] and conn = perform_connected [OF res]
  have ok: "task_ok t s" using inv_parts(4) [OF inv gate] t by simp
  show "eng.linked (ls_service ?s)" using perform_linked [OF res inv_parts(1) [OF inv]] by simp
  have same: "task_ok ?t ?s = task_ok ?t s'" by (rule task_ok_cong(1)) simp_all
  have "task_ok ?t s'"
  proof (cases "is_audio (tk_op t)")
    case True
    then show ?thesis
      using ok t audio_quiet [OF res inv_parts(1) [OF inv]] by (auto simp: task_ok_def)
  next
    case False
    have suf: "suffix (st # rest) (work_stages (tk_op t))" and conn': "ApplyAnswer \<notin> set (st # rest) \<Longrightarrow> ls_connected s"
      and nd: "\<not> is_disconnect (tk_op t)"
      using ok t False by (simp_all add: task_ok_def)
    have "ls_connected s'" if "ApplyAnswer \<notin> set rest"
    proof (cases "st = ApplyAnswer")
      case False
      then have none: "ApplyAnswer \<notin> set (st # rest)" using that by simp
      then have "st = Validate" using work_todo [OF none suf] \<open>\<not> is_audio (tk_op t)\<close> by auto
      with conn(1) conn' none show ?thesis by simp
    qed (simp add: conn(1))
    moreover have "suffix rest (work_stages (tk_op t))" using suf by (simp add: suffix_ConsD)
    ultimately show ?thesis using t False nd by (simp add: task_ok_def)
  qed
  with same show "holding ?t \<and> ls_gate ?s = Some i \<and> task_ok ?t ?s \<or> \<not> holding ?t \<and> ls_gate ?s = None \<and> quiet ?s"
    using gate frame t by simp
  have apply_work: "\<not> is_audio (tk_op t)" if "st = ApplyAnswer"
    using ok t that by (auto simp: task_ok_def split: if_splits)
  show "ls_connected s \<and> ls_connected_by ?s = ls_connected_by s \<or>
      ls_connected_by ?s = tk_seen ?t \<and> tk_phase (ls_tasks s ! i) = Working \<and> \<not> is_audio (tk_op ?t)"
    if "ls_connected ?s" using that conn t apply_work by auto
qed (use t perform_frame [OF res] in auto)

lemma fail_inv:
  assumes inv: "lifecycle_inv s" and gate: "ls_gate s = Some i" and t: "ls_tasks s ! i = t" "tk_phase t = Working" "tk_todo t = st # rest"
    and res: "perform (engine_runtime X R) cfg v (tk_seen t) (tk_text t) st s = (Some (Inl err), s')"
  shows "lifecycle_inv (unwind i (Inl err) s')"
proof (rule moved_inv [OF inv gate])
  let ?t = "t\<lparr>tk_phase := Unwinding (Some (Inl err)), tk_todo := unwind_stages (tk_op t) (ap_sender (ls_audio s'))\<rparr>"
    and ?s = "unwind i (Inl err) s'"
  note frame = perform_frame [OF res] and conn = perform_connected [OF res]
  show "ls_tasks ?s = (ls_tasks s)[i := ?t]" using frame t by (simp add: unwind_def)
  show "eng.linked (ls_service ?s)" using perform_linked [OF res inv_parts(1) [OF inv]] by (simp add: unwind_def)
  have ok: "task_ok t s" using inv_parts(4) [OF inv gate] t by simp
  have "quiet s'" if "is_audio (tk_op t)"
    using ok t that audio_quiet [OF res inv_parts(1) [OF inv]] by (auto simp: task_ok_def)
  moreover have "quiet ?s = quiet s'" by (rule task_ok_cong(2)) (simp_all add: unwind_def)
  ultimately have "task_ok ?t ?s" unfolding unwind_ok by simp
  then show "holding ?t \<and> ls_gate ?s = Some i \<and> task_ok ?t ?s \<or> \<not> holding ?t \<and> ls_gate ?s = None \<and> quiet ?s"
    using gate frame by (simp add: unwind_def)
  show "ls_connected s \<and> ls_connected_by ?s = ls_connected_by s \<or>
      ls_connected_by ?s = tk_seen ?t \<and> tk_phase (ls_tasks s ! i) = Working \<and> \<not> is_audio (tk_op ?t)"
    if "ls_connected ?s" using that conn by (auto simp: unwind_def)
qed (use t perform_frame [OF res] in \<open>auto simp: unwind_def\<close>)

lemma undo_inv:
  assumes inv: "lifecycle_inv s" and gate: "ls_gate s = Some i" and t: "ls_tasks s ! i = t" "tk_phase t = Unwinding r" "tk_todo t = st # rest"
    and res: "perform (engine_runtime X R) cfg v (tk_seen t) (tk_text t) st s = (Some out, s')"
  shows "lifecycle_inv (set_task i (t\<lparr>tk_todo := rest\<rparr>) s')"
proof (rule moved_inv [OF inv gate, where t = "t\<lparr>tk_todo := rest\<rparr>"])
  let ?t = "t\<lparr>tk_todo := rest\<rparr>" and ?s = "set_task i (t\<lparr>tk_todo := rest\<rparr>) s'"
  note frame = perform_frame [OF res] and conn = perform_connected [OF res]
  have ok: "task_ok t s" using inv_parts(4) [OF inv gate] t by simp
  then have st: "st \<in> {StopAudioQuietly, StopBackground, Unmark, CloseEngine}" "st \<noteq> ApplyAnswer"
    using t by (auto simp: task_ok_def split: if_splits)
  show "eng.linked (ls_service ?s)" using perform_linked [OF res inv_parts(1) [OF inv]] by simp
  have same: "task_ok ?t ?s = task_ok ?t s'" by (rule task_ok_cong(1)) simp_all
  have "task_ok ?t s'"
  proof (cases "is_audio (tk_op t)")
    case True
    then show ?thesis using ok t audio_quiet [OF res inv_parts(1) [OF inv]] by (auto simp: task_ok_def)
  next
    case False
    then show ?thesis
      using ok t st conn(1) undo_closed [OF res inv_parts(1) [OF inv]] by (auto simp: task_ok_def)
  qed
  with same show "holding ?t \<and> ls_gate ?s = Some i \<and> task_ok ?t ?s \<or> \<not> holding ?t \<and> ls_gate ?s = None \<and> quiet ?s"
    using gate frame t by simp
  show "ls_connected s \<and> ls_connected_by ?s = ls_connected_by s \<or>
      ls_connected_by ?s = tk_seen ?t \<and> tk_phase (ls_tasks s ! i) = Working \<and> \<not> is_audio (tk_op ?t)"
    if "ls_connected ?s" using that conn st by auto
qed (use t perform_frame [OF res] in auto)

lemma holder_step_inv: "holder_step (engine_runtime X R) cfg i s s' \<Longrightarrow> lifecycle_inv s \<Longrightarrow> lifecycle_inv s'"
proof (induction rule: holder_step.induct)
  case (enter s)
  then show ?case by (simp add: enter_inv)
next
  case (work s t st rest v x s')
  then show ?case by (blast intro: work_inv)
next
  case (fail s t st rest v err s')
  then show ?case by (blast intro: fail_inv)
next
  case (cancel s t)
  then show ?case by (intro unwind_inv) auto
next
  case (timeout s t st rest diagnostic)
  then have "task_ok t s" using inv_parts(4) by blast
  with timeout have "\<not> is_audio (tk_op t)" by (auto simp: task_ok_def split: if_splits)
  with timeout show ?case by (intro unwind_inv) auto
next
  case (succeed s)
  then have "task_ok (ls_tasks s ! i) s" using inv_parts(4) by blast
  with succeed have "quiet s" "\<not> is_disconnect (tk_op (ls_tasks s ! i))"
    by (cases "tk_op (ls_tasks s ! i)"; auto simp: task_ok_def quiet_def split: if_splits)+
  with succeed show ?case by (intro finish_inv) auto
next
  case (undo s t r st rest v out s')
  then show ?case by (blast intro: undo_inv)
next
  case (undone s r)
  then have "task_ok (ls_tasks s ! i) s" using inv_parts(4) by blast
  with undone have "quiet s" "is_disconnect (tk_op (ls_tasks s ! i)) \<Longrightarrow> \<not> ls_connected s"
    by (cases "tk_op (ls_tasks s ! i)"; auto simp: task_ok_def quiet_def split: if_splits)+
  with undone show ?case by (intro finish_inv) auto
next
  case (drop s r)
  then show ?case by (simp add: drop_inv)
qed

lemma quiet_frame:
  assumes "lifecycle_inv s" "eng.linked (ls_service s')" "ls_gate s' = ls_gate s" "ls_tasks s' = ls_tasks s"
    "ls_version s' = ls_version s" "ls_connected s' = ls_connected s" "ls_connected_by s' = ls_connected_by s"
    and closed: "engine_closed (session_engine s) \<Longrightarrow> engine_closed (session_engine s')"
  shows "lifecycle_inv s'"
proof -
  have "quiet s \<Longrightarrow> quiet s'" using assms by (simp add: quiet_def)
  moreover have "task_ok t s \<Longrightarrow> task_ok t s'" for t
    using assms calculation by (auto simp: task_ok_def split: phase.splits if_splits)
  ultimately show ?thesis
    using assms by (auto simp: lifecycle_inv_def gate_inv_def stage_inv_def version_inv_def split: option.splits)
qed

lemma begin_inv:
  assumes inv: "lifecycle_inv s" and "n \<ge> ls_version s"
  shows "lifecycle_inv (s\<lparr>ls_version := n, ls_intentional := b, ls_tasks := ls_tasks s @ [new_task op n], ls_runtime := c\<rparr>)"
    (is "lifecycle_inv ?s")
proof -
  have fresh: "\<not> holding (new_task op n)" "\<not> passed (new_task op n)" "tk_phase (new_task op n) \<noteq> Working" "tk_seen (new_task op n) = n"
    by (simp_all add: new_task_def holding_def passed_def)
  have gate: "gate_inv ?s"
    using inv_parts(2) [OF inv] fresh by (auto simp: gate_inv_def nth_append less_Suc_eq)
  have "task_ok t ?s = task_ok t s" "quiet ?s = quiet s" for t
    by (rule task_ok_cong; simp add: session_engine_def)+
  then have "stage_inv ?s"
    using inv inv_parts(2) [OF inv] by (auto simp: lifecycle_inv_def stage_inv_def gate_inv_def nth_append split: option.splits)
  moreover have "version_inv ?s"
    using inv_parts(3) [OF inv] fresh assms(2) by (fastforce simp: version_inv_def)
  ultimately show ?thesis using inv gate by (simp add: lifecycle_inv_def)
qed

lemma wait_inv:
  assumes inv: "lifecycle_inv s" and i: "i < length (ls_tasks s)" "tk_phase (ls_tasks s ! i) = Waiting"
    and p: "p = Admitted \<and> g = Some i \<and> ls_gate s = None \<or> p = Finished None \<and> g = ls_gate s"
  shows "lifecycle_inv ((set_phase i p [] s)\<lparr>ls_gate := g\<rparr>)" (is "lifecycle_inv ?s")
proof -
  let ?t = "(ls_tasks s ! i)\<lparr>tk_phase := p, tk_todo := []\<rparr>"
  have same: "task_ok t ?s = task_ok t s" "quiet ?s = quiet s" for t
    by (rule task_ok_cong; simp add: session_engine_def set_phase_def set_task_def)+
  have idle: "ls_gate s \<noteq> Some i" using inv_parts(2) [OF inv] i by (auto simp: gate_inv_def)
  have "gate_inv ?s"
    using inv_parts(2) [OF inv] i p idle by (auto simp: gate_inv_def nth_list_update holding_def)
  moreover have "stage_inv ?s"
  proof (cases g)
    case None
    with p same inv_parts(5) [OF inv] show ?thesis by (auto simp: stage_inv_def)
  next
    case (Some j)
    have "task_ok (ls_tasks ?s ! j) s"
    proof (cases "j = i")
      case True
      with Some p idle have "p = Admitted" "ls_gate s = None" by auto
      with inv_parts(5) [OF inv] i True show ?thesis by (simp add: task_ok_def)
    next
      case False
      with Some p inv_parts(4) [OF inv] show ?thesis by auto
    qed
    with Some same show ?thesis by (simp add: stage_inv_def)
  qed
  moreover have "version_inv ?s"
  proof -
    have set: "x = ?t \<or> x \<in> set (ls_tasks s)" if "x \<in> set ((ls_tasks s)[i := ?t])" for x
      using that by (meson insertE set_update_subset_insert subsetD)
    have "\<not> passed ?t" "tk_phase ?t \<noteq> Working" "tk_seen ?t \<le> ls_version s"
      using p inv_parts(3) [OF inv] i by (auto simp: passed_def version_inv_def)
    with inv_parts(3) [OF inv] show ?thesis by (auto simp: version_inv_def dest!: set)
  qed
  ultimately show ?thesis using inv by (simp add: lifecycle_inv_def)
qed

lemma activity_generation: "engine_activity X e e' \<Longrightarrow> en_generation e' = en_generation e"
proof (induction rule: engine_activity.induct)
  case (message cell e now g is_string d l)
  then show ?case using on_message_state [of now g cell is_string d l e] by (metis incoming_try_send_fields(4))
qed (simp_all add: engine_send_text_def engine_send_binary_def send_command_def take_transport_error_def sender_receive_def
    sender_answered_generation task_ends_def record_transport_fault_def store_cell_def on_open_def on_close_def on_peer_state_def
    route_state Let_def split: option.splits prod.splits list.splits)

lemma background_inv:
  assumes "service_step (engine_runtime X R) (ls_service s) dc" "lifecycle_inv s"
  shows "lifecycle_inv (s\<lparr>ls_service := dc\<rparr>)"
  using es.service_step_linked [OF assms(1) inv_parts(1) [OF assms(2)]] service_step_closed [OF assms(1) inv_parts(1) [OF assms(2)]]
  by (intro quiet_frame [OF assms(2)]) (simp_all add: session_engine_def)

lemma begin_attempt_inv: "lifecycle_inv s \<Longrightarrow> lifecycle_inv (begin_attempt op s)"
  using begin_inv [where s = s and n = "ls_version s" and b = "ls_intentional s" and op = op]
  by (simp add: begin_attempt_def)

lemma begin_disconnect_inv: "lifecycle_inv s \<Longrightarrow> lifecycle_inv (begin_attempt op (request_disconnect s))"
  using begin_inv [where s = s and n = "Suc (ls_version s)" and b = True and op = op]
  by (simp add: begin_attempt_def request_disconnect_def)

lemma session_drop_inv: "lifecycle_inv s \<Longrightarrow> lifecycle_inv (session_drop (engine_runtime X R) s)"
proof -
  assume inv: "lifecycle_inv s"
  have forget: "lifecycle_inv t \<Longrightarrow> lifecycle_inv (t\<lparr>ls_runtime := False\<rparr>)" for t
    by (rule quiet_frame) (auto simp: session_engine_def dest: inv_parts(1))
  show ?thesis
    unfolding session_drop_def Let_def
    by (intro forget) (simp add: begin_disconnect_inv background_inv [OF service_step.stop inv])
qed

lemma lifecycle_step_inv: "lifecycle_step X R cfg s s' \<Longrightarrow> lifecycle_inv s \<Longrightarrow> lifecycle_inv s'"
proof (induction rule: lifecycle_step.induct)
  case (begin_op op s)
  then show ?case by (simp add: begin_attempt_inv)
next
  case (begin_disconnect op s)
  then show ?case by (simp add: begin_disconnect_inv)
next
  case (acquire s i)
  then show ?case using wait_inv [of s i Admitted "Some i"] by simp
next
  case (abandon i s)
  then show ?case using wait_inv [of s i "Finished None" "ls_gate s"] by (simp add: set_phase_def set_task_def)
next
  case (holder i s s')
  then show ?case by (rule holder_step_inv)
next
  case (audio_stops s i st rest)
  then show ?case by (intro quiet_frame [OF audio_stops.prems]) (auto simp: session_engine_def dest: inv_parts(1))
next
  case (dropped s)
  then show ?case by (rule session_drop_inv)
next
  case (background s dc)
  then show ?case by (rule background_inv)
next
  case (activity s e)
  have linked: "eng.linked (ls_service s)" by (rule inv_parts(1) [OF activity.prems])
  then have inv: "engine_inv (session_engine s)" by (simp add: eng.linked_def session_engine_def)
  have "eng.linked ((ls_service s)\<lparr>dc_transport := e\<rparr>)"
    using linked_moved [OF linked engine_activity_inv [OF activity.hyps inv]] activity_generation [OF activity.hyps]
    by (simp add: session_engine_def)
  then show ?case
    using closed_activity [OF activity.hyps] by (intro quiet_frame [OF activity.prems]) simp_all
qed

lemma session_new_inv: "session_new X R now spawn router session seq so = Inr s \<Longrightarrow> lifecycle_inv s"
proof -
  assume new: "session_new X R now spawn router session seq so = Inr s"
  then obtain events pool dc where parts: "event_channel (so_event_capacity so) = Inr events"
      "lidar_pool_try_new spawn (so_lidar_workers so) = Inr pool"
      "dc_try_new (engine_runtime X R) (engine_new (so_incoming_capacity so)) events pool (so_method so = Remote) session seq router = Inr dc"
    and s: "ls_service s = dc" "\<not> ls_connected s" "ls_gate s = None" "ls_tasks s = []"
    by (auto simp: session_new_def and_then_Inr_iff)
  have "system_reachable X R (so_incoming_capacity so) dc"
    by (rule system_reachable.start [OF bus_reachable.start [OF parts(1)] parts(2,3)])
  then have "eng.linked dc" by (rule system_linked)
  moreover have "engine_closed (dc_transport dc)"
    using parts(3)
    by (auto simp: dc_try_new_def prepare_ingress_def announce_generation_def dc_initial_def engine_runtime_def engine_port_def
        engine_new_def set_ingress_generation_def engine_closed_def holder_live_def holder_new_def holder_set_def Let_def
        split: if_splits prod.splits)
  ultimately show ?thesis
    using s by (simp add: lifecycle_inv_def gate_inv_def stage_inv_def version_inv_def quiet_def session_engine_def)
qed

lemma lifecycle_reachable_inv: "lifecycle_reachable X R cfg s \<Longrightarrow> lifecycle_inv s"
  by (induction rule: lifecycle_reachable.induct) (auto intro: session_new_inv lifecycle_step_inv)

end
