(* ===== verification/Connection_Properties.thy ===== *)
theory Connection_Properties
  imports Connection
begin

text \<open>
  What holds of every run of the connection lifecycle: the gate excludes, the engine is closed whenever the
  session is idle and not connected, a completed disconnect cannot be undone by an older attempt, and the
  holder of the gate always gives it back.
\<close>

section \<open>Progress of the gate's holder\<close>

definition progress :: "task \<Rightarrow> nat" where
  "progress t =
     (case tk_phase t of
        Waiting \<Rightarrow> 0 | Finished _ \<Rightarrow> 0
      | Admitted \<Rightarrow> 30
      | Working \<Rightarrow> 13 + length (tk_todo t)
      | Unwinding None \<Rightarrow> 1 + length (tk_todo t)
      | Unwinding (Some _) \<Rightarrow> 6 + length (tk_todo t))"

lemma stage_counts:
  "length (work_stages op) \<le> 14" "length (unwind_stages op b) \<le> 4" "length (drop_stages op) \<le> 3"
  by (cases op; simp add: connect_stages_def)+

lemma drop_future_tasks:
  "ls_tasks (drop_future W i s) =
     (ls_tasks s)[i := (ls_tasks s ! i)\<lparr>tk_phase := Unwinding None, tk_todo := drop_stages (tk_op (ls_tasks s ! i))\<rparr>]"
  by (cases "tk_op (ls_tasks s ! i)") (simp_all add: drop_future_def Let_def)

lemma drop_future_gate [simp]: "ls_gate (drop_future W i s) = ls_gate s"
  by (cases "tk_op (ls_tasks s ! i)") (simp_all add: drop_future_def Let_def)

text \<open>A step of the holder changes its own task only, and brings it forward.\<close>

definition forward :: "nat \<Rightarrow> lifecycle \<Rightarrow> lifecycle \<Rightarrow> bool" where
  "forward i s s' \<longleftrightarrow>
     (\<exists>t. ls_tasks s' = (ls_tasks s)[i := t] \<and> progress t < progress (ls_tasks s ! i) \<and>
        tk_op t = tk_op (ls_tasks s ! i) \<and> tk_seen t = tk_seen (ls_tasks s ! i))"

lemma set_task_forward:
  "ls_tasks s' = ls_tasks s \<Longrightarrow> progress t < progress (ls_tasks s ! i) \<Longrightarrow> tk_op t = tk_op (ls_tasks s ! i) \<Longrightarrow>
     tk_seen t = tk_seen (ls_tasks s ! i) \<Longrightarrow> forward i s (set_task i t s')"
  by (auto simp: forward_def)

lemma unwind_forward:
  "ls_tasks s' = ls_tasks s \<Longrightarrow> tk_phase (ls_tasks s ! i) \<in> {Admitted, Working} \<Longrightarrow> forward i s (unwind i r s')"
  unfolding unwind_def set_phase_def using stage_counts(2) [of "tk_op (ls_tasks s ! i)" "ap_sender (ls_audio s')"]
  by (intro set_task_forward) (auto simp: progress_def)

lemma finish_forward: "holding (ls_tasks s ! i) \<Longrightarrow> forward i s (finish i r s)"
  by (auto simp: forward_def finish_def progress_def holding_def split: phase.splits option.splits)

lemma enter_forward: "tk_phase (ls_tasks s ! i) = Admitted \<Longrightarrow> forward i s (enter i s)"
proof -
  assume phase: "tk_phase (ls_tasks s ! i) = Admitted"
  have "forward i s ((set_phase i Working (work_stages (tk_op (ls_tasks s ! i))) s)\<lparr>ls_intentional := b\<rparr>)" for b
    using phase stage_counts(1) [of "tk_op (ls_tasks s ! i)"] by (auto simp: forward_def progress_def)
  from this [of False] this [of "ls_intentional s"] show ?thesis
    using unwind_forward [of s s i] finish_forward [of s i] phase
    by (auto simp: enter_def Let_def set_phase_def set_task_def)
qed

lemma holder_step_forward: "holder_step W cfg i s s' \<Longrightarrow> forward i s s'"
proof (induction rule: holder_step.induct)
  case (work s t st rest v x s')
  then show ?case using perform_frame(2) [OF work.hyps(5)] by (intro set_task_forward) (auto simp: progress_def)
next
  case (fail s t st rest v err s')
  then show ?case using perform_frame(2) [OF fail.hyps(5)] by (intro unwind_forward) auto
next
  case (undo s t r st rest v out s')
  then show ?case
    using perform_frame(2) [OF undo.hyps(5)] by (intro set_task_forward) (auto simp: progress_def split: option.split)
next
  case (drop s r)
  then show ?case
    using stage_counts(3) [of "tk_op (ls_tasks s ! i)"] by (auto simp: progress_def forward_def drop_future_tasks)
qed (auto simp: enter_forward intro: unwind_forward finish_forward)

text \<open>Every stage answers in some environment, so the holder is never stuck; a task whose future is not
  dropped goes on to a result.\<close>

lemma stage_answers: "\<exists>v out s'. perform W cfg v seen texts st s = (Some out, s')"
proof -
  define v where "v = (undefined :: stage_env)\<lparr>sv_parse := \<lambda>_. Inl [], sv_created := Inl [], sv_offered := Inl [],
    sv_elapsed := Suc (case validated_timeout W (sv_now (undefined :: stage_env)) (cc_timeout cfg) of Inr d \<Rightarrow> d | Inl _ \<Rightarrow> 0)\<rparr>"
  have "\<exists>out s'. perform W cfg v seen texts st s = (Some out, s')"
    by (cases st)
      (auto simp: perform_def v_def apply_answer_def wait_datachannel_open_def Let_def split: prod.splits sum.splits)
  then show ?thesis by blast
qed

definition abandoned :: "task \<Rightarrow> bool" where
  "abandoned t \<longleftrightarrow> tk_phase t = Unwinding None \<or> tk_phase t = Finished None"

lemma holder_enabled:
  assumes "gate_inv s" "ls_gate s = Some i"
  shows "\<exists>s'. holder_step W cfg i s s' \<and> (abandoned (ls_tasks s' ! i) \<longrightarrow> abandoned (ls_tasks s ! i))"
proof -
  let ?t = "ls_tasks s ! i"
  note i = gate_inv_holder(1) [OF assms] and holds = gate_inv_holder(3) [OF assms]
  show ?thesis
  proof (cases "tk_phase ?t")
    case Admitted
    then have "\<not> abandoned (ls_tasks (enter i s) ! i)"
      using i by (auto simp: enter_def unwind_def finish_def abandoned_def Let_def)
    with holder_step.enter [OF assms(2) Admitted] show ?thesis by blast
  next
    case Working
    show ?thesis
    proof (cases "tk_todo ?t")
      case Nil
      have "\<not> abandoned (ls_tasks (finish i (Some (Inr ())) s) ! i)" using i by (simp add: finish_def abandoned_def)
      with holder_step.succeed [OF assms(2) Working Nil] show ?thesis by blast
    next
      case (Cons st rest)
      obtain v out s' where out: "perform W cfg v (tk_seen ?t) (tk_text ?t) st s = (Some out, s')"
        using stage_answers by blast
      note tasks = perform_frame(2) [OF out]
      show ?thesis
      proof (cases out)
        case (Inl err)
        have "\<not> abandoned (ls_tasks (unwind i (Inl err) s') ! i)"
          using i tasks by (simp add: unwind_def abandoned_def)
        with holder_step.fail [OF assms(2) refl Working Cons out [unfolded Inl]] show ?thesis by blast
      next
        case (Inr x)
        have "\<not> abandoned (ls_tasks (set_task i (?t\<lparr>tk_todo := rest, tk_text := x\<rparr>) s') ! i)"
          using i tasks Working by (simp add: abandoned_def)
        with holder_step.work [OF assms(2) refl Working Cons out [unfolded Inr]] show ?thesis by blast
      qed
    qed
  next
    case (Unwinding r)
    show ?thesis
    proof (cases "tk_todo ?t")
      case Nil
      have "abandoned (ls_tasks (finish i r s) ! i) \<longrightarrow> abandoned ?t"
        using i Unwinding by (simp add: finish_def abandoned_def)
      with holder_step.undone [OF assms(2) Unwinding Nil] show ?thesis by blast
    next
      case (Cons st rest)
      obtain v out s' where out: "perform W cfg v (tk_seen ?t) (tk_text ?t) st s = (Some out, s')"
        using stage_answers by blast
      have "abandoned (ls_tasks (set_task i (?t\<lparr>tk_todo := rest\<rparr>) s') ! i) \<longrightarrow> abandoned ?t"
        using i perform_frame(2) [OF out] Unwinding by (simp add: abandoned_def)
      with holder_step.undo [OF assms(2) refl Unwinding Cons out] show ?thesis by blast
    qed
  qed (use holds in simp_all)
qed

lemma holder_step_gate:
  "holder_step W cfg i s s' \<Longrightarrow> i < length (ls_tasks s) \<Longrightarrow>
     ls_gate s' = Some i \<or> ls_gate s' = None \<and> (\<exists>r. tk_phase (ls_tasks s' ! i) = Finished r)"
proof (induction rule: holder_step.induct)
  case (enter s)
  then show ?case by (auto simp: enter_def unwind_def finish_def Let_def)
next
  case (work s t st rest v x s')
  then show ?case using perform_frame(1) [OF work.hyps(5)] by simp
next
  case (fail s t st rest v err s')
  then show ?case using perform_frame(1) [OF fail.hyps(5)] by (simp add: unwind_def)
next
  case (undo s t r st rest v out s')
  then show ?case using perform_frame(1) [OF undo.hyps(5)] by simp
qed (auto simp: unwind_def finish_def)

lemma holder_step_disconnect:
  "holder_step (engine_runtime X R) cfg i s s' \<Longrightarrow> lifecycle_inv s \<Longrightarrow> is_disconnect (tk_op (ls_tasks s ! i)) \<Longrightarrow>
     ls_gate s' = None \<Longrightarrow> \<not> ls_connected s'"
proof (induction rule: holder_step.induct)
  case (enter s)
  then show ?case by (auto simp: enter_def unwind_def finish_def Let_def)
next
  case (work s t st rest v x s')
  then show ?case using perform_frame [OF work.hyps(5)] by simp
next
  case (fail s t st rest v err s')
  then show ?case using perform_frame [OF fail.hyps(5)] by (simp add: unwind_def)
next
  case (undo s t r st rest v out s')
  then show ?case using perform_frame [OF undo.hyps(5)] by simp
next
  case (succeed s)
  then have "task_ok (ls_tasks s ! i) s" using inv_parts(4) by blast
  with succeed show ?case by (cases "tk_op (ls_tasks s ! i)") (auto simp: task_ok_def)
next
  case (undone s r)
  then have "task_ok (ls_tasks s ! i) s" using inv_parts(4) by blast
  with undone show ?case by (cases "tk_op (ls_tasks s ! i)") (auto simp: task_ok_def finish_def)
qed (auto simp: unwind_def)

lemma holder_finishes:
  assumes "lifecycle_inv s" "ls_gate s = Some i"
  shows "\<exists>n s'. n \<le> progress (ls_tasks s ! i) \<and> (holder_step (engine_runtime X R) cfg i ^^ n) s s' \<and> lifecycle_inv s' \<and>
    ls_gate s' = None \<and> (\<exists>r. tk_phase (ls_tasks s' ! i) = Finished r) \<and>
    (abandoned (ls_tasks s' ! i) \<longrightarrow> abandoned (ls_tasks s ! i)) \<and>
    (is_disconnect (tk_op (ls_tasks s ! i)) \<longrightarrow> \<not> ls_connected s')"
  using assms
proof (induction "progress (ls_tasks s ! i)" arbitrary: s rule: less_induct)
  case less
  note gate = inv_parts(2) [OF less.prems(1)] less.prems(2)
  obtain s1 where step: "holder_step (engine_runtime X R) cfg i s s1"
    and kept: "abandoned (ls_tasks s1 ! i) \<longrightarrow> abandoned (ls_tasks s ! i)"
    using holder_enabled [OF gate] by blast
  note i = gate_inv_holder(1) [OF gate]
  have smaller: "progress (ls_tasks s1 ! i) < progress (ls_tasks s ! i)" and op: "tk_op (ls_tasks s1 ! i) = tk_op (ls_tasks s ! i)"
    using holder_step_forward [OF step] i by (auto simp: forward_def)
  note inv = holder_step_inv [OF step less.prems(1)] and last = holder_step_disconnect [OF step less.prems(1)]
  from holder_step_gate [OF step i] show ?case
  proof
    assume "ls_gate s1 = Some i"
    from less.hyps [OF smaller inv this] obtain n s' where
      run: "n \<le> progress (ls_tasks s1 ! i)" "(holder_step (engine_runtime X R) cfg i ^^ n) s1 s'" and
      ends: "lifecycle_inv s'" "ls_gate s' = None" "\<exists>r. tk_phase (ls_tasks s' ! i) = Finished r"
        "abandoned (ls_tasks s' ! i) \<longrightarrow> abandoned (ls_tasks s1 ! i)"
        "is_disconnect (tk_op (ls_tasks s1 ! i)) \<longrightarrow> \<not> ls_connected s'" by blast
    have "(holder_step (engine_runtime X R) cfg i ^^ Suc n) s s'" by (rule relpowp_Suc_I2 [OF step run(2)])
    moreover have "Suc n \<le> progress (ls_tasks s ! i)" using run(1) smaller by simp
    ultimately show ?thesis using ends kept op by metis
  next
    assume "ls_gate s1 = None \<and> (\<exists>r. tk_phase (ls_tasks s1 ! i) = Finished r)"
    moreover have "(holder_step (engine_runtime X R) cfg i ^^ 1) s s1" using step unfolding relpowp_1 .
    moreover have "1 \<le> progress (ls_tasks s ! i)" using smaller by simp
    ultimately show ?thesis using inv kept last by blast
  qed
qed

lemma forward_bound:
  assumes "forward i s s'" "\<forall>t\<in>set (ls_tasks s). progress t \<le> 30"
  shows "\<forall>t\<in>set (ls_tasks s'). progress t \<le> 30"
proof (cases "i < length (ls_tasks s)")
  case True
  then have "ls_tasks s ! i \<in> set (ls_tasks s)" by simp
  then have "progress (ls_tasks s ! i) \<le> 30" using assms(2) by blast
  with assms show ?thesis by (auto simp: forward_def dest!: set_update_subset_insert [THEN subsetD])
qed (use assms in \<open>auto simp: forward_def list_update_beyond\<close>)

lemma progress_bound: "lifecycle_reachable X R cfg s \<Longrightarrow> \<forall>t\<in>set (ls_tasks s). progress t \<le> 30"
proof (induction rule: lifecycle_reachable.induct)
  case (start now spawn router session seq so s)
  then show ?case by (auto simp: session_new_def and_then_Inr_iff)
next
  case (step s s')
  from step.hyps(2) step.IH show ?case
  proof (induction rule: lifecycle_step.induct)
    case (holder i s s')
    then show ?case by (rule forward_bound [OF holder_step_forward])
  qed (auto simp: begin_attempt_def request_disconnect_def new_task_def session_drop_def progress_def Let_def
      dest!: set_update_subset_insert [THEN subsetD])
qed


text \<open>The steps of everybody else leave the holder alone.\<close>

lemma others_wait:
  assumes "lifecycle_step X R cfg s s'" "ls_gate s = Some i" "gate_inv s"
  shows "holder_step (engine_runtime X R) cfg i s s' \<or> ls_gate s' = Some i \<and> ls_tasks s' ! i = ls_tasks s ! i"
  using assms
proof (induction rule: lifecycle_step.induct)
  case (abandon j s)
  then have "j \<noteq> i" using gate_inv_holder(3) by (metis holding_simps(5))
  with abandon show ?case by simp
next
  case (holder j s s')
  then have "ls_gate s = Some j" by (induction rule: holder_step.induct) simp_all
  with holder show ?case by simp
qed (auto simp: begin_attempt_def request_disconnect_def session_drop_def nth_append Let_def dest: gate_inv_holder(1))

lemma holder_run:
  assumes "(holder_step (engine_runtime X R) cfg i ^^ n) s s'" "lifecycle_inv s" "ls_gate s = Some i"
  shows "n + progress (ls_tasks s' ! i) \<le> progress (ls_tasks s ! i) \<and> lifecycle_inv s' \<and> (ls_gate s' = Some i \<or> ls_gate s' = None)"
  using assms
proof (induction n arbitrary: s')
  case (Suc n)
  obtain s1 where run: "(holder_step (engine_runtime X R) cfg i ^^ n) s s1" and step: "holder_step (engine_runtime X R) cfg i s1 s'"
    using relpowp_Suc_E [OF Suc.prems(1)] by metis
  note IH = Suc.IH [OF run Suc.prems(2,3)]
  have gate: "ls_gate s1 = Some i" using step by (induction rule: holder_step.induct) simp_all
  have i: "i < length (ls_tasks s1)" using gate_inv_holder(1) [OF inv_parts(2) gate] IH by blast
  have "progress (ls_tasks s' ! i) < progress (ls_tasks s1 ! i)"
    using holder_step_forward [OF step] i by (auto simp: forward_def)
  with IH holder_step_inv [OF step] holder_step_gate [OF step i] show ?case by auto
qed simp

section \<open>Properties of every run\<close>

text \<open>
  The gate excludes: in every run at most one connect, disconnect or audio operation is past
  the gate at any time, and it is the one the gate names.
\<close>

theorem lifecycle_gate_excludes:
  assumes "lifecycle_reachable X R cfg s" "i < length (ls_tasks s)" "holding (ls_tasks s ! i)"
  shows "ls_gate s = Some i \<and> (\<forall>j < length (ls_tasks s). holding (ls_tasks s ! j) \<longrightarrow> j = i)"
  using inv_parts(2) [OF lifecycle_reachable_inv [OF assms(1)]] assms(2,3) by (auto simp: gate_inv_def)

text \<open>
  Property C9. No peer is orphaned: whenever nobody is past the gate and the session does not count as
  connected - after a failure, a cancellation, a timeout, a dropped future or a disconnect - the engine holds
  no peer, channel, sender task or pending offer, its channel is not open, and it stays so while only
  the service's users and the peer's late callbacks run.
\<close>

theorem idle_engine_closed:
  assumes "lifecycle_reachable X R cfg s" "ls_gate s = None" "\<not> ls_connected s"
  shows "engine_closed (session_engine s) \<and> engine_ready_state (session_engine s) \<noteq> ''open'' \<and>
    (\<forall>e. engine_activity X (session_engine s) e \<longrightarrow> engine_closed e) \<and>
    (\<forall>dc. service_step (engine_runtime X R) (ls_service s) dc \<longrightarrow> engine_closed (dc_transport dc))"
proof -
  note inv = lifecycle_reachable_inv [OF assms(1)]
  have closed: "engine_closed (session_engine s)" using inv_parts(5) [OF inv assms(2)] assms(3) by (simp add: quiet_def)
  have "engine_ready_state (session_engine s) \<noteq> ''open''"
    using closed_not_open [OF closed]
    by (cases "holder_get (en_holder (session_engine s))") (simp_all add: engine_ready_state_def)
  with closed closed_activity service_step_closed [OF _ inv_parts(1) [OF inv]] show ?thesis
    by (auto simp: session_engine_def)
qed

text \<open>
  Property C8. A completed disconnect is final for what was started before it: every attempt that is still
  working, and the attempt that made the session connected, subscribed to the cancellation channel
  no earlier than the disconnect was requested.
\<close>

theorem disconnect_is_final:
  assumes "lifecycle_reachable X R cfg s" "d \<in> set (ls_tasks s)" "is_disconnect (tk_op d)" "tk_phase d = Finished (Some r)"
  shows "(ls_connected s \<longrightarrow> tk_seen d \<le> ls_connected_by s) \<and>
    (\<forall>t\<in>set (ls_tasks s). tk_phase t = Working \<and> \<not> is_audio (tk_op t) \<longrightarrow> tk_seen d \<le> tk_seen t) \<and>
    tk_seen d \<le> ls_version s"
  using inv_parts(3) [OF lifecycle_reachable_inv [OF assms(1)]] assms(2-4) by (auto simp: version_inv_def passed_def)

text \<open>
  Property C11. Whoever is past the gate terminates: the steps of the others leave it as it is, it makes at
  most thirty steps of its own in whatever order stages succeed, fail, time out, are cancelled or
  dropped, and it always has a next step until the gate is free.
\<close>

theorem gate_holder_terminates:
  assumes "lifecycle_reachable X R cfg s" "ls_gate s = Some i"
  shows "(\<forall>s'. lifecycle_step X R cfg s s' \<longrightarrow>
      holder_step (engine_runtime X R) cfg i s s' \<or> ls_gate s' = Some i \<and> ls_tasks s' ! i = ls_tasks s ! i) \<and>
    (\<forall>n s'. (holder_step (engine_runtime X R) cfg i ^^ n) s s' \<longrightarrow>
      n \<le> 30 \<and> (ls_gate s' = None \<or> (\<exists>s''. holder_step (engine_runtime X R) cfg i s' s'')))"
proof -
  note inv = lifecycle_reachable_inv [OF assms(1)]
  note gate = inv_parts(2) [OF inv] assms(2)
  have "progress (ls_tasks s ! i) \<le> 30"
    using progress_bound [OF assms(1)] gate_inv_holder(1) [OF gate] by auto
  then have "n \<le> 30 \<and> (ls_gate s' = None \<or> (\<exists>s''. holder_step (engine_runtime X R) cfg i s' s''))"
    if "(holder_step (engine_runtime X R) cfg i ^^ n) s s'" for n s'
    using holder_run [OF that inv assms(2)] holder_enabled [of s' i] inv_parts(2) [of s'] by fastforce
  with others_wait [OF _ gate(2,1)] show ?thesis by blast
qed

text \<open>
  Property C10. The gate is always released again: from every state of every run in which it is held there is
  a way to the end of the operation in at most thirty steps of its own, without its future being dropped;
  the operation then has a result, and a disconnect leaves the session unconnected with the engine
  closed.
\<close>

theorem gate_is_released:
  assumes "lifecycle_reachable X R cfg s" "ls_gate s = Some i"
  shows "\<exists>n s' r. n \<le> 30 \<and> (holder_step (engine_runtime X R) cfg i ^^ n) s s' \<and> ls_gate s' = None \<and>
    tk_phase (ls_tasks s' ! i) = Finished r \<and> (tk_phase (ls_tasks s ! i) \<noteq> Unwinding None \<longrightarrow> r \<noteq> None) \<and>
    (is_disconnect (tk_op (ls_tasks s ! i)) \<longrightarrow> \<not> ls_connected s' \<and> engine_closed (session_engine s'))"
proof -
  note inv = lifecycle_reachable_inv [OF assms(1)]
  note gate = inv_parts(2) [OF inv] assms(2)
  have bound: "progress (ls_tasks s ! i) \<le> 30" and held: "holding (ls_tasks s ! i)"
    using progress_bound [OF assms(1)] gate_inv_holder(1,3) [OF gate] by auto
  obtain n s' r where run: "n \<le> progress (ls_tasks s ! i)" "(holder_step (engine_runtime X R) cfg i ^^ n) s s'"
    and ends: "lifecycle_inv s'" "ls_gate s' = None" "tk_phase (ls_tasks s' ! i) = Finished r"
      "abandoned (ls_tasks s' ! i) \<longrightarrow> abandoned (ls_tasks s ! i)" "is_disconnect (tk_op (ls_tasks s ! i)) \<longrightarrow> \<not> ls_connected s'"
    using holder_finishes [OF inv assms(2), of X R cfg] by blast
  have "r \<noteq> None" if "tk_phase (ls_tasks s ! i) \<noteq> Unwinding None"
    using ends(3,4) held that by (auto simp: abandoned_def)
  moreover have "n \<le> 30" using run(1) bound by simp
  ultimately show ?thesis
    using run(2) ends(2,3,5) inv_parts(5) [OF ends(1,2)] by (auto simp: quiet_def)
qed

section \<open>Concrete runs\<close>

text \<open>The next step of the holder in a given environment, unless it is still waiting.\<close>

definition holder_advance :: "(engine, 'k) runtime \<Rightarrow> connection_config \<Rightarrow> stage_env \<Rightarrow> nat \<Rightarrow> lifecycle \<Rightarrow> lifecycle option" where
  "holder_advance W cfg v i s =
     (if ls_gate s \<noteq> Some i then None
      else let t = ls_tasks s ! i in
        case tk_phase t of
          Admitted \<Rightarrow> Some (enter i s)
        | Working \<Rightarrow>
            (case tk_todo t of
               [] \<Rightarrow> Some (finish i (Some (Inr ())) s)
             | st # rest \<Rightarrow>
                 (case perform W cfg v (tk_seen t) (tk_text t) st s of
                    (Some (Inr x), s') \<Rightarrow> Some (set_task i (t\<lparr>tk_todo := rest, tk_text := x\<rparr>) s')
                  | (Some (Inl err), s') \<Rightarrow> Some (unwind i (Inl err) s')
                  | (None, _) \<Rightarrow> None))
        | Unwinding r \<Rightarrow>
            (case tk_todo t of
               [] \<Rightarrow> Some (finish i r s)
             | st # rest \<Rightarrow>
                 (case perform W cfg v (tk_seen t) (tk_text t) st s of
                    (Some _, s') \<Rightarrow> Some (set_task i (t\<lparr>tk_todo := rest\<rparr>) s')
                  | (None, _) \<Rightarrow> None))
        | _ \<Rightarrow> None)"

lemma holder_advance_step: "holder_advance W cfg v i s = Some s' \<Longrightarrow> holder_step W cfg i s s'"
  by (auto simp: holder_advance_def Let_def split: if_splits phase.splits list.splits prod.splits option.splits sum.splits
      intro: holder_step.intros)

fun advances :: "nat \<Rightarrow> (engine, 'k) runtime \<Rightarrow> connection_config \<Rightarrow> stage_env \<Rightarrow> nat \<Rightarrow> lifecycle \<Rightarrow> lifecycle option" where
  "advances 0 W cfg v i s = Some s"
| "advances (Suc n) W cfg v i s = Option.bind (holder_advance W cfg v i s) (advances n W cfg v i)"

lemma advances_reachable:
  "lifecycle_reachable X R cfg s \<Longrightarrow> advances n (engine_runtime X R) cfg v i s = Some s' \<Longrightarrow> lifecycle_reachable X R cfg s'"
proof (induction n arbitrary: s)
  case (Suc n)
  then show ?case
    using lifecycle_reachable.step [OF Suc.prems(1) lifecycle_step.holder [OF holder_advance_step]]
    by (auto simp: Option.bind_eq_Some_conv)
qed simp

definition options0 :: session_options where
  "options0 = session_options_new None LocalAP None"

definition env1 :: stage_env where
  "env1 = \<lparr>sv_now = moment0, sv_elapsed = 0, sv_audio = Inr (), sv_created = Inr (), sv_kept = True, sv_offered = Inr ''offer'',
     sv_exchange = (\<lambda>_ _. Inr ''answer''), sv_parse = Inr, sv_set_remote = (\<lambda>_. Inr ()), sv_diagnostic = ''diagnostic'',
     sv_sender = Inr (), sv_play = Inr ()\<rparr>"

definition config0 :: connection_config where
  "config0 = \<lparr>cc_method = LocalAP, cc_ip = None, cc_to_string = (\<lambda>_. ''offer''), cc_timeout = ten_seconds\<rparr>"

definition service3 :: "engine dc_service" where
  "service3 = snd (prepare_ingress runtime1
     (dc_initial (engine_new 256) (case event_channel 64 of Inr b \<Rightarrow> b | Inl _ \<Rightarrow> bus0) \<lparr>lp_queue = [], lp_workers = 2\<rparr> False 1 1))"

definition session0 :: lifecycle where
  "session0 =
     \<lparr>ls_service = service3, ls_connected = False, ls_intentional = False, ls_version = 0, ls_gate = None, ls_tasks = [],
      ls_audio = \<lparr>ap_sender = False, ap_cleanup = False\<rparr>, ls_runtime = False, ls_connected_by = 0\<rparr>"

lemma session0_new: "session_new texts0 runtime1 0 (\<lambda>_. True) True 1 1 options0 = Inr session0"
proof -
  have "rt_instant_max runtime1 = 9223372036854775808000000000" by (simp add: runtime1_def)
  moreover have "spawn_workers (\<lambda>_. True) 0 2 = Inr 2" by (simp add: numeral_2_eq_2)
  ultimately show ?thesis
    by (simp add: session_new_def options0_def session_options_new_def options_validate_def secs_def policy_defs runtime1_engine
      session0_def service3_def event_channel_def lidar_pool_try_new_def dc_try_new_def)
qed

definition acquired :: "nat \<Rightarrow> lifecycle \<Rightarrow> lifecycle" where
  "acquired i s = (set_phase i Admitted [] s)\<lparr>ls_gate := Some i\<rparr>"

definition disconnecting :: lifecycle where
  "disconnecting = acquired 0 (begin_attempt ServiceDisconnect (request_disconnect session0))"

lemma service3_transport: "dc_transport service3 = snd (set_ingress_generation 1 (engine_new 256))"
  by (simp add: service3_def prepare_ingress_def announce_generation_def dc_initial_def runtime1_def engine_port_def session_id_def
      set_generation_def split: prod.splits)

lemmas run_defs = holder_advance_def enter_def unwind_def finish_def set_phase_def set_task_def perform_def set_engine_def
  session_engine_def begin_attempt_def request_disconnect_def new_task_def acquired_def

lemmas engine_defs = engine_new_def set_ingress_generation_def close_inner_def offer_begin_def offer_create_def
  holder_new_def holder_set_def holder_reset_def holder_arc_def on_open_def cell_event_def apply_event_def from_u8_def

definition session_with :: "engine \<Rightarrow> bool \<Rightarrow> bool \<Rightarrow> nat option \<Rightarrow> task list \<Rightarrow> lifecycle" where
  "session_with e conn intentional gate tasks =
     \<lparr>ls_service = service3\<lparr>dc_transport := e\<rparr>, ls_connected = conn, ls_intentional = intentional, ls_version = 1, ls_gate = gate,
      ls_tasks = tasks, ls_audio = \<lparr>ap_sender = False, ap_cleanup = False\<rparr>, ls_runtime = False,
      ls_connected_by = (if conn then 1 else 0)\<rparr>"

definition task_with :: "operation \<Rightarrow> phase \<Rightarrow> stage list \<Rightarrow> string \<times> string \<Rightarrow> task" where
  "task_with op p todo texts = \<lparr>tk_op = op, tk_seen = 1, tk_phase = p, tk_todo = todo, tk_text = texts\<rparr>"

definition engine1 :: engine where
  "engine1 = \<lparr>en_incoming = [], en_incoming_capacity = 256, en_incoming_open = True, en_generation = 1,
     en_holder = \<lparr>sh_cells = [0], sh_current = 0\<rparr>, en_peer = False, en_data_channel = False, en_audio_track = False,
     en_commands = None, en_task = None, en_fault = None, en_resources = False, en_offering = None\<rparr>"

definition engine2 :: "u8 \<Rightarrow> engine" where
  "engine2 cell = engine1\<lparr>en_holder := \<lparr>sh_cells = [0, cell], sh_current = 1\<rparr>, en_peer := True, en_data_channel := True,
     en_audio_track := True, en_commands := Some [], en_task := Some (1, 1, None), en_resources := True\<rparr>"

definition disconnect_done :: task where
  "disconnect_done = task_with ServiceDisconnect (Finished (Some (Inr ()))) [] ([], [])"

definition disconnected :: lifecycle where
  "disconnected = session_with engine1 False True None [disconnect_done]"

definition offered :: "u8 \<Rightarrow> lifecycle" where
  "offered cell = session_with (engine2 cell) False False (Some 1)
     [disconnect_done, task_with ServiceConnect Working [ApplyAnswer] (''192.168.12.1'', ''answer'')]"

definition connected :: lifecycle where
  "connected = session_with (engine2 2) True False None
     [disconnect_done, task_with ServiceConnect (Finished (Some (Inr ()))) [] (''192.168.12.1'', ''answer'')]"

lemmas witness_defs = session0_def disconnecting_def session_with_def task_with_def service3_transport engine1_def engine2_def
  disconnected_def offered_def connected_def disconnect_done_def env1_def config0_def

lemma disconnect_run: "advances 4 runtime1 config0 env1 0 disconnecting = Some disconnected"
  by (simp add: run_defs eval_nat_numeral Let_def witness_defs engine_defs)

lemma offer_run: "advances 7 runtime1 config0 env1 1 (acquired 1 (begin_attempt ServiceConnect disconnected)) = Some (offered 1)"
  by (simp add: run_defs eval_nat_numeral Let_def witness_defs connect_stages_def target_ip_def engine_defs)

lemma open_run: "engine_activity texts0 (session_engine (offered 1)) (engine2 2)"
proof -
  have "engine2 2 = on_open 1 1 (session_engine (offered 1))" "bound_cell 1 (session_engine (offered 1))"
    by (simp_all add: witness_defs session_engine_def engine_defs bound_cell_def)
  then show ?thesis using engine_activity.opened by metis
qed

lemma connect_run: "advances 2 runtime1 config0 env1 1 (offered 2) = Some connected"
  by (simp add: run_defs eval_nat_numeral Let_def witness_defs apply_answer_def current_ready_state_def holder_get_def engine_defs)

lemma begins:
  assumes "lifecycle_reachable X R cfg s"
  shows "is_disconnect op \<Longrightarrow> lifecycle_reachable X R cfg (begin_attempt op (request_disconnect s))"
    and "\<not> is_disconnect op \<Longrightarrow> lifecycle_reachable X R cfg (begin_attempt op s)"
    and "ls_gate s = None \<Longrightarrow> i < length (ls_tasks s) \<Longrightarrow> tk_phase (ls_tasks s ! i) = Waiting \<Longrightarrow> lifecycle_reachable X R cfg (acquired i s)"
  using lifecycle_reachable.step [OF assms] lifecycle_step.intros(1-3) [where X = X and R = R and cfg = cfg]
  unfolding acquired_def by blast+

lemma disconnecting_reachable: "lifecycle_reachable texts0 runtime1 config0 disconnecting"
proof -
  have "lifecycle_reachable texts0 runtime1 config0 session0" by (rule lifecycle_reachable.start [OF session0_new])
  then have "lifecycle_reachable texts0 runtime1 config0 (begin_attempt ServiceDisconnect (request_disconnect session0))"
    by (rule begins(1)) simp
  then show ?thesis
    unfolding disconnecting_def by (rule begins(3)) (simp_all add: begin_attempt_def request_disconnect_def session0_def new_task_def)
qed

lemma disconnected_reachable: "lifecycle_reachable texts0 runtime1 config0 disconnected"
  by (rule advances_reachable [OF disconnecting_reachable]) (unfold runtime1_engine, rule disconnect_run)

lemma connected_reachable: "lifecycle_reachable texts0 runtime1 config0 connected"
proof -
  have "lifecycle_reachable texts0 runtime1 config0 (begin_attempt ServiceConnect disconnected)"
    by (rule begins(2) [OF disconnected_reachable]) simp
  then have "lifecycle_reachable texts0 runtime1 config0 (acquired 1 (begin_attempt ServiceConnect disconnected))"
    by (rule begins(3)) (simp_all add: begin_attempt_def disconnected_def session_with_def new_task_def)
  then have "lifecycle_reachable texts0 runtime1 config0 (offered 1)"
    by (rule advances_reachable) (unfold runtime1_engine, rule offer_run)
  then have "lifecycle_reachable texts0 runtime1 config0 (set_engine (engine2 2) (offered 1))"
    by (rule lifecycle_reachable.step) (rule lifecycle_step.activity [OF open_run])
  moreover have "set_engine (engine2 2) (offered 1) = offered 2" by (simp add: set_engine_def offered_def session_with_def)
  ultimately have "lifecycle_reachable texts0 runtime1 config0 (offered 2)" by simp
  then show ?thesis by (rule advances_reachable) (unfold runtime1_engine, rule connect_run)
qed


theorem lifecycle_gate_excludes_witness: "ls_gate disconnecting = Some 0"
  using lifecycle_gate_excludes [OF disconnecting_reachable, of 0]
  by (simp add: disconnecting_def acquired_def begin_attempt_def request_disconnect_def session0_def)

theorem idle_engine_closed_witness: "engine_closed (session_engine disconnected)"
  using idle_engine_closed [OF disconnected_reachable] by (simp add: disconnected_def session_with_def)

theorem disconnect_is_final_witness: "ls_connected connected \<and> tk_seen disconnect_done \<le> ls_connected_by connected"
  using disconnect_is_final [OF connected_reachable, of disconnect_done "Inr ()"]
  by (simp add: connected_def session_with_def disconnect_done_def task_with_def)

theorem gate_holder_terminates_witness:
  "(\<exists>s'. holder_step runtime1 config0 0 disconnecting s') \<and> \<not> (\<exists>s'. (holder_step runtime1 config0 0 ^^ 31) disconnecting s')"
proof -
  have gate: "ls_gate disconnecting = Some 0" by (simp add: disconnecting_def acquired_def)
  then have "(holder_step runtime1 config0 0 ^^ n) disconnecting s' \<Longrightarrow>
      n \<le> 30 \<and> (ls_gate s' = None \<or> (\<exists>s''. holder_step runtime1 config0 0 s' s''))" for n s'
    using gate_holder_terminates [OF disconnecting_reachable, of 0] by (simp add: runtime1_engine)
  from this [of 0 disconnecting] this [of 31] gate show ?thesis by auto
qed

theorem gate_is_released_witness:
  "\<exists>n s'. n \<le> 30 \<and> (holder_step runtime1 config0 0 ^^ n) disconnecting s' \<and> engine_closed (session_engine s')"
  using gate_is_released [OF disconnecting_reachable, of 0]
  by (auto simp: runtime1_engine disconnecting_def acquired_def begin_attempt_def request_disconnect_def session0_def new_task_def)

section \<open>Options and retries\<close>

lemma options_validate_ok:
  "options_validate m now so = Inr () \<longleftrightarrow>
     so_incoming_capacity so \<in> {1..4096} \<and> so_event_capacity so \<in> {1..256} \<and> so_lidar_workers so \<in> {1..32} \<and>
     0 < so_validation_timeout so \<and> now + so_validation_timeout so \<le> m"
  by (auto simp: options_validate_def policy_defs)

lemma spawn_workers_ok: "spawn_workers spawn i n = Inr k \<longleftrightarrow> k = i + n \<and> (\<forall>j<n. spawn (i + j))"
proof (induction n arbitrary: i)
  case (Suc n)
  have "(\<forall>j<Suc n. spawn (i + j)) \<longleftrightarrow> spawn i \<and> (\<forall>j<n. spawn (Suc i + j))"
    by (simp add: All_less_Suc2)
  then show ?case using Suc.IH [of "Suc i"] by auto
qed auto

text \<open>
  A session is created exactly when its options are within the documented bounds and all its
  threads can be started; its queues then have the requested sizes, nothing is connected and the gate is
  free. In every other case creation reports an error.
\<close>

theorem session_new_exact:
  "((\<exists>s. session_new X R now spawn router session seq so = Inr s) \<longleftrightarrow>
      router \<and> (\<forall>k < so_lidar_workers so. spawn k) \<and>
      so_incoming_capacity so \<in> {1..4096} \<and> so_event_capacity so \<in> {1..256} \<and> so_lidar_workers so \<in> {1..32} \<and>
      0 < so_validation_timeout so \<and> now + so_validation_timeout so \<le> rt_instant_max R) \<and>
   (\<forall>s. session_new X R now spawn router session seq so = Inr s \<longrightarrow>
      en_incoming_capacity (session_engine s) = so_incoming_capacity so \<and>
      eb_capacity (dc_events (ls_service s)) = so_event_capacity so \<and>
      lp_workers (dc_lidar (ls_service s)) = so_lidar_workers so \<and> \<not> ls_connected s \<and> ls_gate s = None \<and> ls_tasks s = [])"
proof -
  have unit: "options_validate m now so = Inr u \<longleftrightarrow> options_validate m now so = Inr ()" for m u by simp
  have parts: "session_new X R now spawn router session seq so = Inr s \<longleftrightarrow>
      options_validate (rt_instant_max R) now so = Inr () \<and> (\<forall>k < so_lidar_workers so. spawn k) \<and> router \<and>
      (\<exists>b. event_channel (so_event_capacity so) = Inr b \<and>
        s = \<lparr>ls_service = snd (prepare_ingress (engine_runtime X R) (dc_initial (engine_new (so_incoming_capacity so)) b
                \<lparr>lp_queue = [], lp_workers = so_lidar_workers so\<rparr> (so_method so = Remote) session seq)),
             ls_connected = False, ls_intentional = False, ls_version = 0, ls_gate = None, ls_tasks = [],
             ls_audio = \<lparr>ap_sender = False, ap_cleanup = False\<rparr>, ls_runtime = False, ls_connected_by = 0\<rparr>)" for s
    unfolding session_new_def
    by (auto simp: and_then_Inr_iff lidar_pool_try_new_def dc_try_new_def spawn_workers_ok options_validate_ok Let_def
        split: if_splits)
  show ?thesis
    unfolding parts options_validate_ok
    by (auto simp: event_channel_def prepare_ingress_def announce_generation_def dc_initial_def engine_runtime_def engine_port_def
        engine_new_def set_ingress_generation_def session_engine_def set_generation_def Let_def split: prod.splits)
qed

theorem session_new_exact_witness:
  "(\<exists>s. session_new texts0 runtime1 0 (\<lambda>_. True) True 1 1 options0 = Inr s) \<and> so_incoming_capacity options0 \<in> {1..4096}"
  using session_new_exact [of texts0 runtime1 0 "\<lambda>_. True" True 1 1 options0] session0_new by blast


text \<open>The attempt at which a retry loop succeeds.\<close>

definition succeeds_at :: "(nat \<Rightarrow> bool) \<Rightarrow> (nat \<Rightarrow> string + unit) \<Rightarrow> nat \<Rightarrow> nat \<Rightarrow> bool" where
  "succeeds_at stopped result attempt k \<longleftrightarrow>
     (\<forall>j\<le>k. \<not> stopped (attempt + j)) \<and> (\<forall>j<k. isl (result (attempt + j))) \<and> \<not> isl (result (attempt + k))"

lemma succeeds_at_0: "succeeds_at stopped result a 0 \<longleftrightarrow> \<not> stopped a \<and> \<not> isl (result a)"
  by (simp add: succeeds_at_def)

lemma succeeds_at_Suc: "succeeds_at stopped result a (Suc k) \<longleftrightarrow> \<not> stopped a \<and> isl (result a) \<and> succeeds_at stopped result (Suc a) k"
  by (auto simp: succeeds_at_def All_less_Suc2 All_less_Suc2 [where n = "Suc _", unfolded less_Suc_eq_le])

lemma succeeds_step:
  "(\<exists>k < Suc n. succeeds_at stopped result a k) \<longleftrightarrow>
     \<not> stopped a \<and> (\<not> isl (result a) \<or> (\<exists>k<n. succeeds_at stopped result (Suc a) k))"
  by (auto simp: Ex_less_Suc2 succeeds_at_0 succeeds_at_Suc)

lemma backoff_bounds: "200 \<le> backoff_millis a \<and> backoff_millis a \<le> 51200"
proof -
  have "(2 :: nat) ^ min a 8 \<le> 2 ^ 8" "(1 :: nat) \<le> 2 ^ min a 8" by (intro power_increasing) simp_all
  then show ?thesis by (simp add: backoff_millis_def)
qed

lemma upt_first: "map f [a..<a + Suc m] = f a # map f [Suc a..<Suc a + m]"
  by (simp add: upt_conv_Cons del: upt_Suc)

lemma session_retries:
  "session_auto_reconnect stopped result a n = (r, sleeps) \<Longrightarrow>
     r = (\<exists>k<n. succeeds_at stopped result a k) \<and> (\<exists>m \<le> n - 1. sleeps = map backoff_millis [a..<a + m])"
proof (induction n arbitrary: a r sleeps)
  case (Suc n)
  show ?case
  proof (cases "stopped a \<or> \<not> isl (result a)")
    case True
    then show ?thesis using Suc.prems by (auto simp: succeeds_step split: sum.splits if_splits intro: exI [of _ 0])
  next
    case False
    then obtain e where e: "result a = Inl e" by (auto simp: isl_def)
    obtain r' sl where rec: "session_auto_reconnect stopped result (Suc a) n = (r', sl)" by force
    obtain m where m: "m \<le> n - 1" "sl = map backoff_millis [Suc a..<Suc a + m]" using Suc.IH [OF rec] by blast
    have out: "r = r'" "sleeps = (if n > 0 then [backoff_millis a] else []) @ sl" using Suc.prems False e rec by auto
    have "\<exists>m' \<le> Suc n - 1. sleeps = map backoff_millis [a..<a + m']"
      using m out(2) upt_first [of backoff_millis a m] by (intro exI [of _ "if n = 0 then 0 else Suc m"]) auto
    moreover have "r = (\<exists>k < Suc n. succeeds_at stopped result a k)"
      using Suc.IH [OF rec] out(1) False by (simp add: succeeds_step)
    ultimately show ?thesis by blast
  qed
qed simp

lemma service_retries:
  "service_auto_reconnect_loop before gated result a n = (r, sleeps) \<Longrightarrow>
     r = (\<exists>k<n. succeeds_at (\<lambda>j. before j \<or> gated j) result a k) \<and> (\<exists>m \<le> n. sleeps = map backoff_millis [a..<a + m])"
proof (induction n arbitrary: a r sleeps)
  case (Suc n)
  show ?case
  proof (cases "before a \<or> gated a \<or> \<not> isl (result a)")
    case True
    then show ?thesis using Suc.prems by (auto simp: succeeds_step split: sum.splits if_splits intro: exI [of _ 0])
  next
    case False
    then obtain e where e: "result a = Inl e" by (auto simp: isl_def)
    obtain r' sl where rec: "service_auto_reconnect_loop before gated result (Suc a) n = (r', sl)" by force
    obtain m where m: "m \<le> n" "sl = map backoff_millis [Suc a..<Suc a + m]" using Suc.IH [OF rec] by blast
    have out: "r = r'" "sleeps = backoff_millis a # sl" using Suc.prems False e rec by auto
    have "\<exists>m' \<le> Suc n. sleeps = map backoff_millis [a..<a + m']"
      using m out(2) upt_first [of backoff_millis a m] by (intro exI [of _ "Suc m"]) auto
    moreover have "r = (\<exists>k < Suc n. succeeds_at (\<lambda>j. before j \<or> gated j) result a k)"
      using Suc.IH [OF rec] out(1) False by (simp add: succeeds_step)
    ultimately show ?thesis by blast
  qed
qed simp

text \<open>
  Retrying is bounded and exact: \<open>auto_reconnect\<close> reports success exactly when some attempt before
  the limit succeeds and no intentional disconnect is noticed up to it; it sleeps at most once between
  two attempts, with delays that double from 200 ms and never exceed 51.2 s. The connection service's
  own loop reports the same, but also sleeps after its last attempt.
\<close>

theorem auto_reconnect_exact:
  "(case session_auto_reconnect stopped result 0 max_retries of (r, sleeps) \<Rightarrow>
      r = (\<exists>k < max_retries. succeeds_at stopped result 0 k) \<and>
      (\<exists>m \<le> max_retries - 1. sleeps = map backoff_millis [0..<m])) \<and>
   (case service_auto_reconnect intentional before gated result max_retries of (r, sleeps) \<Rightarrow>
      r = (\<not> intentional \<and> (\<exists>k < max_retries. succeeds_at (\<lambda>j. before j \<or> gated j) result 0 k)) \<and>
      (\<exists>m \<le> max_retries. sleeps = map backoff_millis [0..<m])) \<and>
   200 \<le> backoff_millis a \<and> backoff_millis a \<le> 51200 \<and> backoff_millis (Suc a) = min (2 * backoff_millis a) 51200"
proof -
  have "backoff_millis (Suc a) = min (2 * backoff_millis a) 51200"
  proof (cases "a < 8")
    case True
    then have "a \<in> {0, 1, 2, 3, 4, 5, 6, 7}" by auto
    then show ?thesis by (auto simp: backoff_millis_def)
  qed (simp add: backoff_millis_def)
  moreover have "case service_auto_reconnect intentional before gated result max_retries of (r, sleeps) \<Rightarrow>
      r = (\<not> intentional \<and> (\<exists>k < max_retries. succeeds_at (\<lambda>j. before j \<or> gated j) result 0 k)) \<and>
      (\<exists>m \<le> max_retries. sleeps = map backoff_millis [0..<m])"
    using service_retries [of before gated result 0 max_retries]
    by (auto simp: service_auto_reconnect_def split: prod.splits)
  ultimately show ?thesis
    using session_retries [of stopped result 0 max_retries] backoff_bounds [of a] by (auto split: prod.splits)
qed

end
