(* ===== verification/Host_Name.thy ===== *)
theory Host_Name
  imports Utf8_Text
begin

text \<open>
  The parser of IP addresses of the standard library (\<open>std::net\<close>), on bytes, and the host rules of
  \<open>signaling_url\<close> in \<open>src/src/infrastructure/signaling_http.rs\<close>. A reader takes the remaining input and
  returns a value with the rest, or nothing, leaving the input as it was.
\<close>

type_synonym 'a reader = "string \<Rightarrow> ('a \<times> string) option"

definition to_digit :: "nat \<Rightarrow> char \<Rightarrow> nat option" where
  "to_digit radix c =
     (let n = of_char c :: nat;
          d = (if 48 \<le> n \<and> n \<le> 57 then n - 48 else if 97 \<le> n \<and> n \<le> 122 then n - 87
               else if 65 \<le> n \<and> n \<le> 90 then n - 55 else radix)
      in if d < radix then Some d else None)"

definition read_given_char :: "char \<Rightarrow> unit reader" where
  "read_given_char c s = (case s of x # rest \<Rightarrow> if x = c then Some ((), rest) else None | [] \<Rightarrow> None)"

text \<open>\<open>read_number\<close>: digits as long as they come; \<open>bound\<close> is the range of the target integer.\<close>

definition digits_of :: "nat \<Rightarrow> string \<Rightarrow> string" where
  "digits_of radix s = takeWhile (\<lambda>c. to_digit radix c \<noteq> None) s"

definition number_of :: "nat \<Rightarrow> string \<Rightarrow> nat" where
  "number_of radix ds = foldl (\<lambda>n c. n * radix + the (to_digit radix c)) 0 ds"

definition read_number :: "nat \<Rightarrow> nat \<Rightarrow> nat \<Rightarrow> bool \<Rightarrow> nat reader" where
  "read_number radix bound max_digits allow_zero_prefix s =
     (let ds = digits_of radix s in
      if ds = [] \<or> length ds > max_digits \<or> number_of radix ds \<ge> bound then None
      else if \<not> allow_zero_prefix \<and> hd ds = CHR ''0'' \<and> length ds > 1 then None
      else Some (number_of radix ds, drop (length ds) s))"

definition read_separator :: "char \<Rightarrow> nat \<Rightarrow> 'a reader \<Rightarrow> 'a reader" where
  "read_separator sep index inner s =
     (if index > 0 then Option.bind (read_given_char sep s) (\<lambda>(_, rest). inner rest) else inner s)"

fun read_octets :: "nat \<Rightarrow> nat \<Rightarrow> nat list reader" where
  "read_octets i 0 s = Some ([], s)"
| "read_octets i (Suc n) s =
     Option.bind (read_separator CHR ''.'' i (read_number 10 256 3 False) s)
       (\<lambda>(v, rest). map_option (\<lambda>(vs, r). (v # vs, r)) (read_octets (Suc i) n rest))"

definition read_ipv4_addr :: "nat list reader" where
  "read_ipv4_addr s = read_octets 0 4 s"

text \<open>\<open>read_groups\<close> with \<open>n\<close> slots left of \<open>i + n\<close>: the groups, whether they end in an IPv4 address, and the rest.\<close>

fun read_groups :: "nat \<Rightarrow> nat \<Rightarrow> string \<Rightarrow> nat list \<times> bool \<times> string" where
  "read_groups i 0 s = ([], False, s)"
| "read_groups i (Suc n) s =
     (case (if n > 0 then read_separator CHR '':'' i read_ipv4_addr s else None) of
        Some ([a, b, c, d], rest) \<Rightarrow> ([a * 256 + b, c * 256 + d], True, rest)
      | _ \<Rightarrow>
          (case read_separator CHR '':'' i (read_number 16 65536 4 True) s of
             None \<Rightarrow> ([], False, s)
           | Some (g, rest) \<Rightarrow>
               (case read_groups (Suc i) n rest of (gs, v4, r) \<Rightarrow> (g # gs, v4, r))))"

definition read_ipv6_addr :: "nat list reader" where
  "read_ipv6_addr s =
     (case read_groups 0 8 s of
        (head, head_ipv4, rest) \<Rightarrow>
          if length head = 8 then Some (head, rest)
          else if head_ipv4 then None
          else Option.bind (read_given_char CHR '':'' rest) (\<lambda>(_, rest1).
               Option.bind (read_given_char CHR '':'' rest1) (\<lambda>(_, rest2).
               (case read_groups 0 (8 - (length head + 1)) rest2 of
                  (tail, _, rest3) \<Rightarrow> Some (head @ replicate (8 - length head - length tail) 0 @ tail, rest3)))))"

definition complete_parse :: "'a reader \<Rightarrow> string \<Rightarrow> 'a option" where
  "complete_parse r s = (case r s of Some (v, []) \<Rightarrow> Some v | _ \<Rightarrow> None)"

datatype ip_addr = V4 "nat list" | V6 "nat list"

definition parse_ipv6 :: "string \<Rightarrow> ip_addr option" where
  "parse_ipv6 s = map_option V6 (complete_parse read_ipv6_addr s)"

definition read_ip_addr :: "ip_addr reader" where
  "read_ip_addr s =
     (case read_ipv4_addr s of
        Some (v, rest) \<Rightarrow> Some (V4 v, rest)
      | None \<Rightarrow> map_option (\<lambda>(v, rest). (V6 v, rest)) (read_ipv6_addr s))"

definition parse_ip :: "string \<Rightarrow> ip_addr option" where
  "parse_ip s = complete_parse read_ip_addr s"

section \<open>Host names\<close>

definition is_digit :: "char \<Rightarrow> bool" where
  "is_digit c \<longleftrightarrow> (let n = of_char c :: nat in 48 \<le> n \<and> n \<le> 57)"

definition is_alphanumeric :: "char \<Rightarrow> bool" where
  "is_alphanumeric c \<longleftrightarrow> (let n = of_char c :: nat in (48 \<le> n \<and> n \<le> 57) \<or> (65 \<le> n \<and> n \<le> 90) \<or> (97 \<le> n \<and> n \<le> 122))"

text \<open>\<open>str::split\<close> at a byte.\<close>

fun split_on :: "char \<Rightarrow> string \<Rightarrow> string list" where
  "split_on sep [] = [[]]"
| "split_on sep (c # cs) =
     (if c = sep then [] # split_on sep cs
      else case split_on sep cs of p # ps \<Rightarrow> (c # p) # ps | [] \<Rightarrow> [[c]])"

definition valid_label :: "string \<Rightarrow> bool" where
  "valid_label label \<longleftrightarrow>
     label \<noteq> [] \<and> length label \<le> 63 \<and> is_alphanumeric (hd label) \<and> is_alphanumeric (last label) \<and>
     list_all (\<lambda>c. is_alphanumeric c \<or> c = CHR ''-'') label"

definition valid_name :: "string \<Rightarrow> bool" where
  "valid_name host \<longleftrightarrow>
     (let name = (if ends_with host ''.'' then butlast host else host) in
      name \<noteq> [] \<and> length name \<le> 253 \<and> \<not> list_all (\<lambda>c. is_digit c \<or> c = CHR ''.'') name \<and>
      list_all valid_label (split_on CHR ''.'' name))"

text \<open>What \<open>signaling_url\<close> makes of a host: an address, a name, or nothing.\<close>

datatype admitted_host = HostIp ip_addr | HostName

definition admit_host :: "string \<Rightarrow> admitted_host option" where
  "admit_host host =
     (if host = [] \<or> length host > 254 then None
      else if hd host = CHR ''[''
      then (let inner = tl host in
            if ends_with inner '']'' then map_option HostIp (parse_ipv6 (butlast inner)) else None)
      else case parse_ip host of
        Some ip \<Rightarrow> Some (HostIp ip)
      | None \<Rightarrow> if valid_name host then Some HostName else None)"

section \<open>What the readers consume\<close>

definition address_char :: "char \<Rightarrow> bool" where
  "address_char c \<longleftrightarrow> is_alphanumeric c \<or> c = CHR ''.'' \<or> c = CHR '':''"

definition consumes :: "string \<Rightarrow> string \<Rightarrow> bool" where
  "consumes s rest \<longleftrightarrow> (\<exists>pre. s = pre @ rest \<and> list_all address_char pre)"

lemma consumes_refl [simp]: "consumes s s"
  by (simp add: consumes_def)

lemma consumes_trans [trans]: "consumes s t \<Longrightarrow> consumes t u \<Longrightarrow> consumes s u"
  by (force simp: consumes_def)

lemma to_digit_alphanumeric: "to_digit radix c = Some d \<Longrightarrow> is_alphanumeric c"
  by (auto simp: to_digit_def is_alphanumeric_def Let_def split: if_splits)

lemma read_number_consumes: "read_number radix bound m z s = Some (v, rest) \<Longrightarrow> consumes s rest"
proof -
  assume "read_number radix bound m z s = Some (v, rest)"
  then have rest: "rest = drop (length (digits_of radix s)) s"
    by (auto simp: read_number_def Let_def split: if_splits)
  have "list_all address_char (digits_of radix s)"
    by (auto simp: digits_of_def list_all_iff address_char_def dest!: set_takeWhileD dest: to_digit_alphanumeric)
  moreover have "s = digits_of radix s @ rest"
    unfolding rest digits_of_def by (metis dropWhile_eq_drop takeWhile_dropWhile_id)
  ultimately show ?thesis unfolding consumes_def by blast
qed

lemma read_given_consumes: "read_given_char c s = Some (u, rest) \<Longrightarrow> address_char c \<Longrightarrow> consumes s rest"
  by (auto simp: read_given_char_def consumes_def split: list.splits if_splits)

lemma separator_chars [simp]: "address_char CHR ''.''" "address_char CHR '':''"
  by (simp_all add: address_char_def)

lemma read_separator_consumes:
  assumes "read_separator sep i inner s = Some (v, rest)" "address_char sep"
    and "\<And>s v rest. inner s = Some (v, rest) \<Longrightarrow> consumes s rest"
  shows "consumes s rest"
  using assms(1) by (auto simp: read_separator_def bind_eq_Some_conv split: if_splits
      dest!: assms(3) read_given_consumes [OF _ assms(2)] intro: consumes_trans)

lemma sep_number_consumes:
  "read_separator sep i (read_number radix bound m z) s = Some (v, rest) \<Longrightarrow> address_char sep \<Longrightarrow> consumes s rest"
  by (rule read_separator_consumes [where inner = "read_number radix bound m z"]) (auto intro: read_number_consumes)

lemma read_octets_consumes: "read_octets i n s = Some (vs, rest) \<Longrightarrow> consumes s rest \<and> length vs = n"
proof (induction n arbitrary: i s vs rest)
  case (Suc n)
  then obtain v r vs' where "read_separator CHR ''.'' i (read_number 10 256 3 False) s = Some (v, r)"
    "read_octets (Suc i) n r = Some (vs', rest)" "vs = v # vs'"
    by (auto simp: bind_eq_Some_conv)
  with Suc.IH [of "Suc i" r vs' rest] show ?case by (auto dest!: sep_number_consumes intro: consumes_trans)
qed simp

lemma read_ipv4_consumes: "read_ipv4_addr s = Some (v, rest) \<Longrightarrow> consumes s rest"
  by (simp add: read_ipv4_addr_def read_octets_consumes)

lemma read_groups_consumes: "read_groups i n s = (gs, v4, rest) \<Longrightarrow> consumes s rest \<and> length gs \<le> n"
proof (induction n arbitrary: i s gs v4 rest)
  case (Suc n)
  define embedded where "embedded = (if n > 0 then read_separator CHR '':'' i read_ipv4_addr s else None)"
  have embedded_consumes: "consumes s r" if "embedded = Some (v, r)" for v r
    using that unfolding embedded_def
    by (auto split: if_splits intro: read_separator_consumes [where inner = read_ipv4_addr] read_ipv4_consumes)
  have embedded_small: "n > 0" if "embedded = Some p" for p
    using that by (simp add: embedded_def split: if_splits)
  show ?case
  proof (cases "\<exists>a b c d r. embedded = Some ([a, b, c, d], r)")
    case True
    with Suc.prems embedded_consumes embedded_small show ?thesis
      by (auto simp: embedded_def [symmetric])
  next
    case False
    then have eq: "read_groups i (Suc n) s =
       (case read_separator CHR '':'' i (read_number 16 65536 4 True) s of
          None \<Rightarrow> ([], False, s)
        | Some (g, r) \<Rightarrow> (case read_groups (Suc i) n r of (gs, v4, r') \<Rightarrow> (g # gs, v4, r')))"
      unfolding read_groups.simps embedded_def [symmetric] by (auto split: option.split list.split)
    show ?thesis
    proof (cases "read_separator CHR '':'' i (read_number 16 65536 4 True) s")
      case None
      with eq Suc.prems show ?thesis by simp
    next
      case (Some p)
      obtain g r where p: "p = (g, r)" by (cases p)
      obtain gs' v' r' where rec: "read_groups (Suc i) n r = (gs', v', r')" by (cases "read_groups (Suc i) n r")
      have "consumes s r" using Some p by (auto dest: sep_number_consumes)
      with Suc.IH [OF rec] Suc.prems eq Some p rec show ?thesis by (auto intro: consumes_trans)
    qed
  qed
qed simp

lemma read_ipv6_consumes: "read_ipv6_addr s = Some (v, rest) \<Longrightarrow> consumes s rest \<and> length v = 8"
proof -
  assume res: "read_ipv6_addr s = Some (v, rest)"
  obtain head v4 r where head: "read_groups 0 8 s = (head, v4, r)" by (cases "read_groups 0 8 s")
  have front: "consumes s r" "length head \<le> 8" using read_groups_consumes [OF head] by simp_all
  show ?thesis
  proof (cases "length head = 8")
    case True
    with res head front show ?thesis by (simp add: read_ipv6_addr_def)
  next
    case False
    then obtain r1 r2 where colons: "read_given_char CHR '':'' r = Some ((), r1)" "read_given_char CHR '':'' r1 = Some ((), r2)"
      using res head by (auto simp: read_ipv6_addr_def bind_eq_Some_conv split: if_splits)
    obtain tail w r3 where tail3: "read_groups 0 (8 - (length head + 1)) r2 = (tail, w, r3)"
      by (cases "read_groups 0 (8 - (length head + 1)) r2")
    then have tail: "read_groups 0 (8 - (length head + 1)) r2 = (tail, w, rest)"
      and v: "v = head @ replicate (8 - length head - length tail) 0 @ tail"
      using res head False colons by (auto simp: read_ipv6_addr_def split: if_splits)
    have "consumes s rest"
      using front(1) colons read_groups_consumes [OF tail] by (meson consumes_trans read_given_consumes separator_chars(2))
    with v front(2) False read_groups_consumes [OF tail] show ?thesis by auto
  qed
qed

lemma parse_ip_chars: "parse_ip s = Some ip \<Longrightarrow> list_all address_char s"
  by (auto simp: parse_ip_def complete_parse_def read_ip_addr_def consumes_def dest!: read_ipv4_consumes read_ipv6_consumes
      split: option.splits list.splits)

lemma parse_ipv6_chars: "parse_ipv6 s = Some ip \<Longrightarrow> list_all address_char s"
  by (auto simp: parse_ipv6_def complete_parse_def consumes_def dest!: read_ipv6_consumes split: option.splits list.splits)

lemma ends_with_single: "ends_with s [c] \<Longrightarrow> s = butlast s @ [c]"
  unfolding ends_with_def by (cases s rule: rev_cases) auto

lemma split_on_chars: "c \<in> set s \<Longrightarrow> c = sep \<or> (\<exists>p\<in>set (split_on sep s). c \<in> set p)"
proof (induction s)
  case (Cons x xs)
  then show ?case by (cases "split_on sep xs") auto
qed simp

lemma valid_name_chars: "valid_name host \<Longrightarrow> list_all (\<lambda>c. is_alphanumeric c \<or> c = CHR ''-'' \<or> c = CHR ''.'') host"
proof -
  assume valid: "valid_name host"
  define name where "name = (if ends_with host ''.'' then butlast host else host)"
  have labels: "list_all valid_label (split_on CHR ''.'' name)" using valid by (simp add: valid_name_def name_def Let_def)
  have "is_alphanumeric c \<or> c = CHR ''-'' \<or> c = CHR ''.''" if "c \<in> set name" for c
    using split_on_chars [OF that, of "CHR ''.''"] labels by (auto simp: list_all_iff valid_label_def)
  moreover have "set host \<subseteq> set name \<union> {CHR ''.''}"
  proof (cases "ends_with host ''.''")
    case True
    then have "host = butlast host @ [CHR ''.'']" by (rule ends_with_single)
    then have "set host = set (butlast host) \<union> {CHR ''.''}" by (metis Un_insert_right list.set(1) list.set(2) set_append sup_bot_right)
    then show ?thesis using True by (simp add: name_def)
  qed (auto simp: name_def)
  ultimately show ?thesis by (fastforce simp: list_all_iff)
qed

text \<open>An admitted host is made of host characters only, so that it cannot smuggle a user, a port, a path,
  a query or a fragment into the URL.\<close>

lemma admit_host_chars:
  assumes "admit_host host = Some a"
  shows "length host \<le> 254 \<and> (\<exists>inner. (host = inner \<or> host = ''['' @ inner @ '']'') \<and>
    list_all (\<lambda>c. is_alphanumeric c \<or> c \<in> {CHR ''-'', CHR ''.'', CHR '':''}) inner)"
proof -
  have len: "host \<noteq> []" "length host \<le> 254" using assms by (auto simp: admit_host_def split: if_splits)
  show ?thesis
  proof (cases "hd host = CHR ''[''")
    case True
    then obtain ip where close: "ends_with (tl host) '']''" and ip: "parse_ipv6 (butlast (tl host)) = Some ip"
      using assms len by (auto simp: admit_host_def Let_def split: if_splits)
    have "tl host = butlast (tl host) @ '']''"
      using close by (rule ends_with_single)
    then have "host = ''['' @ butlast (tl host) @ '']''" using True len by (cases host) auto
    moreover have "list_all (\<lambda>c. is_alphanumeric c \<or> c \<in> {CHR ''-'', CHR ''.'', CHR '':''}) (butlast (tl host))"
      using parse_ipv6_chars [OF ip] by (auto simp: list_all_iff address_char_def)
    ultimately show ?thesis using len by blast
  next
    case False
    then have "list_all (\<lambda>c. is_alphanumeric c \<or> c \<in> {CHR ''-'', CHR ''.'', CHR '':''}) host"
      using assms len
      by (auto simp: admit_host_def list_all_iff address_char_def split: option.splits if_splits
          dest!: parse_ip_chars valid_name_chars)
    with len show ?thesis by blast
  qed
qed

end
