(* ===== verification/Signaling.thy ===== *)
theory Signaling
  imports Host_Name Security
begin

text \<open>
  \<open>src/src/infrastructure/signaling_http.rs\<close>: the exchange of session descriptions with the robot over
  HTTP, with the legacy method first and the encrypted method as the fallback. The URL crate, the
  HTTP client, the JSON codec and the ciphers are third-party code: they are arguments, and the
  client answers as a function of all the requests sent before. What the operations send is
  returned with their result.
\<close>

definition SIGNALING_BODY_LIMIT :: nat where [policy_defs]: "SIGNALING_BODY_LIMIT = 1024 * 1024"

record 'u url_lib =
  ul_parse :: "string \<Rightarrow> 'u option"
  ul_set_ip_host :: "ip_addr \<Rightarrow> 'u \<Rightarrow> 'u option"
  ul_set_host :: "string \<Rightarrow> 'u \<Rightarrow> 'u option"
  ul_host_str :: "'u \<Rightarrow> string option"
  ul_set_port :: "u16 \<Rightarrow> 'u \<Rightarrow> 'u option"
  ul_set_path :: "string \<Rightarrow> 'u \<Rightarrow> 'u"

definition invalid_host :: string where
  "invalid_host = ''Invalid signaling host: expected only an IP address or hostname''"

definition lower :: "char \<Rightarrow> char" where
  "lower c = (let n = of_char c :: nat in if 65 \<le> n \<and> n \<le> 90 then char_of (n + 32) else c)"

definition eq_ignore_ascii_case :: "string \<Rightarrow> string \<Rightarrow> bool" where
  "eq_ignore_ascii_case a b \<longleftrightarrow> map lower a = map lower b"

definition set_admitted :: "'u url_lib \<Rightarrow> string \<Rightarrow> admitted_host \<Rightarrow> 'u \<Rightarrow> 'u option" where
  "set_admitted L host a url =
     (case a of
        HostIp ip \<Rightarrow> ul_set_ip_host L ip url
      | HostName \<Rightarrow>
          (case ul_set_host L host url of
             None \<Rightarrow> None
           | Some url' \<Rightarrow>
               (case ul_host_str L url' of
                  Some parsed \<Rightarrow> if eq_ignore_ascii_case parsed host then Some url' else None
                | None \<Rightarrow> None)))"

definition signaling_url :: "'u url_lib \<Rightarrow> string \<Rightarrow> u16 \<Rightarrow> string \<Rightarrow> string + 'u" where
  "signaling_url L host port path =
     (case admit_host host of
        None \<Rightarrow> Inl invalid_host
      | Some a \<Rightarrow>
          (case Option.bind (Option.bind (ul_parse L ''http://localhost/'') (set_admitted L host a)) (ul_set_port L port) of
             None \<Rightarrow> Inl invalid_host
           | Some url \<Rightarrow> Inr (ul_set_path L path url)))"

section \<open>The HTTP client\<close>

record request_error =
  er_timeout :: bool
  er_connect :: bool
  er_body :: bool
  er_decode :: bool

record http_response =
  hr_success :: bool
  hr_status :: string
  hr_content_length :: "nat option"
  hr_chunks :: "(request_error + bytes) list"

record 'u http_request =
  rq_url :: 'u
  rq_content_type :: "string option"
  rq_body :: string

record ('u, 'k) signaling_env =
  se_urls :: "'u url_lib"
  se_client :: bool \<comment> \<open>whether the client can be built\<close>
  se_answer :: "'u http_request list \<Rightarrow> 'u http_request \<Rightarrow> request_error + http_response"
  se_crypto :: "'k crypto"
  se_from_str :: "string \<Rightarrow> json option"
  se_to_string :: "json \<Rightarrow> string"
  se_aes_key :: string \<comment> \<open>the key \<open>generate_aes_key\<close> draws\<close>

definition signaling_error :: "string \<Rightarrow> request_error \<Rightarrow> string" where
  "signaling_error prefix e =
     prefix @ '': '' @
     (if er_timeout e then ''timeout'' else if er_connect e then ''connect'' else if er_body e then ''body''
      else if er_decode e then ''decode'' else ''request'')"

definition body_limit_error :: string where
  "body_limit_error = ''Signaling response body exceeds 1 MiB''"

fun read_chunks :: "bytes \<Rightarrow> (request_error + bytes) list \<Rightarrow> string + bytes" where
  "read_chunks bs [] = Inr bs"
| "read_chunks bs (Inl e # rest) = Inl (signaling_error ''Signaling response read failed'' e)"
| "read_chunks bs (Inr chunk # rest) =
     (if length chunk > SIGNALING_BODY_LIMIT - length bs then Inl body_limit_error
      else read_chunks (bs @ chunk) rest)"

definition read_response :: "http_response \<Rightarrow> string + string" where
  "read_response r =
     (if (case hr_content_length r of Some n \<Rightarrow> n > SIGNALING_BODY_LIMIT | None \<Rightarrow> False) then Inl body_limit_error
      else and_then (read_chunks [] (hr_chunks r)) (from_utf8 (\<lambda>_. ''Signaling response is not UTF-8'')))"

text \<open>Requests in sequence: the history grows with every request.\<close>

definition chain :: "(string + 'a) \<times> 'h \<Rightarrow> ('a \<Rightarrow> 'h \<Rightarrow> (string + 'b) \<times> 'h) \<Rightarrow> (string + 'b) \<times> 'h" where
  "chain p f = (case p of (Inl e, h) \<Rightarrow> (Inl e, h) | (Inr x, h) \<Rightarrow> f x h)"

definition http_post ::
  "('u, 'k) signaling_env \<Rightarrow> string \<Rightarrow> 'u http_request \<Rightarrow> 'u http_request list \<Rightarrow> (string + string) \<times> 'u http_request list" where
  "http_post E failure rq h =
     (case se_answer E h rq of
        Inl e \<Rightarrow> (Inl (signaling_error ''Signaling request failed'' e), h @ [rq])
      | Inr response \<Rightarrow>
          (if hr_success response then read_response response else Inl (failure @ hr_status response), h @ [rq]))"

definition signaling_client :: "('u, 'k) signaling_env \<Rightarrow> string + unit" where
  "signaling_client E = (if se_client E then Inr () else Inl ''Signaling HTTP client initialization failed'')"

section \<open>The legacy method\<close>

definition send_sdp_local_old ::
  "('u, 'k) signaling_env \<Rightarrow> string \<Rightarrow> string \<Rightarrow> 'u http_request list \<Rightarrow> (string + string) \<times> 'u http_request list" where
  "send_sdp_local_old E ip sdp_json h =
     chain (signaling_url (se_urls E) ip 8081 ''/offer'', h) (\<lambda>url h.
     chain (signaling_client E, h) (\<lambda>_ h.
     http_post E ''Failed to receive SDP answer from old method: ''
       \<lparr>rq_url = url, rq_content_type = Some ''application/json'', rq_body = sdp_json\<rparr> h))"

section \<open>The encrypted method\<close>

definition is_cont_char :: "char \<Rightarrow> bool" where
  "is_cont_char c \<longleftrightarrow> utf8_cont (of_nat (of_char c))"

text \<open>\<open>chars()\<close> of a string, each as its bytes.\<close>

function utf8_chars :: "string \<Rightarrow> string list" where
  "utf8_chars [] = []"
| "utf8_chars (c # cs) = (c # takeWhile is_cont_char cs) # utf8_chars (dropWhile is_cont_char cs)"
  by pat_completeness auto
termination
  by (relation "measure length") (auto simp: less_Suc_eq_le length_dropWhile_le)

definition is_char_boundary :: "string \<Rightarrow> nat \<Rightarrow> bool" where
  "is_char_boundary s i \<longleftrightarrow> i = 0 \<or> i = length s \<or> (i < length s \<and> \<not> is_cont_char (s ! i))"

definition normalize_optional_key :: "string option \<Rightarrow> string option" where
  "normalize_optional_key key = (case map_option trim key of Some v \<Rightarrow> if v = [] then None else Some v | None \<Rightarrow> None)"

definition decode_con_notify_data1 :: "'k crypto \<Rightarrow> json \<Rightarrow> string option \<Rightarrow> string + string" where
  "decode_con_notify_data1 C decoded_json aes_128_key =
     (case Option.bind (jget ''data1'' decoded_json) as_str of
        None \<Rightarrow> Inl ''con_notify data1 field missing''
      | Some data1 \<Rightarrow>
          and_then (case jget ''data2'' decoded_json of
                      Some v \<Rightarrow> (case as_i64 v of Some n \<Rightarrow> Inr n | None \<Rightarrow> Inl ''con_notify data2 must be an integer'')
                    | None \<Rightarrow> Inr 0)
            (\<lambda>data2.
               if data2 = 0 then Inr data1
               else if data2 = 2 then decrypt_con_notify_data C data1
               else if data2 = 3 then
                 (case normalize_optional_key aes_128_key of
                    None \<Rightarrow> Inl ''con_notify data2=3 requires aes_128_key or GO2_DORA_UNITREE_AES_128_KEY''
                  | Some key \<Rightarrow> decrypt_con_notify_data_with_aes_128_key C data1 key)
               else Inl (''unsupported con_notify data2 auth mode: '' @ show_int data2)))"

definition con_notify_public_key :: "string \<Rightarrow> string + string" where
  "con_notify_public_key data1 =
     (if length data1 < 20 then Inl ''con_notify data1 is too short''
      else if is_char_boundary data1 10 \<and> is_char_boundary data1 (length data1 - 10)
      then Inr (take (length data1 - 20) (drop 10 data1))
      else Inl ''con_notify data1 wrapper has invalid UTF-8 boundaries'')"

definition path_symbols :: "string list" where
  "path_symbols = [''A'', ''B'', ''C'', ''D'', ''E'', ''F'', ''G'', ''H'', ''I'', ''J'']"

fun position :: "nat \<Rightarrow> 'a list \<Rightarrow> 'a \<Rightarrow> nat option" where
  "position i [] x = None"
| "position i (y # ys) x = (if y = x then Some i else position (Suc i) ys x)"

definition pair_digit :: "string list \<Rightarrow> string" where
  "pair_digit pair =
     (if length pair < 2 then []
      else case position 0 path_symbols (pair ! 1) of Some index \<Rightarrow> show_nat index | None \<Rightarrow> [])"

definition calc_local_path_ending :: "string \<Rightarrow> string" where
  "calc_local_path_ending data1 =
     (let cs = utf8_chars data1 in
      if length cs < 10 then []
      else concat (map pair_digit (chunks 2 (drop (length cs - 10) cs))))"

definition con_ing_body :: "('u, 'k) signaling_env \<Rightarrow> string \<Rightarrow> 'k \<Rightarrow> string + string" where
  "con_ing_body E sdp_json public_key =
     and_then (aes_ecb_encrypt (se_crypto E) sdp_json (se_aes_key E)) (\<lambda>data1.
     and_then (rsa_encrypt (se_crypto E) (se_aes_key E) public_key) (\<lambda>data2.
     Inr (se_to_string E (jobject [(''data1'', JString data1), (''data2'', JString data2)]))))"

definition decode_notify :: "('u, 'k) signaling_env \<Rightarrow> string \<Rightarrow> string option \<Rightarrow> string + string" where
  "decode_notify E encoded_payload aes_128_key =
     and_then (map_err (\<lambda>_. ''Invalid con_notify base64'') (b64_decode (se_crypto E) encoded_payload)) (\<lambda>payload.
     and_then (from_utf8 (\<lambda>_. ''Invalid con_notify UTF-8'') payload) (\<lambda>txt.
     (case se_from_str E txt of
        None \<Rightarrow> Inl ''Invalid con_notify JSON''
      | Some v \<Rightarrow> decode_con_notify_data1 (se_crypto E) v aes_128_key)))"

definition send_sdp_local_new_with_aes_key ::
  "('u, 'k) signaling_env \<Rightarrow> string \<Rightarrow> string \<Rightarrow> string option \<Rightarrow> 'u http_request list \<Rightarrow> (string + string) \<times> 'u http_request list" where
  "send_sdp_local_new_with_aes_key E ip sdp_json aes_128_key h =
     chain (signaling_url (se_urls E) ip 9991 ''/con_notify'', h) (\<lambda>notify_url h.
     chain (signaling_client E, h) (\<lambda>_ h.
     chain (http_post E ''Failed to receive con_notify response: ''
              \<lparr>rq_url = notify_url, rq_content_type = None, rq_body = []\<rparr> h) (\<lambda>encoded_payload h.
     chain (decode_notify E encoded_payload aes_128_key, h) (\<lambda>data1 h.
     chain (con_notify_public_key data1, h) (\<lambda>public_key_pem h.
     chain (rsa_load_public_key (se_crypto E) public_key_pem, h) (\<lambda>public_key h.
     chain (con_ing_body E sdp_json public_key, h) (\<lambda>body h.
     chain (signaling_url (se_urls E) ip 9991 (''/con_ing_'' @ calc_local_path_ending data1), h) (\<lambda>ingest_url h.
     chain (http_post E ''Failed to receive con_ing response: ''
              \<lparr>rq_url = ingest_url, rq_content_type = Some ''application/x-www-form-urlencoded'', rq_body = body\<rparr> h)
       (\<lambda>encrypted_answer h. (aes_ecb_decrypt (se_crypto E) encrypted_answer (se_aes_key E), h))))))))))"

definition send_sdp_local_new ::
  "('u, 'k) signaling_env \<Rightarrow> string \<Rightarrow> string \<Rightarrow> 'u http_request list \<Rightarrow> (string + string) \<times> 'u http_request list" where
  "send_sdp_local_new E ip sdp_json h = send_sdp_local_new_with_aes_key E ip sdp_json None h"

definition send_sdp_local_with_aes_key ::
  "('u, 'k) signaling_env \<Rightarrow> string \<Rightarrow> string \<Rightarrow> string option \<Rightarrow> 'u http_request list \<Rightarrow> (string + string) \<times> 'u http_request list" where
  "send_sdp_local_with_aes_key E ip sdp_json aes_128_key h =
     (case send_sdp_local_old E ip sdp_json h of
        (Inr answer, h1) \<Rightarrow> (Inr answer, h1)
      | (Inl legacy_error, h1) \<Rightarrow>
          (case send_sdp_local_new_with_aes_key E ip sdp_json aes_128_key h1 of
             (Inr answer, h2) \<Rightarrow> (Inr answer, h2)
           | (Inl new_error, h2) \<Rightarrow>
               (Inl (''legacy offer failed ('' @ legacy_error @ ''); con_notify offer failed ('' @ new_error @ '')''), h2)))"

definition send_sdp_local ::
  "('u, 'k) signaling_env \<Rightarrow> string \<Rightarrow> string \<Rightarrow> 'u http_request list \<Rightarrow> (string + string) \<times> 'u http_request list" where
  "send_sdp_local E ip sdp_json h = send_sdp_local_with_aes_key E ip sdp_json None h"

definition send_sdp_remote :: "string \<Rightarrow> string \<Rightarrow> string + string" where
  "send_sdp_remote serial sdp_json = Inl ''Remote signaling is not implemented in phase 1''"

text \<open>\<open>HttpSignalingClient\<close>: its key is normalised when it is made; \<open>exchange_sdp\<close> uses it.\<close>

record http_signaling_client =
  sc_aes_128_key :: "string option"

definition http_signaling_new :: "string option \<Rightarrow> http_signaling_client" where
  "http_signaling_new aes_128_key = \<lparr>sc_aes_128_key = normalize_optional_key aes_128_key\<rparr>"

definition exchange_sdp ::
  "('u, 'k) signaling_env \<Rightarrow> http_signaling_client \<Rightarrow> string \<Rightarrow> string \<Rightarrow> 'u http_request list \<Rightarrow> (string + string) \<times> 'u http_request list" where
  "exchange_sdp E c ip offer h = send_sdp_local_with_aes_key E ip offer (sc_aes_128_key c) h"

section \<open>Lemmas\<close>

lemma chain_simps [simp]: "chain (Inl e, h) f = (Inl e, h)" "chain (Inr x, h) f = f x h"
  by (simp_all add: chain_def)

lemma signaling_url_admitted: "signaling_url L host port path = Inr url \<Longrightarrow> \<exists>a. admit_host host = Some a"
  by (auto simp: signaling_url_def split: option.splits)

lemma signaling_url_rejected: "admit_host host = None \<Longrightarrow> signaling_url L host port path = Inl invalid_host"
  by (simp add: signaling_url_def)

lemma read_chunks_exact:
  assumes "length bs \<le> SIGNALING_BODY_LIMIT"
  shows "read_chunks bs cs = Inr out \<longleftrightarrow>
    (\<exists>ds. cs = map Inr ds \<and> out = bs @ concat ds \<and> length out \<le> SIGNALING_BODY_LIMIT)"
  using assms
proof (induction bs cs rule: read_chunks.induct)
  case (2 bs e rest)
  then show ?case by (auto simp: Cons_eq_map_conv)
next
  case (3 bs chunk rest)
  show ?case
  proof (cases "length chunk > SIGNALING_BODY_LIMIT - length bs")
    case True
    then show ?thesis using 3(2) by (auto simp: Cons_eq_map_conv)
  next
    case False
    with 3 have "length (bs @ chunk) \<le> SIGNALING_BODY_LIMIT" by simp
    with 3(1) [OF False] False show ?thesis by (auto simp: Cons_eq_map_conv)
  qed
qed auto

text \<open>
  The response body: it is returned exactly when no announced length exceeds 1 MiB, the
  stream ends without an error, the bytes received amount to at most 1 MiB and are valid UTF-8; then
  it is their concatenation.
\<close>

theorem read_response_exact:
  "read_response r = Inr body \<longleftrightarrow>
     (\<forall>n. hr_content_length r = Some n \<longrightarrow> n \<le> 1048576) \<and>
     (\<exists>ds. hr_chunks r = map Inr ds \<and> concat ds = str_bytes body \<and> length body \<le> 1048576 \<and> utf8_valid (concat ds))"
proof -
  have utf8: "from_utf8 E bs = Inr body \<longleftrightarrow> bs = str_bytes body \<and> utf8_valid bs" for E bs
    by (auto simp: from_utf8_def)
  have chunks: "read_chunks [] cs = Inr out \<longleftrightarrow> (\<exists>ds. cs = map Inr ds \<and> out = concat ds \<and> length out \<le> 1048576)" for cs out
    using read_chunks_exact [of "[]" cs out] by (simp add: policy_defs)
  show ?thesis
    by (auto simp: read_response_def and_then_Inr_iff chunks utf8 policy_defs not_less split: option.splits)
qed

definition reply0 :: http_response where
  "reply0 = \<lparr>hr_success = True, hr_status = ''200 OK'', hr_content_length = Some 2, hr_chunks = [Inr [104], Inr [105]]\<rparr>"

theorem read_response_exact_witness: "read_response reply0 = Inr ''hi''"
proof -
  have "hr_chunks reply0 = map Inr [[104], [105]]" by (simp add: reply0_def)
  then show ?thesis
    using read_response_exact [of reply0 "''hi''"] by (auto simp: reply0_def str_bytes_def intro!: exI [of _ "[[104], [105]]"])
qed

definition host_char :: "char \<Rightarrow> bool" where
  "host_char c \<longleftrightarrow> is_alphanumeric c \<or> c \<in> {CHR ''-'', CHR ''.'', CHR '':'', CHR ''['', CHR '']''}"

lemma foreign_char_rejected: "c \<in> set host \<Longrightarrow> \<not> host_char c \<Longrightarrow> admit_host host = None"
proof (rule ccontr)
  assume c: "c \<in> set host" "\<not> host_char c" and "admit_host host \<noteq> None"
  then obtain a where "admit_host host = Some a" by blast
  from admit_host_chars [OF this] c show False by (auto simp: list_all_iff host_char_def)
qed

text \<open>
  A host may only be a host: if it holds any byte other than letters, digits, hyphen,
  dot, colon and brackets (so any user, path, query, fragment, escape or white space), the exchange
  fails with the host error for both methods, and not a single request is sent.
\<close>

theorem signaling_host_only:
  assumes "c \<in> set host" and "\<not> host_char c"
  shows "exchange_sdp E client host offer h =
    (Inl (''legacy offer failed ('' @ invalid_host @ ''); con_notify offer failed ('' @ invalid_host @ '')''), h)"
  by (simp add: signaling_url_rejected [OF foreign_char_rejected [OF assms]] exchange_sdp_def send_sdp_local_with_aes_key_def send_sdp_local_old_def send_sdp_local_new_with_aes_key_def)

lemma position_bound: "position i ys x = Some j \<Longrightarrow> i \<le> j \<and> j < i + length ys"
  by (induction i ys x rule: position.induct) (auto split: if_splits)

lemma pair_digit_digits: "length (pair_digit pair) \<le> 1 \<and> list_all is_digit (pair_digit pair)"
proof (cases "length pair < 2 \<or> position 0 path_symbols (pair ! 1) = None")
  case False
  then obtain j where j: "position 0 path_symbols (pair ! 1) = Some j" by auto
  then have "j < 10" using position_bound [OF j] by (simp add: path_symbols_def)
  then have "pair_digit pair = [digit_char j]" using False j by (simp add: pair_digit_def show_nat.simps [of j])
  moreover have "is_digit (digit_char j)" using \<open>j < 10\<close> by (simp add: is_digit_def digit_char_def)
  ultimately show ?thesis by simp
qed (auto simp: pair_digit_def)

lemma length_chunks: "0 < n \<Longrightarrow> length (chunks n xs) * n < length xs + n"
proof (induction n xs rule: chunks.induct)
  case (1 n xs)
  then show ?case by (cases "n \<le> length xs") (auto simp: chunks.simps [of n xs])
qed

lemma path_ending_digits: "length (calc_local_path_ending d) \<le> 5 \<and> list_all is_digit (calc_local_path_ending d)"
proof -
  have "length (concat (map pair_digit ps)) \<le> length ps \<and> list_all is_digit (concat (map pair_digit ps))" for ps
  proof (induction ps)
    case (Cons p ps)
    with pair_digit_digits [of p] show ?case by simp
  qed simp
  from this [of "chunks 2 (drop (length (utf8_chars d) - 10) (utf8_chars d))"] show ?thesis
    using length_chunks [of 2 "drop (length (utf8_chars d) - 10) (utf8_chars d)"]
    by (auto simp: calc_local_path_ending_def Let_def)
qed

text \<open>What an operation sends: at most \<open>n\<close> further requests, all of them allowed.\<close>

definition confined :: "('r \<Rightarrow> bool) \<Rightarrow> nat \<Rightarrow> 'r list \<Rightarrow> 'a \<times> 'r list \<Rightarrow> bool" where
  "confined Q n h p \<longleftrightarrow> (\<exists>rs. snd p = h @ rs \<and> length rs \<le> n \<and> list_all Q rs)"

lemma confined_pure: "confined Q n h (r, h)"
  by (simp add: confined_def)

lemma confined_chain: "(\<And>x. r = Inr x \<Longrightarrow> confined Q n h (f x h)) \<Longrightarrow> confined Q n h (chain (r, h) f)"
  by (cases r) (simp_all add: confined_pure)

lemma http_post_history: "snd (http_post E m rq h) = h @ [rq]"
  by (simp add: http_post_def split: sum.split)

lemma confined_post: "Q rq \<Longrightarrow> confined Q (Suc n) h (http_post E m rq h)"
  by (simp add: confined_def http_post_history)

lemma confined_chain_post:
  assumes "Q rq" and "\<And>x. confined Q n (h @ [rq]) (f x (h @ [rq]))"
  shows "confined Q (Suc n) h (chain (http_post E m rq h) f)"
proof -
  obtain r where r: "http_post E m rq h = (r, h @ [rq])" using http_post_history [of E m rq h] by (metis prod.collapse)
  have "\<exists>rs. h' = h @ rs \<and> length rs \<le> Suc n \<and> list_all Q rs" if "confined Q n (h @ [rq]) (y, h')" for y and h'
    using that assms(1) by (auto simp: confined_def)
  with assms show ?thesis
    by (cases r) (auto simp: r confined_def)
qed

definition allowed_request :: "('u, 'k) signaling_env \<Rightarrow> string \<Rightarrow> string \<Rightarrow> 'u http_request \<Rightarrow> bool" where
  "allowed_request E ip offer rq \<longleftrightarrow>
     (signaling_url (se_urls E) ip 8081 ''/offer'' = Inr (rq_url rq) \<and> rq_body rq = offer) \<or>
     (signaling_url (se_urls E) ip 9991 ''/con_notify'' = Inr (rq_url rq) \<and> rq_body rq = []) \<or>
     (\<exists>digits k. length digits \<le> 5 \<and> list_all is_digit digits \<and>
        signaling_url (se_urls E) ip 9991 (''/con_ing_'' @ digits) = Inr (rq_url rq) \<and>
        con_ing_body E offer k = Inr (rq_body rq))"

lemma old_confined: "confined (allowed_request E ip offer) 1 h (send_sdp_local_old E ip offer h)"
  unfolding send_sdp_local_old_def One_nat_def
  by (intro confined_chain confined_post) (simp add: allowed_request_def)

lemma new_confined: "confined (allowed_request E ip offer) 2 h (send_sdp_local_new_with_aes_key E ip offer key h)"
  unfolding send_sdp_local_new_with_aes_key_def numeral_2_eq_2
proof (intro confined_chain confined_chain_post confined_pure)
  fix url
  assume "signaling_url (se_urls E) ip 9991 ''/con_notify'' = Inr url"
  then show "allowed_request E ip offer \<lparr>rq_url = url, rq_content_type = None, rq_body = []\<rparr>"
    by (simp add: allowed_request_def)
next
  fix data1 k body url
  assume "con_ing_body E offer k = Inr body"
    "signaling_url (se_urls E) ip 9991 (''/con_ing_'' @ calc_local_path_ending data1) = Inr url"
  then show "allowed_request E ip offer
      \<lparr>rq_url = url, rq_content_type = Some ''application/x-www-form-urlencoded'', rq_body = body\<rparr>"
    using path_ending_digits [of data1] unfolding allowed_request_def by auto
qed

text \<open>
  Property C31. Whatever the peer answers, an exchange sends at most three requests, all to the given
  host: the offer to \<open>/offer\<close> on port 8081, an empty request to \<open>/con_notify\<close> on port 9991, and the
  encrypted offer to \<open>/con_ing_\<close> with at most five decimal digits on port 9991. If the legacy method
  succeeds, only the first is sent.
\<close>

theorem signaling_requests_confined:
  assumes "exchange_sdp E client ip offer h = (result, h')"
  shows "\<exists>rs. h' = h @ rs \<and> length rs \<le> 3 \<and> list_all (allowed_request E ip offer) rs \<and>
    (\<forall>answer. fst (send_sdp_local_old E ip offer h) = Inr answer \<longrightarrow> result = Inr answer \<and> length rs \<le> 1)"
proof -
  obtain r1 h1 where old: "send_sdp_local_old E ip offer h = (r1, h1)" by (cases "send_sdp_local_old E ip offer h")
  obtain r2 h2 where new: "send_sdp_local_new_with_aes_key E ip offer (sc_aes_128_key client) h1 = (r2, h2)"
    by (cases "send_sdp_local_new_with_aes_key E ip offer (sc_aes_128_key client) h1")
  obtain rs1 where rs1: "h1 = h @ rs1" "length rs1 \<le> 1" "list_all (allowed_request E ip offer) rs1"
    using old_confined [of E ip offer h] by (auto simp: confined_def old)
  obtain rs2 where rs2: "h2 = h1 @ rs2" "length rs2 \<le> 2" "list_all (allowed_request E ip offer) rs2"
    using new_confined [of E ip offer h1 "sc_aes_128_key client"] by (auto simp: confined_def new)
  show ?thesis
  proof (cases r1)
    case (Inl e)
    with assms old new have "h' = h2"
      by (auto simp: exchange_sdp_def send_sdp_local_with_aes_key_def split: sum.splits)
    with rs1 rs2 Inl old show ?thesis by (intro exI [of _ "rs1 @ rs2"]) simp
  next
    case (Inr answer)
    with assms old have "h' = h1" "result = Inr answer"
      by (auto simp: exchange_sdp_def send_sdp_local_with_aes_key_def)
    with rs1 Inr old show ?thesis by (intro exI [of _ rs1]) simp
  qed
qed

text \<open>
  Property C30. The encrypted method is a round trip. Let the legacy method fail, let \<open>con_notify\<close> hand
  out a wrapped public key, and let the robot answer the ingest request with its answer encrypted
  under the session key: then the exchange returns exactly that answer after exactly two more
  requests, and the ingest request carries the offer in a form that the session key decrypts. The
  laws used are that base64 and AES-256 are inverted by their decoders.
\<close>

theorem encrypted_exchange_roundtrip:
  fixes E :: "('u, 'k) signaling_env"
  defines "C \<equiv> se_crypto E" and "key \<equiv> se_aes_key E"
  assumes laws: "b64_law C" "aes256_law C" "length key = 32" "utf8_valid (str_bytes offer)" "utf8_valid (str_bytes answer)"
    and client: "se_client E"
    and legacy: "send_sdp_local_old E ip offer h = (Inl e, h1)"
    and notify: "signaling_url (se_urls E) ip 9991 ''/con_notify'' = Inr notify_url"
      "notify_rq = \<lparr>rq_url = notify_url, rq_content_type = None, rq_body = []\<rparr>"
      "se_answer E h1 notify_rq = Inr r1" "hr_success r1" "read_response r1 = Inr (b64_encode C (str_bytes payload))"
      "utf8_valid (str_bytes payload)" "se_from_str E payload = Some v"
      "decode_con_notify_data1 C v (sc_aes_128_key c) = Inr data1"
    and public: "con_notify_public_key data1 = Inr pem" "rsa_load_public_key C pem = Inr pk" "rsa_encrypt C key pk = Inr wrapped"
    and ingest: "signaling_url (se_urls E) ip 9991 (''/con_ing_'' @ calc_local_path_ending data1) = Inr ingest_url"
      "con_ing_body E offer pk = Inr body"
      "ingest_rq = \<lparr>rq_url = ingest_url, rq_content_type = Some ''application/x-www-form-urlencoded'', rq_body = body\<rparr>"
      "se_answer E (h1 @ [notify_rq]) ingest_rq = Inr r2" "hr_success r2"
      "read_response r2 = aes_ecb_encrypt C answer key"
  shows "exchange_sdp E c ip offer h = (Inr answer, h1 @ [notify_rq, ingest_rq]) \<and>
    (\<exists>sealed. body = se_to_string E (jobject [(''data1'', JString sealed), (''data2'', JString wrapped)]) \<and>
       aes_ecb_decrypt C sealed key = Inr offer)"
proof -
  obtain sealed where sealed: "aes_ecb_encrypt C offer key = Inr sealed" "aes_ecb_decrypt C sealed key = Inr offer"
    using aes_ecb_inverse [OF laws(1,2,4,3)] by blast
  obtain ct where ct: "aes_ecb_encrypt C answer key = Inr ct" "aes_ecb_decrypt C ct key = Inr answer"
    using aes_ecb_inverse [OF laws(1,2,5,3)] by blast
  have reply: "read_response r2 = Inr ct" using ingest(6) ct(1) by simp
  have "decode_notify E (b64_encode C (str_bytes payload)) (sc_aes_128_key c) = Inr data1"
    using laws(1) notify by (simp add: decode_notify_def b64_law_def C_def)
  then have "exchange_sdp E c ip offer h = (Inr answer, h1 @ [notify_rq, ingest_rq])"
    using legacy client notify public ingest(1-5) reply ct(2)
    by (simp add: exchange_sdp_def send_sdp_local_with_aes_key_def send_sdp_local_new_with_aes_key_def signaling_client_def
        http_post_def C_def key_def)
  moreover have "body = se_to_string E (jobject [(''data1'', JString sealed), (''data2'', JString wrapped)])"
    using ingest(2) sealed(1) public(3) by (simp add: con_ing_body_def C_def key_def)
  ultimately show ?thesis using sealed(2) by blast
qed

section \<open>A concrete robot\<close>

definition urls0 :: "(string \<times> u16 \<times> string) url_lib" where
  "urls0 = \<lparr>ul_parse = (\<lambda>_. Some (''localhost'', 80, ''/'')), ul_set_ip_host = (\<lambda>ip (_, p, q). Some (''ip'', p, q)),
     ul_set_host = (\<lambda>host (_, p, q). Some (host, p, q)), ul_host_str = (\<lambda>(host, _, _). Some host),
     ul_set_port = (\<lambda>port (host, _, q). Some (host, port, q)), ul_set_path = (\<lambda>path (host, p, _). (host, p, path))\<rparr>"

definition reply :: "string \<Rightarrow> http_response" where
  "reply body = \<lparr>hr_success = True, hr_status = ''200 OK'', hr_content_length = None, hr_chunks = [Inr (str_bytes body)]\<rparr>"

definition key0 :: string where "key0 = replicate 32 CHR ''k''"

definition data10 :: string where "data10 = ''xxxxxxxxxxPEM0A1B2C3D4E''"

definition env0 :: "(string \<times> u16 \<times> string, unit) signaling_env" where
  "env0 = \<lparr>se_urls = urls0, se_client = True,
     se_answer = (\<lambda>h rq. case rq_url rq of (host, port, path) \<Rightarrow>
        if port = 8081 then Inl \<lparr>er_timeout = True, er_connect = False, er_body = False, er_decode = False\<rparr>
        else if path = ''/con_notify'' then Inr (reply ''n'')
        else Inr (reply (projr (aes_ecb_encrypt xor_crypto ''ok'' key0)))),
     se_crypto = xor_crypto, se_from_str = (\<lambda>_. Some (JObject [(''data1'', JString data10)])),
     se_to_string = (\<lambda>_. ''json''), se_aes_key = key0\<rparr>"

lemma octets_none: "read_number 10 256 3 False s = None \<Longrightarrow> read_octets 0 (Suc n) s = None"
  by (simp add: read_separator_def)

lemma groups_none:
  "read_octets 0 4 s = None \<Longrightarrow> read_number 16 65536 4 True s = None \<Longrightarrow> read_groups 0 (Suc n) s = ([], False, s)"
  by (simp add: read_separator_def read_ipv4_addr_def)

lemma robot_not_address: "parse_ip ''go2.local'' = None"
proof -
  have numbers: "read_number 10 256 3 False ''go2.local'' = None" "read_number 16 65536 4 True ''go2.local'' = None"
    by (simp_all add: read_number_def digits_of_def to_digit_def)
  have octets: "read_octets 0 4 ''go2.local'' = None"
    using octets_none [OF numbers(1), of 3] by (simp only: eval_nat_numeral BitM.simps)
  have "read_groups 0 8 ''go2.local'' = ([], False, ''go2.local'')"
    using groups_none [OF octets numbers(2), of 7] by (simp only: eval_nat_numeral BitM.simps)
  with octets show ?thesis
    by (simp add: parse_ip_def complete_parse_def read_ip_addr_def read_ipv4_addr_def read_ipv6_addr_def read_given_char_def)
qed

lemma robot_admitted: "admit_host ''go2.local'' = Some HostName"
  by (simp add: admit_host_def robot_not_address valid_name_def ends_with_def valid_label_def is_alphanumeric_def is_digit_def)

lemma url0: "signaling_url urls0 ''go2.local'' port path = Inr (''go2.local'', port, path)"
  by (simp add: signaling_url_def robot_admitted set_admitted_def urls0_def eq_ignore_ascii_case_def)

lemma digit_codes:
  "char_of (48 :: nat) = CHR ''0''" "char_of (49 :: nat) = CHR ''1''" "char_of (50 :: nat) = CHR ''2''"
  "char_of (51 :: nat) = CHR ''3''" "char_of (52 :: nat) = CHR ''4''"
  by code_simp+

lemma data10_facts: "con_notify_public_key data10 = Inr ''PEM''" "calc_local_path_ending data10 = ''01234''"
  by (simp_all add: data10_def con_notify_public_key_def is_char_boundary_def is_cont_char_def utf8_cont_def
      calc_local_path_ending_def chunks.simps pair_digit_def path_symbols_def show_nat.simps digit_char_def digit_codes)

theorem signaling_host_only_witness:
  "exchange_sdp env0 (http_signaling_new None) ''user@10.0.0.1'' ''sdp'' [] =
    (Inl (''legacy offer failed ('' @ invalid_host @ ''); con_notify offer failed ('' @ invalid_host @ '')''), [])"
  by (rule signaling_host_only [of "CHR ''@''"]) (simp_all add: host_char_def is_alphanumeric_def)

lemma utf8_plain: "list_all (\<lambda>c. (of_char c :: nat) < 128) s \<Longrightarrow> utf8_valid (str_bytes s)"
  by (rule utf8_ascii) (auto simp: str_bytes_def list_all_iff word_less_nat_alt unat_of_nat)

lemma reply_read: "utf8_valid (str_bytes s) \<Longrightarrow> length s \<le> 1048576 \<Longrightarrow> read_response (reply s) = Inr s"
  by (simp add: read_response_def reply_def policy_defs)

lemma xor_rsa_total: "\<exists>w. rsa_encrypt xor_crypto d () = Inr w"
proof -
  have "\<exists>w. rsa_blocks xor_crypto k i acc cs = Inr w" for k i acc cs
    by (induction cs arbitrary: i acc) (simp_all add: xor_crypto_def)
  then show ?thesis by (auto simp: rsa_encrypt_def xor_simps and_then_Inr_iff Let_def)
qed

lemma sealed_answer: "aes_ecb_encrypt xor_crypto ''ok'' key0 = Inr (bytes_str (map (\<lambda>b. b XOR 0x6B) ([111, 107] @ replicate 14 14)))"
  by (simp add: aes_ecb_encrypt_def validate_aes256_key_def key0_def xor_crypto_def map_blocks_def pkcs7_pad_def policy_defs
      chunks.simps str_bytes_def)

theorem encrypted_exchange_roundtrip_witness:
  "\<exists>rs. exchange_sdp env0 (http_signaling_new None) ''go2.local'' ''sdp'' [] = (Inr ''ok'', rs) \<and> length rs = 3"
proof -
  let ?old = "\<lparr>rq_url = (''go2.local'', 8081 :: u16, ''/offer''), rq_content_type = Some ''application/json'', rq_body = ''sdp''\<rparr>"
  let ?notify = "\<lparr>rq_url = (''go2.local'', 9991 :: u16, ''/con_notify''), rq_content_type = None, rq_body = []\<rparr>"
  let ?ingest = "\<lparr>rq_url = (''go2.local'', 9991 :: u16, ''/con_ing_01234''),
    rq_content_type = Some ''application/x-www-form-urlencoded'', rq_body = ''json''\<rparr>"
  have key: "se_crypto env0 = xor_crypto" "se_aes_key env0 = key0" "length key0 = 32"
    by (simp_all add: env0_def key0_def)
  have old: "send_sdp_local_old env0 ''go2.local'' ''sdp'' [] = (Inl ''Signaling request failed: timeout'', [?old])"
    by (simp add: send_sdp_local_old_def env0_def url0 signaling_client_def http_post_def signaling_error_def)
  obtain wrapped where wrapped: "rsa_encrypt xor_crypto key0 () = Inr wrapped" using xor_rsa_total by blast
  have ok: "read_response (reply (projr (aes_ecb_encrypt xor_crypto ''ok'' key0))) = aes_ecb_encrypt xor_crypto ''ok'' key0"
    unfolding sealed_answer sum.sel
    by (rule reply_read) (simp, rule utf8_ascii, simp_all add: list_all_iff)
  obtain sealed where sealed: "aes_ecb_encrypt xor_crypto ''sdp'' key0 = Inr sealed"
    using aes_ecb_inverse [OF xor_laws utf8_plain key(3), of "''sdp''"] by auto
  have "exchange_sdp env0 (http_signaling_new None) ''go2.local'' ''sdp'' [] = (Inr ''ok'', [?old] @ [?notify, ?ingest])"
  proof (rule encrypted_exchange_roundtrip [THEN conjunct1])
    show "decode_con_notify_data1 (se_crypto env0) (JObject [(''data1'', JString data10)]) (sc_aes_128_key (http_signaling_new None)) =
        Inr data10"
      by (simp add: decode_con_notify_data1_def)
    show "read_response (reply ''n'') = Inr (b64_encode (se_crypto env0) (str_bytes ''n''))"
      by (subst reply_read) (simp_all add: utf8_plain env0_def xor_crypto_def)
    show "con_ing_body env0 ''sdp'' () = Inr ''json''"
      using wrapped sealed by (simp add: con_ing_body_def key env0_def)
    show "rsa_load_public_key (se_crypto env0) ''PEM'' = Inr ()"
      by (simp add: env0_def xor_crypto_def rsa_load_public_key_def)
    show "read_response (reply (projr (aes_ecb_encrypt xor_crypto ''ok'' key0))) = aes_ecb_encrypt (se_crypto env0) ''ok'' (se_aes_key env0)"
      using ok by (simp add: key)
  qed (simp_all add: key xor_laws utf8_plain old wrapped data10_facts, simp_all add: env0_def url0 reply_def)
  then show ?thesis by simp
qed

theorem signaling_requests_confined_witness:
  "\<exists>rs. snd (exchange_sdp env0 (http_signaling_new None) ''go2.local'' ''sdp'' []) = rs \<and> length rs \<le> 3"
  using signaling_requests_confined [of env0 "http_signaling_new None" "''go2.local''" "''sdp''" "[]"] by (metis append_Nil prod.collapse)

end
