(* ===== verification/Python_Bridge.thy ===== *)
theory Python_Bridge
  imports Callbacks Connection_Properties Signaling
begin

text \<open>
  The Python classes: \<open>src/src/interface/bridges/connection.rs\<close> (construction, getters, the session operations),
  \<open>datachannel.rs\<close>, the switches of \<open>video.rs\<close> and \<open>audio.rs\<close>, \<open>constants.rs\<close>, the start of the dispatcher (\<open>callbacks.rs\<close>), the
  ownership of the session (\<open>utils.rs\<close>), and the module itself (\<open>src/src/lib.rs\<close>). How PyO3 extracts an
  \<open>i32\<close> or a \<open>String\<close> from an object is given from outside.
\<close>

section \<open>Constants and module\<close>

fun method_i32 :: "connection_method \<Rightarrow> int" where
  "method_i32 LocalAP = 1"
| "method_i32 LocalSTA = 2"
| "method_i32 Remote = 3"

definition py_connection_methods :: "(string \<times> int) list" where
  "py_connection_methods = [(''LocalAP'', 1), (''LocalSTA'', 2), (''Remote'', 3)]"

definition py_vui_color :: "(string \<times> string) list" where
  "py_vui_color = [(''WHITE'', ''white''), (''RED'', ''red''), (''YELLOW'', ''yellow''), (''BLUE'', ''blue''), (''GREEN'', ''green''),
     (''CYAN'', ''cyan''), (''PURPLE'', ''purple'')]"

text \<open>The dictionaries of the module, in the order of the maps.\<close>

definition register_constants :: "(string \<times> (string \<times> py_object) list) list" where
  "register_constants =
     [(''DATA_CHANNEL_TYPE'', map (\<lambda>(k, v). (k, PyStr (Some v))) data_channel_type),
      (''RTC_TOPIC'', map (\<lambda>(k, v). (k, PyStr (Some v))) rtc_topic),
      (''SPORT_CMD'', map (\<lambda>(k, v). (k, PyInt v)) sport_cmd),
      (''AUDIO_API'', map (\<lambda>(k, v). (k, PyInt v)) audio_api),
      (''APP_ERROR_MESSAGES'', map (\<lambda>(k, v). (k, PyStr (Some v))) app_error_messages)]"

text \<open>An environment variable: missing, not Unicode, or its value.\<close>

datatype env_var = NotPresent | NotUnicode | Present string

text \<open>\<open>init_tracing\<close>: the filter that is installed, if one is. \<open>valid\<close> says which filters the parser accepts.\<close>

definition init_tracing :: "bool \<Rightarrow> env_var \<Rightarrow> env_var \<Rightarrow> (string \<Rightarrow> bool) \<Rightarrow> py_error + string option" where
  "init_tracing has_been_set log_init log valid =
     (if has_been_set \<or> log_init = Present ''0'' then Inr None
      else if log_init \<noteq> Present ''1'' \<and> log_init \<noteq> NotPresent then Inl (PyValueError ''UNITREE_WEBRTC_RS_LOG_INIT must be 0 or 1'')
      else case log of
        Present f \<Rightarrow> if valid f then Inr (Some f) else Inl (PyValueError ''invalid UNITREE_WEBRTC_RS_LOG filter'')
      | NotPresent \<Rightarrow> Inr (Some ''warn'')
      | NotUnicode \<Rightarrow> Inl (PyValueError ''UNITREE_WEBRTC_RS_LOG must be Unicode''))"

section \<open>Construction\<close>

definition normalize_aes_128_key :: "string option \<Rightarrow> string option" where
  "normalize_aes_128_key key =
     (case key of None \<Rightarrow> None | Some v \<Rightarrow> let t = trim v in if t = [] then None else Some t)"

definition resolve_aes_128_key :: "env_var \<Rightarrow> string option \<Rightarrow> string option" where
  "resolve_aes_128_key variable explicit_key =
     (case normalize_aes_128_key explicit_key of
        Some k \<Rightarrow> Some k
      | None \<Rightarrow> (case variable of Present v \<Rightarrow> normalize_aes_128_key (Some v) | _ \<Rightarrow> None))"

record py_extract =
  px_i32 :: "py_object \<Rightarrow> py_error + int"
  px_string :: "py_object \<Rightarrow> py_error + string"

record py_new_args =
  na_connection_method :: int
  na_serial_number :: "string option"
  na_ip :: "string option"
  na_username :: "string option"
  na_password :: "string option"
  na_aes_128_key :: "string option"
  na_kwargs :: "(string \<times> py_object) list" \<comment> \<open>empty also when there are none\<close>

definition kw_method :: "py_extract \<Rightarrow> py_new_args \<Rightarrow> py_error + int" where
  "kw_method P a = (case map_of (na_kwargs a) ''connectionMethod'' of None \<Rightarrow> Inr (na_connection_method a) | Some v \<Rightarrow> px_i32 P v)"

definition kw_serial :: "py_extract \<Rightarrow> py_new_args \<Rightarrow> py_error + string option" where
  "kw_serial P a =
     (case map_of (na_kwargs a) ''serialNumber'' of
        None \<Rightarrow> Inr (na_serial_number a)
      | Some v \<Rightarrow> and_then (px_string P v) (\<lambda>s. Inr (Some s)))"

text \<open>The names of the key, in the order in which they override each other; an argument of \<open>None\<close> is passed over.\<close>

fun kw_keys :: "py_extract \<Rightarrow> (string \<times> py_object) list \<Rightarrow> string list \<Rightarrow> string option \<Rightarrow> py_error + string option" where
  "kw_keys P kw [] key = Inr key"
| "kw_keys P kw (name # names) key =
     (case map_of kw name of
        None \<Rightarrow> kw_keys P kw names key
      | Some v \<Rightarrow>
          if v = PyNone then kw_keys P kw names key
          else and_then (px_string P v) (\<lambda>s. kw_keys P kw names (Some s)))"

definition KEY_NAMES :: "string list" where
  "KEY_NAMES = [''aes_128_key'', ''aes128Key'', ''aes128_key'']"

record py_connection =
  pc_connection_method :: connection_method
  pc_serial_number :: "string option"
  pc_ip :: "string option"
  pc_username :: "string option"
  pc_password :: "string option"
  pc_aes_128_key :: "string option"
  pc_signaling :: http_signaling_client
  pc_session :: lifecycle
  pc_registry :: callback_registry
  pc_dispatcher :: dispatcher

text \<open>What the system answers while a connection is constructed: the environment variable, the clock, the
  processors, which threads start, and the random and clock values of the service.\<close>

record new_env =
  nv_key :: env_var
  nv_now :: instant
  nv_parallelism :: "nat option"
  nv_worker :: "nat \<Rightarrow> bool"
  nv_router :: bool
  nv_dispatcher :: bool
  nv_session :: u64
  nv_sequence :: u64

definition try_spawn_callback_dispatcher :: "bool \<Rightarrow> string + dispatcher" where
  "try_spawn_callback_dispatcher spawned =
     (if spawned then Inr dispatcher_new else Inl ''Failed to start Python callback dispatcher'')"

definition py_connection_new ::
  "queue_texts \<Rightarrow> (engine, 'k) runtime \<Rightarrow> py_extract \<Rightarrow> new_env \<Rightarrow> py_new_args \<Rightarrow> py_error + py_connection" where
  "py_connection_new X R P v a =
     and_then (kw_method P a) (\<lambda>method.
     and_then (kw_serial P a) (\<lambda>serial.
     and_then (kw_keys P (na_kwargs a) KEY_NAMES (na_aes_128_key a)) (\<lambda>given.
     let key = resolve_aes_128_key (nv_key v) given in
     and_then (map_err PyValueError (connection_method_try_from method)) (\<lambda>m.
     and_then (map_err to_py_error (session_new X R (nv_now v) (nv_worker v) (nv_router v) (nv_session v) (nv_sequence v)
                 (session_options_new (nv_parallelism v) m (na_ip a)))) (\<lambda>session.
     and_then (map_err PyRuntimeError (try_spawn_callback_dispatcher (nv_dispatcher v))) (\<lambda>dispatcher.
     Inr \<lparr>pc_connection_method = m, pc_serial_number = serial, pc_ip = na_ip a, pc_username = na_username a,
          pc_password = na_password a, pc_aes_128_key = key, pc_signaling = http_signaling_new key, pc_session = session,
          pc_registry = [], pc_dispatcher = dispatcher\<rparr>))))))"

section \<open>Methods of the classes\<close>

definition py_connection_method :: "py_connection \<Rightarrow> int" where
  "py_connection_method c = method_i32 (pc_connection_method c)"

definition py_is_connected :: "(engine, 'k) runtime \<Rightarrow> py_connection \<Rightarrow> bool" where
  "py_is_connected W c = session_is_connected W (pc_session c)"

text \<open>\<open>disableTrafficSaving\<close>: the request, and the result its answer gives.\<close>

definition py_disable_traffic_saving ::
  "('t, 'k) runtime \<Rightarrow> moment \<Rightarrow> bool \<Rightarrow> 't dc_service \<Rightarrow> (py_error + ticket) \<times> 't dc_service" where
  "py_disable_traffic_saving W now switch s = (case disable_traffic_saving W now switch s of (r, s') \<Rightarrow> (map_err to_py_error r, s'))"

definition py_switch_video_channel ::
  "('t, 'k) runtime \<Rightarrow> moment \<Rightarrow> bool \<Rightarrow> 't dc_service \<Rightarrow> (py_error + unit) \<times> 't dc_service" where
  "py_switch_video_channel W now switch s = (case switch_video_channel W now switch s of (r, s') \<Rightarrow> (map_err to_py_error r, s'))"

definition py_switch_audio_channel ::
  "('t, 'k) runtime \<Rightarrow> moment \<Rightarrow> bool \<Rightarrow> 't dc_service \<Rightarrow> (py_error + unit) \<times> 't dc_service" where
  "py_switch_audio_channel W now switch s = (case switch_audio_channel W now switch s of (r, s') \<Rightarrow> (map_err to_py_error r, s'))"

definition py_set_decoder :: "string \<Rightarrow> 't dc_service \<Rightarrow> (py_error + unit) \<times> 't dc_service" where
  "py_set_decoder decoder_type s = (case set_decoder decoder_type s of (r, s') \<Rightarrow> (map_err to_py_error r, s'))"

section \<open>Ownership of the session\<close>

text \<open>The session is shared by the connection object, the bridges its getters make and the operations in
  progress (\<open>with_session_owner\<close>, and the clones the other futures hold). When the last of them goes, the
  session's destructor runs.\<close>

datatype owner = Owner_Connection | Owner_Bridge | Owner_Future

record ownership =
  ow_owners :: "owner list"
  ow_session :: lifecycle
  ow_drops :: nat \<comment> \<open>how often the destructor has run\<close>

definition release_owner :: "(engine, 'k) runtime \<Rightarrow> owner \<Rightarrow> ownership \<Rightarrow> ownership" where
  "release_owner W ow w =
     (let left = remove1 ow (ow_owners w)
      in if left = [] then w\<lparr>ow_owners := left, ow_session := session_drop W (ow_session w), ow_drops := Suc (ow_drops w)\<rparr>
         else w\<lparr>ow_owners := left\<rparr>)"

inductive owner_step :: "queue_texts \<Rightarrow> (engine, 'k) runtime \<Rightarrow> connection_config \<Rightarrow> ownership \<Rightarrow> ownership \<Rightarrow> bool" for X R cfg where
  getter: "ow \<in> set (ow_owners w) \<Longrightarrow> ow \<noteq> Owner_Future \<Longrightarrow> owner_step X R cfg w (w\<lparr>ow_owners := Owner_Bridge # ow_owners w\<rparr>)"
| call: "ow \<in> set (ow_owners w) \<Longrightarrow> ow \<noteq> Owner_Future \<Longrightarrow> owner_step X R cfg w (w\<lparr>ow_owners := Owner_Future # ow_owners w\<rparr>)"
| release: "ow \<in> set (ow_owners w) \<Longrightarrow> owner_step X R cfg w (release_owner (engine_runtime X R) ow w)"
| session: "lifecycle_step X R cfg (ow_session w) s \<Longrightarrow> owner_step X R cfg w (w\<lparr>ow_session := s\<rparr>)"

inductive owner_reachable :: "queue_texts \<Rightarrow> (engine, 'k) runtime \<Rightarrow> connection_config \<Rightarrow> ownership \<Rightarrow> bool" for X R cfg where
  start: "py_connection_new X R P v a = Inr c \<Longrightarrow>
    owner_reachable X R cfg \<lparr>ow_owners = [Owner_Connection], ow_session = pc_session c, ow_drops = 0\<rparr>"
| step: "owner_reachable X R cfg w \<Longrightarrow> owner_step X R cfg w w' \<Longrightarrow> owner_reachable X R cfg w'"

section \<open>Trimmed keys\<close>

lemma trim_start_stops: "w \<in> set white_space \<Longrightarrow> \<not> starts_with (trim_start s) w"
proof (induction s rule: trim_start.induct)
  case (1 s)
  show ?case
  proof (cases "find (starts_with s) white_space")
    case None
    then have "\<not> starts_with s w" using 1(2) by (simp add: find_None_iff)
    with None show ?thesis by (simp add: trim_start.simps [of s])
  next
    case (Some v)
    with 1 show ?thesis by (simp add: trim_start.simps [of s])
  qed
qed

lemma trim_end_stops: "w \<in> set white_space \<Longrightarrow> \<not> ends_with (trim_end s) w"
proof (induction s rule: trim_end.induct)
  case (1 s)
  show ?case
  proof (cases "find (ends_with s) white_space")
    case None
    then have "\<not> ends_with s w" using 1(2) by (simp add: find_None_iff)
    with None show ?thesis by (simp add: trim_end.simps [of s])
  next
    case (Some v)
    with 1 show ?thesis by (simp add: trim_end.simps [of s])
  qed
qed

lemma trim_end_prefix: "\<exists>n. trim_end s = take n s"
proof (induction s rule: trim_end.induct)
  case (1 s)
  then show ?case
    by (cases "find (ends_with s) white_space") (auto simp: trim_end.simps [of s] intro: exI [of _ "length s"])
qed

lemma trim_start_id: "(\<And>w. w \<in> set white_space \<Longrightarrow> \<not> starts_with s w) \<Longrightarrow> trim_start s = s"
  by (simp add: trim_start.simps [of s] find_None_iff split: option.split)
    (metis find_None_iff option.distinct(1))

lemma trim_end_id: "(\<And>w. w \<in> set white_space \<Longrightarrow> \<not> ends_with s w) \<Longrightarrow> trim_end s = s"
  by (simp add: trim_end.simps [of s] find_None_iff split: option.split)
    (metis find_None_iff option.distinct(1))

lemma starts_with_take: "starts_with (take n s) w \<Longrightarrow> starts_with s w"
  by (auto simp: starts_with_def) (metis append_take_drop_id length_take min.cobounded1 take_all_iff take_append take_take)

lemma trim_trim [simp]: "trim (trim s) = trim s"
proof -
  obtain n where n: "trim s = take n (trim_start s)" unfolding trim_def using trim_end_prefix by blast
  have "trim_start (trim s) = trim s"
    unfolding n by (rule trim_start_id) (use trim_start_stops starts_with_take in blast)
  moreover have "trim_end (trim s) = trim s"
    by (rule trim_end_id) (simp add: trim_def trim_end_stops)
  ultimately show ?thesis by (simp add: trim_def [of "trim s"])
qed

lemma normalized_key:
  "normalize_aes_128_key key = Some k \<Longrightarrow> k \<noteq> [] \<and> trim k = k \<and> (\<exists>v. key = Some v \<and> k = trim v)"
  "normalize_aes_128_key key = None \<longleftrightarrow> (\<forall>v. key = Some v \<longrightarrow> trim v = [])"
  by (auto simp: normalize_aes_128_key_def Let_def split: option.splits if_splits)

lemma client_keeps_key: "sc_aes_128_key (http_signaling_new (resolve_aes_128_key variable given)) = resolve_aes_128_key variable given"
proof -
  have "trim k = k \<and> k \<noteq> []" if "resolve_aes_128_key variable given = Some k" for k
    using that normalized_key(1) by (auto simp: resolve_aes_128_key_def split: option.splits env_var.splits)
  then show ?thesis
    by (cases "resolve_aes_128_key variable given") (auto simp: http_signaling_new_def normalize_optional_key_def)
qed

section \<open>Properties\<close>

lemma method_try_from: "connection_method_try_from n = Inr m \<longleftrightarrow> n = method_i32 m"
  by (cases m) (auto simp: connection_method_try_from_def)

lemma method_rejected: "n \<notin> {1, 2, 3} \<Longrightarrow> connection_method_try_from n = Inl (''Unsupported WebRTCConnectionMethod value: '' @ show_int n)"
  by (simp add: connection_method_try_from_def)

lemma method_range: "(\<exists>m. n = method_i32 m) \<longleftrightarrow> n \<in> {1, 2, 3}"
proof
  assume "n \<in> {1, 2, 3}"
  then consider "n = method_i32 LocalAP" | "n = method_i32 LocalSTA" | "n = method_i32 Remote" by auto
  then show "\<exists>m. n = method_i32 m" by cases blast+
next
  assume "\<exists>m. n = method_i32 m"
  then show "n \<in> {1, 2, 3}" by (metis connection_method.exhaust insertCI method_i32.simps)
qed

lemma map_err_Inr: "map_err f r = Inr x \<longleftrightarrow> r = Inr x"
  by (cases r) simp_all

lemma default_options_ok:
  "so_incoming_capacity (session_options_new par m ip) \<in> {1..4096}" "so_event_capacity (session_options_new par m ip) \<in> {1..256}"
  "so_lidar_workers (session_options_new par m ip) \<in> {1..32}" "0 < so_validation_timeout (session_options_new par m ip)"
  by (auto simp: session_options_new_def secs_def split: option.split)

text \<open>The arguments of a construction, resolved.\<close>

definition resolved :: "py_extract \<Rightarrow> py_new_args \<Rightarrow> int \<Rightarrow> string option \<Rightarrow> string option \<Rightarrow> bool" where
  "resolved P a n serial given \<longleftrightarrow>
     kw_method P a = Inr n \<and> kw_serial P a = Inr serial \<and> kw_keys P (na_kwargs a) KEY_NAMES (na_aes_128_key a) = Inr given"

lemma py_connection_new_Inr:
  "py_connection_new X R P v a = Inr c \<longleftrightarrow>
     (\<exists>m serial given session. resolved P a (method_i32 m) serial given \<and>
        session_new X R (nv_now v) (nv_worker v) (nv_router v) (nv_session v) (nv_sequence v)
          (session_options_new (nv_parallelism v) m (na_ip a)) = Inr session \<and> nv_dispatcher v \<and>
        c = \<lparr>pc_connection_method = m, pc_serial_number = serial, pc_ip = na_ip a, pc_username = na_username a,
             pc_password = na_password a, pc_aes_128_key = resolve_aes_128_key (nv_key v) given,
             pc_signaling = http_signaling_new (resolve_aes_128_key (nv_key v) given), pc_session = session,
             pc_registry = [], pc_dispatcher = dispatcher_new\<rparr>)"
  by (auto simp: py_connection_new_def and_then_Inr_iff Let_def map_err_Inr method_try_from resolved_def
      try_spawn_callback_dispatcher_def split: if_splits)

lemma constructor_resolved:
  assumes "resolved P a n serial given" "nv_now v + secs 5 \<le> rt_instant_max R"
  shows "((\<exists>c. py_connection_new X R P v a = Inr c) \<longleftrightarrow>
      n \<in> {1, 2, 3} \<and> nv_router v \<and> nv_dispatcher v \<and>
      (\<forall>k < (case nv_parallelism v of Some p \<Rightarrow> max 2 (min p 4) | None \<Rightarrow> 2). nv_worker v k)) \<and>
    (\<forall>c. py_connection_new X R P v a = Inr c \<longrightarrow>
      py_connection_method c = n \<and> pc_serial_number c = serial \<and> pc_ip c = na_ip a \<and>
      sc_aes_128_key (pc_signaling c) = pc_aes_128_key c \<and>
      (case pc_aes_128_key c of
         None \<Rightarrow> (\<forall>k. given = Some k \<or> nv_key v = Present k \<longrightarrow> trim k = [])
       | Some k \<Rightarrow> k \<noteq> [] \<and> trim k = k \<and>
           ((\<exists>g. given = Some g \<and> k = trim g) \<or> (\<forall>g. given = Some g \<longrightarrow> trim g = []) \<and> (\<exists>e. nv_key v = Present e \<and> k = trim e))) \<and>
      lifecycle_reachable X R cfg (pc_session c) \<and> \<not> py_is_connected W c \<and> pc_registry c = []) \<and>
    (n \<notin> {1, 2, 3} \<longrightarrow> py_connection_new X R P v a = Inl (PyValueError (''Unsupported WebRTCConnectionMethod value: '' @ show_int n)))"
proof (intro conjI allI impI)
  have time: "nv_now v + so_validation_timeout (session_options_new p m' i) \<le> rt_instant_max R" for p m' i
    using assms(2) by (simp add: session_options_new_def)
  have args: "resolved P a n' serial' given' \<longleftrightarrow> n' = n \<and> serial' = serial \<and> given' = given" for n' serial' given'
    using assms(1) by (auto simp: resolved_def)
  have workers: "so_lidar_workers (session_options_new p m' i) = (case p of Some p \<Rightarrow> max 2 (min p 4) | None \<Rightarrow> 2)" for p m' i
    by (simp add: session_options_new_def)
  show "(\<exists>c. py_connection_new X R P v a = Inr c) \<longleftrightarrow> n \<in> {1, 2, 3} \<and> nv_router v \<and> nv_dispatcher v \<and>
      (\<forall>k < (case nv_parallelism v of Some p \<Rightarrow> max 2 (min p 4) | None \<Rightarrow> 2). nv_worker v k)"
  proof -
    have "(\<exists>session. session_new X R (nv_now v) (nv_worker v) (nv_router v) (nv_session v) (nv_sequence v)
          (session_options_new (nv_parallelism v) m' (na_ip a)) = Inr session) \<longleftrightarrow>
        nv_router v \<and> (\<forall>k < (case nv_parallelism v of Some p \<Rightarrow> max 2 (min p 4) | None \<Rightarrow> 2). nv_worker v k)" for m'
      unfolding session_new_exact [THEN conjunct1] workers
      using time [of "nv_parallelism v" m' "na_ip a"] default_options_ok [of "nv_parallelism v" m' "na_ip a"] unfolding workers by blast
    then show ?thesis
      unfolding py_connection_new_Inr args method_range [symmetric] by (safe; metis)
  qed
  show "py_connection_new X R P v a = Inl (PyValueError (''Unsupported WebRTCConnectionMethod value: '' @ show_int n))" if "n \<notin> {1, 2, 3}"
    using assms(1) by (simp add: py_connection_new_def resolved_def method_rejected [OF that])
next
  fix c
  assume "py_connection_new X R P v a = Inr c"
  then obtain m session where new: "n = method_i32 m"
      "session_new X R (nv_now v) (nv_worker v) (nv_router v) (nv_session v) (nv_sequence v)
         (session_options_new (nv_parallelism v) m (na_ip a)) = Inr session"
    and c: "c = \<lparr>pc_connection_method = m, pc_serial_number = serial, pc_ip = na_ip a, pc_username = na_username a,
             pc_password = na_password a, pc_aes_128_key = resolve_aes_128_key (nv_key v) given,
             pc_signaling = http_signaling_new (resolve_aes_128_key (nv_key v) given), pc_session = session,
             pc_registry = [], pc_dispatcher = dispatcher_new\<rparr>"
    using assms(1) unfolding py_connection_new_Inr by (auto simp: resolved_def)
  show "py_connection_method c = n" "pc_serial_number c = serial" "pc_ip c = na_ip a" "pc_registry c = []"
      "sc_aes_128_key (pc_signaling c) = pc_aes_128_key c"
    by (simp_all add: c new(1) py_connection_method_def client_keeps_key)
  show "lifecycle_reachable X R cfg (pc_session c)" using lifecycle_reachable.start [OF new(2)] by (simp add: c)
  show "\<not> py_is_connected W c"
    using session_new_exact [THEN conjunct2, rule_format, OF new(2)] by (simp add: c py_is_connected_def session_is_connected_def)
  show "case pc_aes_128_key c of
         None \<Rightarrow> (\<forall>k. given = Some k \<or> nv_key v = Present k \<longrightarrow> trim k = [])
       | Some k \<Rightarrow> k \<noteq> [] \<and> trim k = k \<and>
           ((\<exists>g. given = Some g \<and> k = trim g) \<or> (\<forall>g. given = Some g \<longrightarrow> trim g = []) \<and> (\<exists>e. nv_key v = Present e \<and> k = trim e))"
    by (auto simp: c resolve_aes_128_key_def normalized_key(2) dest: normalized_key(1) split: option.splits env_var.splits)
qed

text \<open>What the arguments say: a keyword overrides the parameter of the same meaning. Of the spellings of the key the last one
  counts that is given and not \<open>None\<close>, but every given one has to be a string.\<close>

definition method_arg :: "py_extract \<Rightarrow> py_new_args \<Rightarrow> int \<Rightarrow> bool" where
  "method_arg P a n \<longleftrightarrow>
     (case map_of (na_kwargs a) ''connectionMethod'' of None \<Rightarrow> n = na_connection_method a | Some ob \<Rightarrow> px_i32 P ob = Inr n)"

definition serial_arg :: "py_extract \<Rightarrow> py_new_args \<Rightarrow> string option \<Rightarrow> bool" where
  "serial_arg P a serial \<longleftrightarrow>
     (case map_of (na_kwargs a) ''serialNumber'' of
        None \<Rightarrow> serial = na_serial_number a | Some ob \<Rightarrow> (\<exists>t. px_string P ob = Inr t \<and> serial = Some t))"

definition named :: "py_new_args \<Rightarrow> string \<Rightarrow> py_object option" where
  "named a name = (case map_of (na_kwargs a) name of Some ob \<Rightarrow> if ob = PyNone then None else Some ob | None \<Rightarrow> None)"

definition named_key :: "py_new_args \<Rightarrow> py_object option" where
  "named_key a =
     (case named a ''aes128_key'' of
        Some ob \<Rightarrow> Some ob
      | None \<Rightarrow> (case named a ''aes128Key'' of Some ob \<Rightarrow> Some ob | None \<Rightarrow> named a ''aes_128_key''))"

definition key_arg :: "py_extract \<Rightarrow> py_new_args \<Rightarrow> string option \<Rightarrow> bool" where
  "key_arg P a given \<longleftrightarrow>
     (\<forall>name\<in>{''aes_128_key'', ''aes128Key'', ''aes128_key''}. \<forall>ob. named a name = Some ob \<longrightarrow> (\<exists>t. px_string P ob = Inr t)) \<and>
     (case named_key a of None \<Rightarrow> given = na_aes_128_key a | Some ob \<Rightarrow> (\<exists>t. px_string P ob = Inr t \<and> given = Some t))"

lemma method_arg_resolved: "method_arg P a n \<longleftrightarrow> kw_method P a = Inr n"
  by (auto simp: method_arg_def kw_method_def split: option.split)

lemma serial_arg_resolved: "serial_arg P a serial \<longleftrightarrow> kw_serial P a = Inr serial"
  by (auto simp: serial_arg_def kw_serial_def and_then_Inr_iff split: option.split)

lemma kw_keys_named:
  "kw_keys P (na_kwargs a) (name # names) key = Inr given \<longleftrightarrow>
     (case named a name of
        None \<Rightarrow> kw_keys P (na_kwargs a) names key = Inr given
      | Some ob \<Rightarrow> (\<exists>t. px_string P ob = Inr t \<and> kw_keys P (na_kwargs a) names (Some t) = Inr given))"
  by (auto simp: named_def and_then_Inr_iff split: option.split)

lemma key_arg_resolved: "key_arg P a given \<longleftrightarrow> kw_keys P (na_kwargs a) KEY_NAMES (na_aes_128_key a) = Inr given"
  unfolding KEY_NAMES_def kw_keys_named
  by (auto simp: key_arg_def named_key_def split: option.split)

lemma args_resolved: "resolved P a n serial given \<longleftrightarrow> method_arg P a n \<and> serial_arg P a serial \<and> key_arg P a given"
  by (simp add: resolved_def method_arg_resolved serial_arg_resolved key_arg_resolved)

text \<open>
  Property C18. Constructing a connection from Python succeeds exactly if the arguments can be extracted, the method (the
  keyword \<open>connectionMethod\<close> overriding the positional one) is 1, 2 or 3, and all threads start. The object then
  reports that method, and the serial number given by the keyword \<open>serialNumber\<close> or else the positional one; its key is the one given by the
  last of the spellings \<open>aes_128_key\<close>, \<open>aes128Key\<close> and \<open>aes128_key\<close> that is not \<open>None\<close>, else the
  positional one, and if that is blank or missing the one of the environment; it is never blank, carries no white space around it, and is
  exactly the one the signaling client uses; its session is new and unconnected. An unsupported method is a \<open>ValueError\<close> that names it.
\<close>

theorem python_constructor_exact:
  assumes "nv_now v + secs 5 \<le> rt_instant_max R"
  shows "((\<exists>c. py_connection_new X R P v a = Inr c) \<longleftrightarrow>
      (\<exists>n serial given. n \<in> {1, 2, 3} \<and> method_arg P a n \<and> serial_arg P a serial \<and> key_arg P a given) \<and> nv_router v \<and> nv_dispatcher v \<and>
      (\<forall>k < (case nv_parallelism v of Some p \<Rightarrow> max 2 (min p 4) | None \<Rightarrow> 2). nv_worker v k)) \<and>
    (\<forall>c. py_connection_new X R P v a = Inr c \<longrightarrow>
      method_arg P a (py_connection_method c) \<and> serial_arg P a (pc_serial_number c) \<and> pc_ip c = na_ip a \<and>
      sc_aes_128_key (pc_signaling c) = pc_aes_128_key c \<and>
      (\<exists>given. key_arg P a given \<and>
        (case pc_aes_128_key c of
           None \<Rightarrow> (\<forall>k. given = Some k \<or> nv_key v = Present k \<longrightarrow> trim k = [])
         | Some k \<Rightarrow> k \<noteq> [] \<and> trim k = k \<and>
             ((\<exists>g. given = Some g \<and> k = trim g) \<or> (\<forall>g. given = Some g \<longrightarrow> trim g = []) \<and> (\<exists>e. nv_key v = Present e \<and> k = trim e)))) \<and>
      lifecycle_reachable X R cfg (pc_session c) \<and> \<not> py_is_connected W c \<and> pc_registry c = []) \<and>
    (\<forall>n serial given. method_arg P a n \<and> serial_arg P a serial \<and> key_arg P a given \<and> n \<notin> {1, 2, 3} \<longrightarrow>
      py_connection_new X R P v a = Inl (PyValueError (''Unsupported WebRTCConnectionMethod value: '' @ show_int n)))"
proof (cases "\<exists>n serial given. resolved P a n serial given")
  case True
  then obtain n serial given where args: "resolved P a n serial given" by blast
  then have same: "method_arg P a n' \<and> serial_arg P a serial' \<and> key_arg P a given' \<longleftrightarrow> n' = n \<and> serial' = serial \<and> given' = given"
    for n' serial' given'
    unfolding args_resolved [symmetric] by (auto simp: resolved_def)
  have these: "method_arg P a n" "serial_arg P a serial" "key_arg P a given" using args by (simp_all add: args_resolved)
  note exact = constructor_resolved [OF args assms, where X = X and cfg = cfg and W = W]
  have other: "py_connection_new X R P v a = Inl (PyValueError (''Unsupported WebRTCConnectionMethod value: '' @ show_int n'))"
    if "method_arg P a n' \<and> serial_arg P a serial' \<and> key_arg P a given' \<and> n' \<notin> {1, 2, 3}" for n' serial' given'
  proof -
    have "n' = n" using that same [of n' serial' given'] by simp
    with that exact [THEN conjunct2, THEN conjunct2] show ?thesis by simp
  qed
  have supported: "(\<exists>n serial given. n \<in> {1, 2, 3} \<and> method_arg P a n \<and> serial_arg P a serial \<and> key_arg P a given) \<longleftrightarrow> n \<in> {1, 2, 3}"
    unfolding same by blast
  have object: "method_arg P a (py_connection_method c)" "serial_arg P a (pc_serial_number c)"
    if "py_connection_new X R P v a = Inr c" for c
    using exact [THEN conjunct2, THEN conjunct1, rule_format, OF that] these by simp_all
  show ?thesis
    unfolding supported
  proof (intro conjI allI impI)
    fix c assume c: "py_connection_new X R P v a = Inr c"
    note of_c = exact [THEN conjunct2, THEN conjunct1, rule_format, OF c]
    show "\<exists>given. key_arg P a given \<and>
        (case pc_aes_128_key c of
           None \<Rightarrow> (\<forall>k. given = Some k \<or> nv_key v = Present k \<longrightarrow> trim k = [])
         | Some k \<Rightarrow> k \<noteq> [] \<and> trim k = k \<and>
             ((\<exists>g. given = Some g \<and> k = trim g) \<or> (\<forall>g. given = Some g \<longrightarrow> trim g = []) \<and> (\<exists>e. nv_key v = Present e \<and> k = trim e)))"
      using of_c by (intro exI [of _ given] conjI these(3)) (simp only: of_c)
    show "pc_ip c = na_ip a" "sc_aes_128_key (pc_signaling c) = pc_aes_128_key c" "lifecycle_reachable X R cfg (pc_session c)"
        "\<not> py_is_connected W c" "pc_registry c = []"
      by (simp_all only: of_c not_False_eq_True)
  qed (fact exact [THEN conjunct1] | rule object, assumption | rule other, assumption)+
next
  case False
  then have "py_connection_new X R P v a \<noteq> Inr c" for c unfolding py_connection_new_Inr by blast
  with False show ?thesis unfolding args_resolved by blast
qed

definition exact_extract :: py_extract where
  "exact_extract = \<lparr>px_i32 = (\<lambda>ob. case extract_index ob of
       Some n \<Rightarrow> if - (2 ^ 31) \<le> n \<and> n < 2 ^ 31 then Inr n else Inl (PyValueError ''OverflowError'')
     | None \<Rightarrow> Inl (PyTypeError ''not an integer'')),
     px_string = (\<lambda>ob. case ob of PyStr (Some t) \<Rightarrow> Inr t | PyStr None \<Rightarrow> Inl PyUnicodeError | _ \<Rightarrow> Inl (PyTypeError ''not a string''))\<rparr>"

definition example_args :: py_new_args where
  "example_args = \<lparr>na_connection_method = 7, na_serial_number = None, na_ip = Some ''10.0.0.1'', na_username = None,
     na_password = None, na_aes_128_key = Some '' 00 '', na_kwargs = [(''connectionMethod'', PyInt 2), (''aes128Key'', PyNone)]\<rparr>"

definition example_env :: new_env where
  "example_env = \<lparr>nv_key = NotPresent, nv_now = 0, nv_parallelism = Some 8, nv_worker = (\<lambda>_. True), nv_router = True,
     nv_dispatcher = True, nv_session = 41, nv_sequence = 1\<rparr>"

lemma python_constructor_exists: "\<exists>c. py_connection_new texts0 runtime1 exact_extract example_env example_args = Inr c"
proof -
  have "resolved exact_extract example_args (method_i32 LocalSTA) None (Some '' 00 '')"
    by (simp add: resolved_def kw_method_def kw_serial_def KEY_NAMES_def example_args_def exact_extract_def)
  moreover have "\<exists>session. session_new texts0 runtime1 0 (\<lambda>_. True) True 41 1 (session_options_new (Some 8) LocalSTA (Some ''10.0.0.1'')) = Inr session"
    unfolding session_new_exact [THEN conjunct1] by (simp add: session_options_new_def secs_def runtime1_def)
  ultimately show ?thesis unfolding py_connection_new_Inr by (fastforce simp: example_env_def example_args_def)
qed

lemma example_time: "nv_now example_env + secs 5 \<le> rt_instant_max runtime1"
  by (simp add: example_env_def secs_def runtime1_def)

lemma example_named: "method_arg exact_extract example_args n \<longleftrightarrow> n = 2" "serial_arg exact_extract example_args t \<longleftrightarrow> t = None"
  "key_arg exact_extract example_args k \<longleftrightarrow> k = Some '' 00 ''"
  by (auto simp: method_arg_def serial_arg_def key_arg_def named_key_def named_def example_args_def exact_extract_def)

theorem python_constructor_exact_witness:
  "\<exists>c. py_connection_new texts0 runtime1 exact_extract example_env example_args = Inr c \<and> py_connection_method c = 2 \<and>
     pc_aes_128_key c = Some ''00''"
proof -
  note exact = python_constructor_exact [OF example_time, where X = texts0 and cfg = config0 and W = runtime1 and P = exact_extract
      and a = example_args, unfolded example_named]
  obtain c where c: "py_connection_new texts0 runtime1 exact_extract example_env example_args = Inr c"
    using exact [THEN conjunct1] by (auto simp: example_env_def)
  have "trim '' 00 '' = ''00''" by code_simp
  then show ?thesis
    using exact [THEN conjunct2, THEN conjunct1] c by (auto simp: example_env_def split: option.splits)
qed

text \<open>
  The session's destructor runs exactly once, when its last owner goes: in whatever order the connection, the bridges
  and the operations in progress are released, it has run if and only if none of them is left, and then none ever comes back.
\<close>

theorem session_released_once:
  assumes "owner_reachable X R cfg w"
  shows "ow_drops w = (if ow_owners w = [] then 1 else 0) \<and> lifecycle_reachable X R cfg (ow_session w) \<and>
    (\<forall>w'. owner_step X R cfg w w' \<and> ow_owners w = [] \<longrightarrow> ow_owners w' = [] \<and> ow_drops w' = ow_drops w)"
proof -
  have "ow_drops w = (if ow_owners w = [] then 1 else 0) \<and> lifecycle_reachable X R cfg (ow_session w)"
    using assms
  proof (induction rule: owner_reachable.induct)
    case (start P v a c)
    then show ?case unfolding py_connection_new_Inr by (auto intro: lifecycle_reachable.start)
  next
    case (step w w')
    from step(2,3) show ?case
      by (cases rule: owner_step.cases)
        (auto simp: release_owner_def Let_def split: if_splits intro: lifecycle_reachable.step lifecycle_step.dropped)
  qed
  then show ?thesis by (auto elim: owner_step.cases)
qed

theorem session_released_once_witness:
  "\<exists>s. ow_drops (release_owner (engine_runtime texts0 runtime1) Owner_Connection
     \<lparr>ow_owners = [Owner_Connection], ow_session = s, ow_drops = 0\<rparr>) = 1 \<and> lifecycle_reachable texts0 runtime1 config0 s"
proof -
  obtain c where "py_connection_new texts0 runtime1 exact_extract example_env example_args = Inr c"
    using python_constructor_exists by blast
  from owner_reachable.start [OF this, of config0]
  have start: "owner_reachable texts0 runtime1 config0 \<lparr>ow_owners = [Owner_Connection], ow_session = pc_session c, ow_drops = 0\<rparr>" .
  have "owner_reachable texts0 runtime1 config0 (release_owner (engine_runtime texts0 runtime1) Owner_Connection
      \<lparr>ow_owners = [Owner_Connection], ow_session = pc_session c, ow_drops = 0\<rparr>)"
    by (rule owner_reachable.step [OF start owner_step.release]) simp
  from session_released_once [OF this] session_released_once [OF start] show ?thesis
    by (auto simp: release_owner_def Let_def intro: exI [of _ "pc_session c"])
qed

end
