(* ===== verification/Event_Wait.thy ===== *)
theory Event_Wait
  imports Events
begin

text \<open>
  The blocking receives of \<open>src/src/protocol/events.rs\<close>: \<open>delivery_timeout\<close> and the operations over it
  (\<open>recv_delivery\<close>, \<open>recv\<close>, \<open>recv_timeout\<close>). Other threads and the clock go on while the receiver runs:
  what they do is a list of actions for each stretch between two accesses of the channel, and the
  wait goes through such a list until a queue is ready or its time is over. A run that is not over yet
  is \<open>Blocked\<close> in the wait, or \<open>Looping\<close> when the given rounds are used up.
\<close>

datatype wait_action =
  Sends u64 callback_event
| Sends_Late u64 callback_event \<comment> \<open>the unlocked check was done earlier\<close>
| Changes u64 \<comment> \<open>\<open>set_generation\<close>\<close>
| Takes \<comment> \<open>another thread's \<open>try_recv\<close>\<close>
| Leaves \<comment> \<open>the last sender is dropped\<close>
| Passes nat \<comment> \<open>time, in nanoseconds\<close>

type_synonym world = "instant \<times> event_bus"

fun act :: "layout \<Rightarrow> wait_action \<Rightarrow> world \<Rightarrow> world" where
  "act L (Sends g ev) (t, b) = (t, if eb_senders b then snd (try_send L g ev b) else b)"
| "act L (Sends_Late g ev) (t, b) = (t, if eb_senders b then snd (try_send_locked L g ev b) else b)"
| "act L (Changes g) (t, b) = (t, set_generation g b)"
| "act L Takes (t, b) = (t, snd (try_recv b))"
| "act L Leaves (t, b) = (t, b\<lparr>eb_senders := False\<rparr>)"
| "act L (Passes n) (t, b) = (t + n, b)"

definition acts :: "layout \<Rightarrow> wait_action list \<Rightarrow> world \<Rightarrow> world" where
  "acts L as w = fold (act L) as w"

datatype wait_error = Wait_Timeout | Wait_Disconnected

datatype 'a wait_outcome = Returned "wait_error + 'a" | Blocked | Looping

text \<open>\<open>select_biased!\<close> with its default branch: the first moment at which a queue is ready, or the
  expiry. Nothing is returned while neither has come.\<close>

fun select_wait :: "layout \<Rightarrow> instant option \<Rightarrow> wait_action list \<Rightarrow> world \<Rightarrow> (wait_error + delivery) option \<times> world" where
  "select_wait L expiry as (t, b) =
     (case select_ready b of
        Some (Inr (d, b')) \<Rightarrow> (Some (Inr d), (t, b'))
      | Some (Inl _) \<Rightarrow> (Some (Inl Wait_Disconnected), (t, b))
      | None \<Rightarrow>
          if (case expiry of None \<Rightarrow> False | Some e \<Rightarrow> e \<le> t) then (Some (Inl Wait_Timeout), (t, b))
          else case as of [] \<Rightarrow> (None, (t, b)) | a # rest \<Rightarrow> select_wait L expiry rest (act L a (t, b)))"

declare select_wait.simps [simp del]

text \<open>The stretches of one round of the loop: before the clock is read, before the selection starts, during it,
  and before the delivery's generation is checked.\<close>

record wait_round =
  wr_before :: "wait_action list"
  wr_start :: "wait_action list"
  wr_wait :: "wait_action list"
  wr_after :: "wait_action list"

fun delivery_timeout :: "layout \<Rightarrow> instant option \<Rightarrow> wait_round list \<Rightarrow> world \<Rightarrow> delivery wait_outcome \<times> world" where
  "delivery_timeout L deadline [] w = (Looping, w)"
| "delivery_timeout L deadline (v # vs) (now, b) =
     (case try_delivery b of
        (Inr d, b1) \<Rightarrow> (Returned (Inr d), (now, b1))
      | (Inl RecvDisconnected, b1) \<Rightarrow> (Returned (Inl Wait_Disconnected), (now, b1))
      | (Inl RecvEmpty, b1) \<Rightarrow>
          (case acts L (wr_before v) (now, b1) of
             (read, b2) \<Rightarrow>
               let wait = map_option (\<lambda>d. d - read) deadline in
               if wait = Some 0 then (Returned (Inl Wait_Timeout), (read, b2))
               else case acts L (wr_start v) (read, b2) of
                 (start, b3) \<Rightarrow>
                   (case select_wait L (map_option (\<lambda>n. start + n) wait) (wr_wait v) (start, b3) of
                      (None, w) \<Rightarrow> (Blocked, w)
                    | (Some (Inl e), w) \<Rightarrow> (Returned (Inl e), w)
                    | (Some (Inr d), w) \<Rightarrow>
                        (case acts L (wr_after v) w of
                           (t, b4) \<Rightarrow>
                             if is_current b4 d then (Returned (Inr d), (t, b4))
                             else delivery_timeout L deadline vs (t, drop_delivery d b4)))))"

definition recv_delivery :: "layout \<Rightarrow> wait_round list \<Rightarrow> world \<Rightarrow> delivery wait_outcome \<times> world" where
  "recv_delivery L vs w = delivery_timeout L None vs w"

text \<open>\<open>recv\<close> and \<open>recv_timeout\<close> extract the event and drop the envelope; a result of \<open>None\<close> is the panic of
  \<open>take_event\<close>.\<close>

definition received :: "delivery wait_outcome \<times> world \<Rightarrow> callback_event option wait_outcome \<times> world" where
  "received r =
     (case r of
        (Returned (Inr d), (t, b)) \<Rightarrow> (Returned (Inr (d_event d)), (t, drop_delivery d b))
      | (Returned (Inl e), w) \<Rightarrow> (Returned (Inl e), w)
      | (Blocked, w) \<Rightarrow> (Blocked, w)
      | (Looping, w) \<Rightarrow> (Looping, w))"

definition recv :: "layout \<Rightarrow> wait_round list \<Rightarrow> world \<Rightarrow> callback_event option wait_outcome \<times> world" where
  "recv L vs w = received (recv_delivery L vs w)"

definition recv_timeout ::
  "layout \<Rightarrow> instant \<Rightarrow> nat \<Rightarrow> wait_round list \<Rightarrow> world \<Rightarrow> callback_event option wait_outcome \<times> world" where
  "recv_timeout L instant_max timeout vs w =
     received (delivery_timeout L (if fst w + timeout \<le> instant_max then Some (fst w + timeout) else None) vs w)"

section \<open>What the other threads can do\<close>

fun is_change :: "wait_action \<Rightarrow> bool" where
  "is_change (Changes g) = True"
| "is_change _ = False"

fun is_send :: "wait_action \<Rightarrow> bool" where
  "is_send (Sends g ev) = True"
| "is_send (Sends_Late g ev) = True"
| "is_send _ = False"

definition queued :: "event_bus \<Rightarrow> delivery set" where
  "queued b = set (eb_control b) \<union> set (eb_media b)"

lemma try_delivery_frame:
  "try_delivery b = (r, b') \<Longrightarrow>
     eb_current b' = eb_current b \<and> eb_senders b' = eb_senders b \<and> eb_receiver b' = eb_receiver b \<and> queued b' \<subseteq> queued b \<and>
     (isl r \<longrightarrow> queued b' = {} \<and> (projl r = RecvEmpty) = eb_senders b)"
proof (induction b rule: try_delivery.induct)
  case (1 b)
  from 1(3) show ?case
    using 1(1,2) by (subst (asm) try_delivery.simps) (auto simp: Let_def drop_queued_def queued_def split: list.splits if_splits; blast)
qed

lemma try_delivery_outstanding:
  "try_delivery b = (r, b') \<Longrightarrow> eb_outstanding b' = (case r of Inl _ \<Rightarrow> eb_outstanding b | Inr d \<Rightarrow> d # eb_outstanding b)"
  using try_delivery_receives [of b] by (auto simp: receive_spec_def split: list.splits sum.splits)

lemma try_recv_frame:
  "eb_current (snd (try_recv b)) = eb_current b" "eb_senders (snd (try_recv b)) = eb_senders b"
  "eb_receiver (snd (try_recv b)) = eb_receiver b" "queued (snd (try_recv b)) \<subseteq> queued b"
  "eb_outstanding (snd (try_recv b)) = eb_outstanding b"
proof -
  obtain r b' where td: "try_delivery b = (r, b')" by force
  have frame: "eb_current b' = eb_current b" "eb_senders b' = eb_senders b" "eb_receiver b' = eb_receiver b" "queued b' \<subseteq> queued b"
    using try_delivery_frame [OF td] by simp_all
  have same: "snd (try_recv b) = (case r of Inl _ \<Rightarrow> b' | Inr d \<Rightarrow> drop_delivery d b')"
    by (simp add: try_recv_def td split: sum.split)
  show "eb_current (snd (try_recv b)) = eb_current b" "eb_senders (snd (try_recv b)) = eb_senders b"
    "eb_receiver (snd (try_recv b)) = eb_receiver b" "queued (snd (try_recv b)) \<subseteq> queued b"
    "eb_outstanding (snd (try_recv b)) = eb_outstanding b"
    unfolding same using frame try_delivery_outstanding [OF td]
    by (simp_all add: drop_delivery_def queued_def split: sum.split)
qed

lemma locked_send_same:
  assumes "bus_reachable L b"
  shows "snd (try_send_locked L g ev b) = b \<or>
    (\<exists>d. snd (try_send_locked L g ev b) = enqueue d b \<and> d_generation d = eb_current b)"
proof -
  obtain c n where "event_size L ev = (c, n)" by force
  from try_send_locked_outcome [OF bus_reachable_inv [OF assms] this, of g] show ?thesis
    by (metis delivery.select_convs(2) snd_conv)
qed

lemma enqueue_frame [simp]:
  "eb_current (enqueue d b) = eb_current b" "eb_senders (enqueue d b) = eb_senders b" "eb_receiver (enqueue d b) = eb_receiver b"
  "eb_outstanding (enqueue d b) = eb_outstanding b" "queued (enqueue d b) = insert d (queued b)"
  by (auto simp: enqueue_def Let_def queued_def)

lemma locked_send_frame:
  assumes "bus_reachable L b"
  shows "eb_current (snd (try_send_locked L g ev b)) = eb_current b" "eb_senders (snd (try_send_locked L g ev b)) = eb_senders b"
    "eb_receiver (snd (try_send_locked L g ev b)) = eb_receiver b" "eb_outstanding (snd (try_send_locked L g ev b)) = eb_outstanding b"
    "d \<in> queued (snd (try_send_locked L g ev b)) \<Longrightarrow> d \<in> queued b \<or> d_generation d = eb_current b"
  using locked_send_same [OF assms, of g ev] by auto

lemma send_cases: "snd (try_send L g ev b) = b \<or> try_send L g ev b = try_send_locked L g ev b"
  by (simp add: try_send_def)

text \<open>The channel between two accesses: still of this run, time goes on, senders do not come back, and the
  receiver's own deliveries stay its own.\<close>

definition follows :: "layout \<Rightarrow> world \<Rightarrow> world \<Rightarrow> bool" where
  "follows L = (\<lambda>(t, b) (t', b'). bus_reachable L b' \<and> eb_receiver b' \<and> t \<le> t' \<and> eb_outstanding b' = eb_outstanding b)"

definition all_current :: "event_bus \<Rightarrow> bool" where
  "all_current b \<longleftrightarrow> (\<forall>d\<in>queued b. is_current b d)"

lemma act_follows:
  assumes "bus_reachable L b" "eb_receiver b"
  shows "follows L (t, b) (act L a (t, b))"
proof -
  have step: "bus_step L b b' \<Longrightarrow> bus_reachable L b'" for b' by (rule bus_reachable.step [OF assms(1)])
  show ?thesis
  proof (cases a)
    case (Sends g ev)
    then show ?thesis
      using assms step [OF bus_step.send] locked_send_frame(1-4) [OF assms(1), of g ev] send_cases [of L g ev b]
      by (auto simp: follows_def)
  next
    case (Sends_Late g ev)
    then show ?thesis
      using assms step [OF bus_step.send_late] locked_send_frame(1-4) [OF assms(1), of g ev] by (auto simp: follows_def)
  next
    case Takes
    then show ?thesis
      using assms step [OF bus_step.receive] try_recv_frame [of b] by (simp add: follows_def)
  qed (use assms step [OF bus_step.new_generation] step [OF bus_step.no_senders] in \<open>auto simp: follows_def set_generation_def\<close>)
qed

lemma locked_send_current:
  assumes "bus_reachable L b" "all_current b"
  shows "all_current (snd (try_send_locked L g ev b))"
  using assms(2) locked_send_frame(1) [OF assms(1)] locked_send_frame(5) [OF assms(1)]
  by (fastforce simp: all_current_def is_current_def)

lemma act_current:
  assumes "bus_reachable L b" "all_current b" "\<not> is_change a"
  shows "all_current (snd (act L a (t, b)))"
proof (cases a)
  case (Sends g ev)
  then show ?thesis using assms locked_send_current [OF assms(1,2), of g ev] send_cases [of L g ev b] by auto
next
  case (Sends_Late g ev)
  then show ?thesis using assms locked_send_current [OF assms(1,2), of g ev] by simp
next
  case Takes
  then show ?thesis using assms(2) try_recv_frame(1,4) [of b] by (auto simp: all_current_def is_current_def)
qed (use assms in \<open>auto simp: all_current_def is_current_def queued_def\<close>)

lemma act_empty: "queued b = {} \<Longrightarrow> \<not> is_send a \<Longrightarrow> queued (snd (act L a (t, b))) = {}"
  using try_recv_frame(4) [of b] by (cases a) (auto simp: queued_def set_generation_def)

lemma act_generation: "bus_reachable L b \<Longrightarrow> \<not> is_change a \<Longrightarrow> eb_current (snd (act L a (t, b))) = eb_current b"
  using send_cases [of L _ _ b] locked_send_frame(1) [of L b] try_recv_frame(1) [of b]
  by (cases a) (auto, metis)

lemma follows_trans: "follows L w w1 \<Longrightarrow> follows L w1 w2 \<Longrightarrow> follows L w w2"
  by (auto simp: follows_def)

lemma acts_follows:
  assumes "bus_reachable L b" "eb_receiver b"
  shows "follows L (t, b) (acts L as (t, b))"
  unfolding acts_def using assms
proof (induction as arbitrary: t b)
  case (Cons a as)
  obtain t1 b1 where a: "act L a (t, b) = (t1, b1)" by force
  have first: "follows L (t, b) (t1, b1)" using act_follows [OF Cons.prems, of t a] a by simp
  then have "follows L (t1, b1) (fold (act L) as (t1, b1))" by (intro Cons.IH) (simp_all add: follows_def)
  with first show ?case by (auto simp: a intro: follows_trans)
qed (simp add: follows_def)

lemma acts_unchanged:
  assumes "bus_reachable L b" "eb_receiver b" "\<not> list_ex is_change as"
  shows "eb_current (snd (acts L as (t, b))) = eb_current b \<and> (all_current b \<longrightarrow> all_current (snd (acts L as (t, b))))"
  unfolding acts_def using assms
proof (induction as arbitrary: t b)
  case (Cons a as)
  obtain t1 b1 where a: "act L a (t, b) = (t1, b1)" by force
  have "bus_reachable L b1" "eb_receiver b1" using act_follows [OF Cons.prems(1,2), of t a] a by (simp_all add: follows_def)
  from Cons.IH [OF this, of t1] show ?case
    using act_generation [OF Cons.prems(1), of a t] act_current [OF Cons.prems(1), of a t] Cons.prems(3) by (simp add: a)
qed simp

lemma acts_unsent:
  "queued b = {} \<Longrightarrow> \<not> list_ex is_send as \<Longrightarrow> queued (snd (acts L as (t, b))) = {}"
  unfolding acts_def
proof (induction as arbitrary: t b)
  case (Cons a as)
  then show ?case using act_empty [of b a L t] by (cases "act L a (t, b)") auto
qed simp

section \<open>The wait\<close>

definition selected :: "layout \<Rightarrow> instant option \<Rightarrow> wait_action list \<Rightarrow> world \<Rightarrow> (wait_error + delivery) option \<Rightarrow> world \<Rightarrow> bool" where
  "selected L expiry as = (\<lambda>(t, b) r (t', b').
     bus_reachable L b' \<and> eb_receiver b' \<and> t \<le> t' \<and>
     (case r of
        None \<Rightarrow> queued b' = {} \<and> eb_senders b' \<and> (\<forall>e. expiry = Some e \<longrightarrow> t' < e)
      | Some (Inl Wait_Timeout) \<Rightarrow> \<exists>e. expiry = Some e \<and> e \<le> t'
      | Some (Inl Wait_Disconnected) \<Rightarrow> \<not> eb_senders b' \<and> eb_control b' = []
      | Some (Inr d) \<Rightarrow>
          eb_outstanding b' = d # eb_outstanding b \<and> d_event d \<noteq> None \<and>
          (all_current b \<and> \<not> list_ex is_change as \<longrightarrow> is_current b' d) \<and> (queued b = {} \<longrightarrow> list_ex is_send as)))"

lemma select_ready_taken:
  assumes "bus_reachable L b" "eb_receiver b" "select_ready b = Some (Inr (d, b'))"
  shows "bus_reachable L b'" "eb_receiver b'" "d \<in> queued b" "d_event d \<noteq> None" "eb_outstanding b' = d # eb_outstanding b"
    "is_current b' = is_current b"
proof -
  show "bus_reachable L b'" by (rule bus_reachable.step [OF assms(1) bus_step.select [OF assms(2,3)]])
  have taken: "eb_receiver b' = eb_receiver b" "d \<in> queued b" "eb_outstanding b' = d # eb_outstanding b" "is_current b' = is_current b"
    using assms(3) by (auto simp: select_ready_def queued_def split: list.splits if_splits)
  then show "eb_receiver b'" "d \<in> queued b" "eb_outstanding b' = d # eb_outstanding b" "is_current b' = is_current b"
    using assms(2) by simp_all
  show "d_event d \<noteq> None"
    using bus_reachable_inv [OF assms(1)] taken(2) by (auto simp: bus_inv_def sized_def held_def queued_def split: option.splits)
qed

lemma select_ready_none: "select_ready b = None \<Longrightarrow> queued b = {} \<and> eb_senders b"
  by (auto simp: select_ready_def queued_def split: list.splits if_splits)

lemma select_ready_gone: "select_ready b = Some (Inl u) \<Longrightarrow> \<not> eb_senders b \<and> eb_control b = []"
  by (auto simp: select_ready_def split: list.splits if_splits)

definition expired :: "instant option \<Rightarrow> instant \<Rightarrow> bool" where
  "expired expiry t = (case expiry of None \<Rightarrow> False | Some e \<Rightarrow> e \<le> t)"

lemma expired_iff: "expired expiry t \<longleftrightarrow> (\<exists>e. expiry = Some e \<and> e \<le> t)"
  by (auto simp: expired_def split: option.split)

lemma select_wait_cases:
  "select_ready b = Some (Inr (d, b')) \<Longrightarrow> select_wait L expiry as (t, b) = (Some (Inr d), (t, b'))"
  "select_ready b = Some (Inl u) \<Longrightarrow> select_wait L expiry as (t, b) = (Some (Inl Wait_Disconnected), (t, b))"
  "select_ready b = None \<Longrightarrow> expired expiry t \<Longrightarrow> select_wait L expiry as (t, b) = (Some (Inl Wait_Timeout), (t, b))"
  "select_ready b = None \<Longrightarrow> \<not> expired expiry t \<Longrightarrow> select_wait L expiry [] (t, b) = (None, (t, b))"
  "select_ready b = None \<Longrightarrow> \<not> expired expiry t \<Longrightarrow>
     select_wait L expiry (a # rest) (t, b) = select_wait L expiry rest (act L a (t, b))"
  by (simp_all add: select_wait.simps [of _ _ _ t b] expired_def)

lemma selected_now:
  assumes "bus_reachable L b" "eb_receiver b" "select_wait L expiry as (t, b) = (r, w)" "select_ready b \<noteq> None \<or> expired expiry t"
  shows "selected L expiry as (t, b) r w"
proof -
  consider (taken) d b' where "select_ready b = Some (Inr (d, b'))" | (gone) u where "select_ready b = Some (Inl u)"
    | (late) "select_ready b = None" "expired expiry t"
    using assms(4) by (metis option.exhaust sum.exhaust prod.exhaust)
  then show ?thesis
  proof cases
    case taken
    then show ?thesis
      using assms select_ready_taken [OF assms(1,2) taken] by (auto simp: select_wait_cases selected_def all_current_def)
  next
    case gone
    then show ?thesis using assms select_ready_gone [OF gone] by (auto simp: select_wait_cases selected_def)
  next
    case late
    then show ?thesis using assms by (auto simp: select_wait_cases selected_def expired_iff)
  qed
qed

lemma select_wait_selected:
  "bus_reachable L b \<Longrightarrow> eb_receiver b \<Longrightarrow> select_wait L expiry as (t, b) = (r, w) \<Longrightarrow> selected L expiry as (t, b) r w"
proof (induction as arbitrary: t b)
  case Nil
  then show ?case
    using selected_now [OF Nil] select_ready_none [of b]
    by (cases "select_ready b = None \<and> \<not> expired expiry t") (auto simp: select_wait_cases selected_def expired_iff not_le)
next
  case (Cons a as)
  show ?case
  proof (cases "select_ready b = None \<and> \<not> expired expiry t")
    case True
    obtain t1 b1 where a: "act L a (t, b) = (t1, b1)" by force
    have first: "bus_reachable L b1" "eb_receiver b1" "t \<le> t1" "eb_outstanding b1 = eb_outstanding b"
      using act_follows [OF Cons.prems(1,2), of t a] a by (simp_all add: follows_def)
    have "selected L expiry as (t1, b1) r w"
      using Cons.prems(3) True a by (intro Cons.IH first) (simp add: select_wait_cases)
    then show ?thesis
      using first act_current [OF Cons.prems(1), of a t] act_empty [of b a L t]
      by (cases w) (auto simp: selected_def a split: option.splits sum.splits wait_error.splits)
  qed (use selected_now [OF Cons.prems] in auto)
qed

section \<open>The loop\<close>

definition delay :: "wait_action list \<Rightarrow> nat" where
  "delay as = sum_list (map (\<lambda>a. case a of Passes n \<Rightarrow> n | _ \<Rightarrow> 0) as)"

lemma acts_time: "fst (acts L as (t, b)) = t + delay as"
  unfolding acts_def
proof (induction as arbitrary: t b)
  case (Cons a as)
  then show ?case by (cases a) (simp_all add: delay_def)
qed (simp add: delay_def)

definition eventful :: "wait_round \<Rightarrow> bool" where
  "eventful v \<longleftrightarrow> list_ex is_change (wr_before v @ wr_start v @ wr_wait v @ wr_after v) \<and>
     list_ex is_send (wr_before v @ wr_start v @ wr_wait v)"

definition waited :: "layout \<Rightarrow> instant option \<Rightarrow> wait_round list \<Rightarrow> world \<Rightarrow> delivery wait_outcome \<times> world \<Rightarrow> bool" where
  "waited L deadline vs = (\<lambda>(now, b) (out, (t, b')).
     bus_reachable L b' \<and> eb_receiver b' \<and> now \<le> t \<and>
     (case out of
        Returned (Inr d) \<Rightarrow> is_current b' d \<and> d_event d \<noteq> None \<and> eb_outstanding b' = d # eb_outstanding b
      | Returned (Inl Wait_Timeout) \<Rightarrow> \<exists>dl. deadline = Some dl \<and> dl \<le> t
      | Returned (Inl Wait_Disconnected) \<Rightarrow> \<not> eb_senders b' \<and> eb_control b' = []
      | Blocked \<Rightarrow> queued b' = {} \<and> eb_senders b' \<and> (\<forall>dl. deadline = Some dl \<longrightarrow> (\<exists>v\<in>set vs. t < dl + delay (wr_start v)))
      | Looping \<Rightarrow> list_all eventful vs))"

text \<open>One round up to the selection: the queues were empty when it began.\<close>

lemma round_selected:
  assumes "bus_reachable L b" "eb_receiver b" "try_delivery b = (Inl RecvEmpty, b1)" "acts L (wr_before v) (now, b1) = (read, b2)"
  shows "bus_reachable L b2" "eb_receiver b2" "now \<le> read" "eb_outstanding b2 = eb_outstanding b"
    "acts L (wr_start v) (read, b2) = (start, b3) \<Longrightarrow> select_wait L expiry (wr_wait v) (start, b3) = (r, w) \<Longrightarrow>
       read \<le> start \<and> eb_outstanding b3 = eb_outstanding b \<and> selected L expiry (wr_wait v) (start, b3) r w \<and>
       (\<not> list_ex is_change (wr_before v @ wr_start v) \<longrightarrow> all_current b3) \<and>
       (\<not> list_ex is_send (wr_before v @ wr_start v) \<longrightarrow> queued b3 = {})"
proof -
  have one: "bus_reachable L b1" "eb_receiver b1" "eb_outstanding b1 = eb_outstanding b" "queued b1 = {}"
    using bus_reachable.step [OF assms(1) bus_step.deliver [OF assms(2)]] assms(2) try_delivery_frame [OF assms(3)]
      try_delivery_outstanding [OF assms(3)] by (simp_all add: assms(3))
  have two: "follows L (now, b1) (read, b2)" using acts_follows [OF one(1,2), of now "wr_before v"] assms(4) by simp
  then show reach: "bus_reachable L b2" "eb_receiver b2" and "now \<le> read" and out: "eb_outstanding b2 = eb_outstanding b"
    using one by (simp_all add: follows_def)
  assume start: "acts L (wr_start v) (read, b2) = (start, b3)" and sel: "select_wait L expiry (wr_wait v) (start, b3) = (r, w)"
  have three: "follows L (read, b2) (start, b3)" using acts_follows [OF reach, of read "wr_start v"] start by simp
  have "all_current b1" using one by (simp add: all_current_def)
  then have "\<not> list_ex is_change (wr_before v @ wr_start v) \<longrightarrow> all_current b3"
    using acts_unchanged [OF one(1,2), of "wr_before v" now] acts_unchanged [OF reach, of "wr_start v" read] assms(4) start by simp
  moreover have "\<not> list_ex is_send (wr_before v @ wr_start v) \<longrightarrow> queued b3 = {}"
    using acts_unsent [OF one(4), of "wr_before v" L now] acts_unsent [of b2 "wr_start v" L read] assms(4) start by simp
  moreover have "selected L expiry (wr_wait v) (start, b3) r w"
    using three by (intro select_wait_selected sel) (simp_all add: follows_def)
  ultimately show "read \<le> start \<and> eb_outstanding b3 = eb_outstanding b \<and> selected L expiry (wr_wait v) (start, b3) r w \<and>
       (\<not> list_ex is_change (wr_before v @ wr_start v) \<longrightarrow> all_current b3) \<and>
       (\<not> list_ex is_send (wr_before v @ wr_start v) \<longrightarrow> queued b3 = {})"
    using three out by (simp add: follows_def)
qed

lemma try_delivery_waited:
  assumes "bus_reachable L b" "eb_receiver b" "try_delivery b = (r, b1)"
  shows "bus_reachable L b1" "eb_receiver b1" "r = Inr d \<Longrightarrow> is_current b1 d \<and> d_event d \<noteq> None \<and> eb_outstanding b1 = d # eb_outstanding b"
    "r = Inl e \<Longrightarrow> eb_control b1 = [] \<and> eb_senders b1 = (e = RecvEmpty)"
proof -
  note frame = try_delivery_frame [OF assms(3)] try_delivery_outstanding [OF assms(3)]
  show "bus_reachable L b1" "eb_receiver b1"
    using bus_reachable.step [OF assms(1) bus_step.deliver [OF assms(2)]] frame assms(2,3) by simp_all
  have head: "d \<in> set (live b)" if "r = Inr d"
    using try_delivery_receives [of b] assms(3) that by (auto simp: receive_spec_def split: list.splits)
  have "d_event d \<noteq> None \<and> is_current b d" if "r = Inr d"
    using head [OF that] bus_reachable_inv [OF assms(1)]
    by (auto simp: live_def bus_inv_def sized_def held_def split: option.splits)
  then show "r = Inr d \<Longrightarrow> is_current b1 d \<and> d_event d \<noteq> None \<and> eb_outstanding b1 = d # eb_outstanding b"
    using frame by (simp add: is_current_def)
  show "r = Inl e \<Longrightarrow> eb_control b1 = [] \<and> eb_senders b1 = (e = RecvEmpty)"
    using frame by (auto simp: queued_def)
qed

text \<open>A stale delivery is given back and the loop goes on: only if an event arrived and the session changed.\<close>

lemma stale_round:
  assumes "bus_reachable L b" "eb_receiver b" "try_delivery b = (Inl RecvEmpty, b1)" "acts L (wr_before v) (now, b1) = (read, b2)"
    and "acts L (wr_start v) (read, b2) = (start, b3)" "select_wait L expiry (wr_wait v) (start, b3) = (Some (Inr d), (t4, b4))"
    and "acts L (wr_after v) (t4, b4) = (t, b5)"
  shows "bus_reachable L b5" "eb_receiver b5" "now \<le> t" "eb_outstanding b5 = d # eb_outstanding b" "d_event d \<noteq> None"
    "\<not> is_current b5 d \<Longrightarrow> eventful v"
    "bus_reachable L (drop_delivery d b5)" "eb_receiver (drop_delivery d b5)" "eb_outstanding (drop_delivery d b5) = eb_outstanding b"
proof -
  note round = round_selected [OF assms(1-4)]
  note sel = round(5) [OF assms(5,6)]
  have four: "bus_reachable L b4" "eb_receiver b4" "start \<le> t4" "eb_outstanding b4 = d # eb_outstanding b" "d_event d \<noteq> None"
    using sel by (simp_all add: selected_def)
  have five: "follows L (t4, b4) (t, b5)" using acts_follows [OF four(1,2), of t4 "wr_after v"] assms(7) by simp
  show reach: "bus_reachable L b5" "eb_receiver b5" "now \<le> t" "eb_outstanding b5 = d # eb_outstanding b" "d_event d \<noteq> None"
    using five four round(3) sel [THEN conjunct1] by (simp_all add: follows_def)
  show "bus_reachable L (drop_delivery d b5)"
    using reach(4) by (intro bus_reachable.step [OF reach(1)] bus_step.finish) simp
  show "eb_receiver (drop_delivery d b5)" "eb_outstanding (drop_delivery d b5) = eb_outstanding b"
    using reach by (simp_all add: drop_delivery_def)
  show "eventful v" if "\<not> is_current b5 d"
    using that sel acts_unchanged [OF four(1,2), of "wr_after v" t4] assms(7)
    by (auto simp: eventful_def selected_def is_current_def)
qed

lemma round_outcome:
  assumes "try_delivery b = (Inl RecvEmpty, b1)" "acts L (wr_before v) (now, b1) = (read, b2)"
    and "acts L (wr_start v) (read, b2) = (start, b3)"
    and "select_wait L (map_option (\<lambda>d. start + (d - read)) deadline) (wr_wait v) (start, b3) = (r, w)"
  shows "delivery_timeout L deadline (v # vs) (now, b) =
    (if expired deadline read then (Returned (Inl Wait_Timeout), (read, b2))
     else case r of
       None \<Rightarrow> (Blocked, w)
     | Some (Inl e) \<Rightarrow> (Returned (Inl e), w)
     | Some (Inr d) \<Rightarrow>
         (case acts L (wr_after v) w of
            (t, b4) \<Rightarrow>
              if is_current b4 d then (Returned (Inr d), (t, b4)) else delivery_timeout L deadline vs (t, drop_delivery d b4)))"
proof -
  have "(map_option (\<lambda>d. d - read) deadline = Some 0) = expired deadline read"
    by (auto simp: expired_def split: option.split)
  moreover have "map_option (\<lambda>n. start + n) (map_option (\<lambda>d. d - read) deadline) = map_option (\<lambda>d. start + (d - read)) deadline"
    by (simp add: option.map_comp comp_def)
  ultimately show ?thesis using assms by (simp add: Let_def)
qed

lemma delivery_timeout_waited:
  "bus_reachable L b \<Longrightarrow> eb_receiver b \<Longrightarrow> waited L deadline vs (now, b) (delivery_timeout L deadline vs (now, b))"
proof (induction vs arbitrary: now b)
  case Nil
  then show ?case by (simp add: waited_def)
next
  case (Cons v vs)
  note reach = Cons.prems
  obtain r b1 where td: "try_delivery b = (r, b1)" by force
  note tried = try_delivery_waited [OF reach td]
  show ?case
  proof (cases "r = Inl RecvEmpty")
    case False
    then show ?thesis
      using tried td by (cases r; cases "projl r") (auto simp: waited_def)
  next
    case True
    with td have td: "try_delivery b = (Inl RecvEmpty, b1)" by simp
    obtain read b2 where before: "acts L (wr_before v) (now, b1) = (read, b2)" by force
    obtain start b3 where start: "acts L (wr_start v) (read, b2) = (start, b3)" by force
    obtain r t4 b4 where sel: "select_wait L (map_option (\<lambda>d. start + (d - read)) deadline) (wr_wait v) (start, b3) = (r, (t4, b4))"
      by (metis surj_pair)
    obtain t b5 where after: "acts L (wr_after v) (t4, b4) = (t, b5)" by force
    note round = round_selected [OF reach td before]
    note picked = round(5) [OF start sel]
    note outcome = round_outcome [OF td before start sel, of vs]
    show ?thesis
    proof (cases "expired deadline read")
      case True
      then show ?thesis using round(1-3) unfolding outcome by (auto simp: waited_def expired_iff)
    next
      case time: False
      have late: "start = read + delay (wr_start v)" using acts_time [of L "wr_start v" read b2] start by simp
      show ?thesis
      proof (cases "\<exists>d. r = Some (Inr d)")
        case True
        then obtain d where r: "r = Some (Inr d)" by blast
        note stale = stale_round [OF reach td before start sel [unfolded r] after]
        show ?thesis
        proof (cases "is_current b5 d")
          case True
          then show ?thesis using stale time unfolding outcome by (simp add: waited_def r after)
        next
          case False
          have "waited L deadline vs (t, drop_delivery d b5) (delivery_timeout L deadline vs (t, drop_delivery d b5))"
            by (rule Cons.IH) (use stale in auto)
          then have "waited L deadline (v # vs) (now, b) (delivery_timeout L deadline vs (t, drop_delivery d b5))"
            using stale False by (auto simp: waited_def split: wait_outcome.splits sum.splits wait_error.splits)
          then show ?thesis using False time unfolding outcome by (simp add: r after)
        qed
      next
        case False
        then show ?thesis
          using picked round(3) late time unfolding outcome
          by (auto simp: waited_def selected_def expired_iff split: option.splits sum.splits wait_error.splits)
      qed
    qed
  qed
qed

section \<open>Properties\<close>

text \<open>
  Property C16. A blocking receive, whatever the other threads and the clock do meanwhile: what it returns is an event
  of the session that is current at that moment, oldest first if one was there from the start; it reports a timeout
  only with a deadline and never before it, and the end of the channel only if no sender and no control event is left;
  it sleeps only while both queues are empty, a sender exists and the deadline (counted from where the selection starts) has
  not come; and it goes round again only if in this very round an event arrived and the session changed, so that it
  cannot spin. The channel stays within its budgets throughout.
\<close>

theorem blocking_receive_exact:
  assumes "bus_reachable L b" "eb_receiver b" "delivery_timeout L deadline vs (now, b) = (out, (t, b'))"
  shows "bus_reachable L b' \<and> now \<le> t \<and>
    (case out of
       Returned (Inr d) \<Rightarrow> is_current b' d \<and> d_event d \<noteq> None \<and> eb_outstanding b' = d # eb_outstanding b
     | Returned (Inl Wait_Timeout) \<Rightarrow> \<exists>dl. deadline = Some dl \<and> dl \<le> t
     | Returned (Inl Wait_Disconnected) \<Rightarrow> \<not> eb_senders b' \<and> eb_control b' = []
     | Blocked \<Rightarrow> eb_control b' = [] \<and> eb_media b' = [] \<and> eb_senders b' \<and>
         (\<forall>dl. deadline = Some dl \<longrightarrow> (\<exists>v\<in>set vs. t < dl + delay (wr_start v)))
     | Looping \<Rightarrow> \<forall>v\<in>set vs. list_ex is_change (wr_before v @ wr_start v @ wr_wait v @ wr_after v) \<and>
         list_ex is_send (wr_before v @ wr_start v @ wr_wait v)) \<and>
    (vs \<noteq> [] \<and> live b \<noteq> [] \<longrightarrow> out = Returned (Inr (hd (live b))) \<and> t = now \<and> live b' = tl (live b))"
proof -
  have first: "out = Returned (Inr (hd (live b))) \<and> t = now \<and> live b' = tl (live b)" if some: "vs \<noteq> []" "live b \<noteq> []"
  proof -
    obtain v ws where vs: "vs = v # ws" using some(1) by (cases vs) auto
    obtain b1 where "try_delivery b = (Inr (hd (live b)), b1)" "live b1 = tl (live b)"
      using try_delivery_receives [of b] some(2) by (cases "try_delivery b") (auto simp: receive_spec_def split: list.splits)
    then show ?thesis using assms(3) by (auto simp: vs)
  qed
  have "waited L deadline vs (now, b) (out, (t, b'))"
    using delivery_timeout_waited [OF assms(1,2), of deadline vs now] assms(3) by simp
  then have "bus_reachable L b' \<and> now \<le> t \<and>
    (case out of
       Returned (Inr d) \<Rightarrow> is_current b' d \<and> d_event d \<noteq> None \<and> eb_outstanding b' = d # eb_outstanding b
     | Returned (Inl Wait_Timeout) \<Rightarrow> \<exists>dl. deadline = Some dl \<and> dl \<le> t
     | Returned (Inl Wait_Disconnected) \<Rightarrow> \<not> eb_senders b' \<and> eb_control b' = []
     | Blocked \<Rightarrow> eb_control b' = [] \<and> eb_media b' = [] \<and> eb_senders b' \<and>
         (\<forall>dl. deadline = Some dl \<longrightarrow> (\<exists>v\<in>set vs. t < dl + delay (wr_start v)))
     | Looping \<Rightarrow> \<forall>v\<in>set vs. list_ex is_change (wr_before v @ wr_start v @ wr_wait v @ wr_after v) \<and>
         list_ex is_send (wr_before v @ wr_start v @ wr_wait v))"
    by (cases out) (auto simp: waited_def queued_def list_all_iff eventful_def split: sum.splits wait_error.splits)
  with first show ?thesis by blast
qed

definition late_send :: wait_round where
  "late_send = \<lparr>wr_before = [Passes 3], wr_start = [], wr_wait = [Passes 1, Sends 0 (VideoFrame [1, 2, 3] 1 1)], wr_after = []\<rparr>"

theorem blocking_receive_exact_witness:
  "\<exists>d b'. delivery_timeout layout64 (Some 9) [late_send] (0, bus0) = (Returned (Inr d), (4, b')) \<and> is_current b' d \<and>
     d_event d = Some (VideoFrame [1, 2, 3] 1 1)"
proof -
  have empty: "try_delivery bus0 = (Inl RecvEmpty, bus0)" by (simp add: try_delivery.simps bus0_def)
  have sent: "act layout64 (Sends 0 (VideoFrame [1, 2, 3] 1 1)) (t, bus0) = (t, bus1)" for t
    by (simp add: bus1_def bus0_def)
  have ready: "select_ready bus0 = None" by (simp add: select_ready_def bus0_def)
  let ?frame = "VideoFrame [1, 2, 3] 1 1"
  have "\<exists>d b'. select_ready bus1 = Some (Inr (d, b')) \<and> d_event d = Some ?frame \<and> is_current b' d"
    by (simp add: bus1_value select_ready_def is_current_def)
  then obtain d b' where taken: "select_ready bus1 = Some (Inr (d, b'))" and event: "d_event d = Some ?frame" and cur: "is_current b' d"
    by blast
  have wait: "select_wait layout64 (Some 9) [Passes 1, Sends 0 ?frame] (3, bus0) = (Some (Inr d), (4, b'))"
    by (simp add: select_wait_cases ready expired_def sent taken del: act.simps(1) One_nat_def)
  have run: "delivery_timeout layout64 (Some 9) [late_send] (0, bus0) = (Returned (Inr d), (4, b'))"
    using round_outcome [of bus0 bus0 layout64 late_send 0 3 bus0 3 bus0 "Some 9" "Some (Inr d)" "(4, b')" "[]"] wait cur
    by (simp add: late_send_def empty acts_def expired_def del: delivery_timeout.simps)
  moreover have "eb_receiver bus0" by (simp add: bus0_def)
  ultimately show ?thesis using blocking_receive_exact [OF bus0_reachable _ run] event run by auto
qed

text \<open>
  The last media event can be lost. If the queues are empty, and a media event is accepted and the last sender
  goes away before the selection starts, the receive reports the end of the channel, since the control queue is
  ready first by having ended, although the channel still holds the event: a \<open>try_recv\<close> would return it.
\<close>

theorem last_media_lost:
  assumes "bus_reachable L b" "eb_receiver b" "eb_senders b" "queued b = {}" "event_size L ev = (1, n)" "\<not> exceeds 1 n b"
  shows "\<exists>b'. recv_delivery L [\<lparr>wr_before = [Sends (eb_current b) ev, Leaves], wr_start = [], wr_wait = [], wr_after = []\<rparr>] (now, b) =
      (Returned (Inl Wait_Disconnected), (now, b')) \<and> fst (try_recv b') = Inr (Some ev)"
proof -
  let ?d = "\<lparr>d_event = Some ev, d_generation = eb_current b, d_class = 1, d_bytes = n\<rparr>"
  let ?b = "(enqueue ?d b)\<lparr>eb_senders := False\<rparr>"
  have sent: "try_send L (eb_current b) ev b = (Inr (), enqueue ?d b)"
    using event_send_exact [OF assms(1,5), of "eb_current b"] assms(2,6) by simp
  have empty: "eb_control b = []" "eb_media b = []" using assms(4) by (simp_all add: queued_def)
  have "try_delivery b = (Inl RecvEmpty, b)" by (simp add: try_delivery.simps [of b] empty assms(3))
  moreover have "select_ready ?b = Some (Inl ())" by (simp add: select_ready_def enqueue_def empty)
  moreover have "fst (try_recv ?b) = Inr (Some ev)"
    by (simp add: try_recv_def enqueue_def empty is_current_def try_delivery.simps)
  ultimately show ?thesis
    using assms(3) sent by (simp add: recv_delivery_def acts_def select_wait_cases)
qed

theorem last_media_lost_witness:
  "\<exists>b'. recv_delivery layout64 [\<lparr>wr_before = [Sends 0 (VideoFrame [1, 2, 3] 1 1), Leaves], wr_start = [], wr_wait = [], wr_after = []\<rparr>] (7, bus0) =
      (Returned (Inl Wait_Disconnected), (7, b')) \<and> fst (try_recv b') = Inr (Some (VideoFrame [1, 2, 3] 1 1))"
  using last_media_lost [OF bus0_reachable, of layout64 "VideoFrame [1, 2, 3] 1 1" 67 7]
  by (simp add: bus0_def queued_def layout64_def sat_add_def usize_max_def exceeds_def held_def charge_def number_def byte_limit_def
      count_limit_def policy_defs)

end
