(* ===== verification/H264.thy ===== *)
theory H264
  imports Transport_Prelude
begin

unbundle bit_operations_syntax

text \<open>
  \<open>src/src/video/h264_rtp.rs\<close>, the RTP depacketizer for H.264 (single NAL units and FU-A
  fragments). The struct is a record; \<open>process_payload\<close> returns the finished NAL unit, if any, and
  the updated struct. Sequence numbers are 16-bit words with the source's wrapping arithmetic.
\<close>

definition FU_A_TYPE :: u8 where [policy_defs]: "FU_A_TYPE = 28"
definition MAX_NAL_BYTES :: nat where [policy_defs]: "MAX_NAL_BYTES = 8 * 1024 * 1024"

record reassembler =
  r_buffer :: bytes
  r_in_progress :: bool
  r_next_rtp :: "(u16 \<times> u32) option"

definition h264_new :: reassembler where
  "h264_new = \<lparr>r_buffer = [], r_in_progress = False, r_next_rtp = None\<rparr>"

definition h264_reset :: "reassembler \<Rightarrow> reassembler" where
  "h264_reset r = r\<lparr>r_buffer := [], r_in_progress := False, r_next_rtp := None\<rparr>"

definition stale_start :: "(u16 \<times> u32) option \<Rightarrow> (u16 \<times> u32) option \<Rightarrow> bool" where
  "stale_start rtp next_rtp =
     (case (rtp, next_rtp) of
        (Some (sequence, _), Some (next_sequence, _)) \<Rightarrow> sequence - next_sequence \<ge> 0x8000
      | _ \<Rightarrow> False)"

text \<open>The part of \<open>process_payload\<close> after the payload is known to be an FU-A fragment.\<close>

definition process_fu_a :: "u8 \<Rightarrow> u8 \<Rightarrow> bytes \<Rightarrow> (u16 \<times> u32) option \<Rightarrow> reassembler \<Rightarrow> bytes option \<times> reassembler" where
  "process_fu_a p0 fu_header body rtp r =
     (let start = fu_header AND 0x80 \<noteq> 0; end_bit = fu_header AND 0x40 \<noteq> 0; unit_type = fu_header AND 0x1f in
      if (start \<and> end_bit) \<or> fu_header AND 0x20 \<noteq> 0 \<or> \<not> (1 \<le> unit_type \<and> unit_type \<le> 23)
      then (None, h264_reset r)
      else let header = (p0 AND 0x60) OR unit_type in
      if \<not> start \<and> r_next_rtp r \<noteq> rtp then (None, h264_reset r)
      else if start \<and> stale_start rtp (r_next_rtp r) then (None, h264_reset r)
      else if \<not> start \<and> (\<not> r_in_progress r \<or> (case r_buffer r of [] \<Rightarrow> True | h # _ \<Rightarrow> h \<noteq> header))
      then (None, h264_reset r)
      else let r1 = (if start then (h264_reset r)\<lparr>r_buffer := [header], r_in_progress := True\<rparr> else r) in
      if length body > MAX_NAL_BYTES - length (r_buffer r1) then (None, h264_reset r1)
      else let r2 = r1\<lparr>r_buffer := r_buffer r1 @ body,
                       r_next_rtp := map_option (\<lambda>(sequence, timestamp). (sequence + 1, timestamp)) rtp\<rparr> in
      if \<not> end_bit then (None, r2)
      else (Some (r_buffer r2), r2\<lparr>r_in_progress := False, r_next_rtp := None, r_buffer := []\<rparr>))"

definition process_payload :: "bytes \<Rightarrow> (u16 \<times> u32) option \<Rightarrow> reassembler \<Rightarrow> bytes option \<times> reassembler" where
  "process_payload payload rtp r =
     (case payload of
        [] \<Rightarrow> (None, h264_reset r)
      | p0 # rest \<Rightarrow>
          if length payload > MAX_NAL_BYTES \<or> p0 AND 0x80 \<noteq> 0 then (None, h264_reset r)
          else let nal_type = p0 AND 0x1f in
          if nal_type \<noteq> FU_A_TYPE
          then (if 1 \<le> nal_type \<and> nal_type \<le> 23 then Some payload else None, h264_reset r)
          else (case rest of
                  [] \<Rightarrow> (None, h264_reset r)
                | fu_header # body \<Rightarrow> process_fu_a p0 fu_header body rtp r))"

definition process_rtp_packet :: "bytes \<Rightarrow> u16 \<Rightarrow> u32 \<Rightarrow> reassembler \<Rightarrow> bytes option \<times> reassembler" where
  "process_rtp_packet payload sequence_number timestamp r =
     process_payload payload (Some (sequence_number, timestamp)) r"

definition process_packet :: "bytes \<Rightarrow> reassembler \<Rightarrow> bytes option \<times> reassembler" where
  "process_packet payload r = process_payload payload None r"

type_synonym rtp_packet = "bytes \<times> u16 \<times> u32"

fun process_all :: "rtp_packet list \<Rightarrow> reassembler \<Rightarrow> bytes option list \<times> reassembler" where
  "process_all [] r = ([], r)"
| "process_all ((payload, s, ts) # ps) r =
     (let (out, r1) = process_rtp_packet payload s ts r; (outs, r2) = process_all ps r1 in (out # outs, r2))"

section \<open>The sender's side (RFC 6184, FU-A)\<close>

definition nal_header :: "u8 \<Rightarrow> bool" where
  "nal_header h \<longleftrightarrow> h AND 0x80 = 0 \<and> 1 \<le> h AND 0x1f \<and> h AND 0x1f \<le> 23"

definition fu_payload :: "u8 \<Rightarrow> u8 \<Rightarrow> bytes \<Rightarrow> bytes" where
  "fu_payload h flag body = ((h AND 0x60) OR 28) # (flag OR (h AND 0x1f)) # body"

fun fu_middles :: "u8 \<Rightarrow> u16 \<Rightarrow> u32 \<Rightarrow> bytes list \<Rightarrow> rtp_packet list" where
  "fu_middles h s ts [] = []"
| "fu_middles h s ts (b # bs) = (fu_payload h 0 b, s, ts) # fu_middles h (s + 1) ts bs"

definition fu_open :: "u8 \<Rightarrow> u16 \<Rightarrow> u32 \<Rightarrow> bytes \<Rightarrow> bytes list \<Rightarrow> rtp_packet list" where
  "fu_open h s ts b bs = (fu_payload h 0x80 b, s, ts) # fu_middles h (s + 1) ts bs"

definition fu_packets :: "u8 \<Rightarrow> u16 \<Rightarrow> u32 \<Rightarrow> bytes \<Rightarrow> bytes list \<Rightarrow> bytes \<Rightarrow> rtp_packet list" where
  "fu_packets h s ts b bs e =
     fu_open h s ts b bs @ [(fu_payload h 0x40 e, s + 1 + of_nat (length bs), ts)]"

section \<open>Bits of the two header bytes\<close>

lemma byte_parts:
  fixes p :: u8
  shows "p = (p AND 0x80) OR (p AND 0x40) OR (p AND 0x20) OR (p AND 0x1f)"
proof -
  have "(0x80 OR 0x40 OR 0x20 OR 0x1f :: u8) = - 1" by simp
  then show ?thesis by (metis and.right_neutral bit.conj_disj_distrib)
qed

lemma byte_parts3:
  fixes p :: u8
  shows "p = (p AND 0x80) OR (p AND 0x60) OR (p AND 0x1f)"
proof -
  have "(0x80 OR 0x60 OR 0x1f :: u8) = - 1" by simp
  then show ?thesis by (metis and.right_neutral bit.conj_disj_distrib)
qed

lemma indicator_bits:
  fixes h :: u8
  shows "((h AND 0x60) OR 28) AND 0x80 = 0" "((h AND 0x60) OR 28) AND 0x1f = 28"
    "((h AND 0x60) OR 28) AND 0x60 = h AND 0x60"
  by (simp_all add: bit.conj_disj_distrib2 and.assoc)

lemma fu_header_bits:
  fixes h :: u8
  shows "(0x80 OR (h AND 0x1f)) AND 0x80 = 0x80" "(0x80 OR (h AND 0x1f)) AND 0x40 = 0"
    "(0x80 OR (h AND 0x1f)) AND 0x20 = 0" "(0x80 OR (h AND 0x1f)) AND 0x1f = h AND 0x1f"
    "(0x40 OR (h AND 0x1f)) AND 0x80 = 0" "(0x40 OR (h AND 0x1f)) AND 0x40 = 0x40"
    "(0x40 OR (h AND 0x1f)) AND 0x20 = 0" "(0x40 OR (h AND 0x1f)) AND 0x1f = h AND 0x1f"
    "(h AND 0x1f) AND 0x80 = 0" "(h AND 0x1f) AND 0x40 = 0" "(h AND 0x1f) AND 0x20 = 0"
    "(h AND 0x1f) AND 0x1f = h AND 0x1f"
  by (simp_all add: bit.conj_disj_distrib2 and.assoc)

lemma header_rebuild: "nal_header h \<Longrightarrow> (h AND 0x60) OR (h AND 0x1f) = h"
  using byte_parts3 [of h] by (simp add: nal_header_def)

lemma header_of_parts:
  fixes p f :: u8
  assumes "1 \<le> f AND 0x1f" "f AND 0x1f \<le> 23"
  defines "h \<equiv> (p AND 0x60) OR (f AND 0x1f)"
  shows "nal_header h" and "h AND 0x60 = p AND 0x60" and "h AND 0x1f = f AND 0x1f"
  using assms(1,2) by (simp_all add: nal_header_def h_def bit.conj_disj_distrib2 and.assoc)

lemma payload_of_parts:
  fixes p f :: u8
  assumes p: "p AND 0x80 = 0" "p AND 0x1f = 28" and f: "f AND 0x20 = 0" "1 \<le> f AND 0x1f" "f AND 0x1f \<le> 23"
  shows "p # f # body = fu_payload ((p AND 0x60) OR (f AND 0x1f)) ((f AND 0x80) OR (f AND 0x40)) body"
  using byte_parts3 [of p] byte_parts [of f] p f header_of_parts [OF f(2,3), of p]
  by (simp add: fu_payload_def or.assoc)

lemma and_power_cases: "(f :: u8) AND 2 ^ n = 0 \<or> f AND 2 ^ n = 2 ^ n"
proof (cases "bit f n")
  case True
  have "f AND 2 ^ n = 2 ^ n"
    by (rule bit_word_eqI) (use True in \<open>auto simp: bit_and_iff bit_exp_iff\<close>)
  then show ?thesis ..
next
  case False
  have "f AND 2 ^ n = 0"
    by (rule bit_word_eqI) (use False in \<open>auto simp: bit_and_iff bit_exp_iff\<close>)
  then show ?thesis ..
qed

lemma flag_values:
  fixes f :: u8
  shows "f AND 0x80 = 0 \<or> f AND 0x80 = 0x80" and "f AND 0x40 = 0 \<or> f AND 0x40 = 0x40"
  using and_power_cases [of f 7] and_power_cases [of f 6] by simp_all

section \<open>One fragment\<close>

lemma start_fragment:
  assumes "nal_header h" "length b + 2 \<le> MAX_NAL_BYTES" "\<not> stale_start (Some (s, ts)) (r_next_rtp r)"
  shows "process_rtp_packet (fu_payload h 0x80 b) s ts r =
    (None, r\<lparr>r_buffer := h # b, r_in_progress := True, r_next_rtp := Some (s + 1, ts)\<rparr>)"
  using assms header_rebuild [OF assms(1)]
  by (simp add: process_rtp_packet_def process_payload_def process_fu_a_def fu_payload_def FU_A_TYPE_def
      indicator_bits fu_header_bits nal_header_def h264_reset_def Let_def not_less)

lemma middle_fragment:
  assumes "nal_header h" "length b + 2 \<le> MAX_NAL_BYTES" "1 + length x + length b \<le> MAX_NAL_BYTES"
    "r_in_progress r" "r_buffer r = h # x" "r_next_rtp r = Some (s, ts)"
  shows "process_rtp_packet (fu_payload h 0 b) s ts r =
    (None, r\<lparr>r_buffer := h # x @ b, r_next_rtp := Some (s + 1, ts)\<rparr>)"
  using assms header_rebuild [OF assms(1)]
  by (simp add: process_rtp_packet_def process_payload_def process_fu_a_def fu_payload_def FU_A_TYPE_def
      indicator_bits fu_header_bits nal_header_def h264_reset_def Let_def not_less)

lemma end_fragment:
  assumes "nal_header h" "length b + 2 \<le> MAX_NAL_BYTES" "1 + length x + length b \<le> MAX_NAL_BYTES"
    "r_in_progress r" "r_buffer r = h # x" "r_next_rtp r = Some (s, ts)"
  shows "process_rtp_packet (fu_payload h 0x40 b) s ts r = (Some (h # x @ b), h264_new)"
  using assms header_rebuild [OF assms(1)]
  by (cases r) (simp add: process_rtp_packet_def process_payload_def process_fu_a_def fu_payload_def
      FU_A_TYPE_def indicator_bits fu_header_bits nal_header_def h264_reset_def h264_new_def Let_def not_less)

lemma process_all_append:
  "process_all (ps @ qs) r =
     (let (os, r1) = process_all ps r; (os', r2) = process_all qs r1 in (os @ os', r2))"
  by (induction ps arbitrary: r) (auto split: prod.splits)

lemma middle_fragments:
  assumes "nal_header h" "\<forall>b\<in>set bs. length b + 2 \<le> MAX_NAL_BYTES"
    "1 + length x + length (concat bs) \<le> MAX_NAL_BYTES"
    "r_in_progress r" "r_buffer r = h # x" "r_next_rtp r = Some (s, ts)"
  shows "process_all (fu_middles h s ts bs) r =
    (replicate (length bs) None,
     r\<lparr>r_buffer := h # x @ concat bs, r_next_rtp := Some (s + of_nat (length bs), ts)\<rparr>)"
  using assms
proof (induction bs arbitrary: s x r)
  case Nil
  then show ?case by (cases r) simp
next
  case (Cons b bs)
  have "process_rtp_packet (fu_payload h 0 b) s ts r =
      (None, r\<lparr>r_buffer := h # x @ b, r_next_rtp := Some (s + 1, ts)\<rparr>)"
    using Cons.prems by (intro middle_fragment) auto
  with Cons.prems Cons.IH [of "x @ b" "r\<lparr>r_buffer := h # x @ b, r_next_rtp := Some (s + 1, ts)\<rparr>" "s + 1"]
  show ?case by (simp add: algebra_simps)
qed

text \<open>
  What one packet can do: leave no fragment in progress, with no output or with the payload itself
  as a single NAL unit; or extend the fragment in progress; or finish it.
\<close>

definition packet_outcome :: "bytes \<Rightarrow> u16 \<Rightarrow> u32 \<Rightarrow> reassembler \<Rightarrow> bytes option \<times> reassembler \<Rightarrow> bool" where
  "packet_outcome payload s ts r res \<longleftrightarrow>
     (\<exists>q out. (res = (out, h264_reset q) \<and>
        (out = None \<or> out = Some payload \<and> nal_header (hd payload) \<and> 0 < length payload \<and>
           length payload \<le> MAX_NAL_BYTES))) \<or>
     (\<exists>h b. payload = fu_payload h 0x80 b \<and> nal_header h \<and> length b + 1 \<le> MAX_NAL_BYTES \<and>
        res = (None, r\<lparr>r_buffer := h # b, r_in_progress := True, r_next_rtp := Some (s + 1, ts)\<rparr>)) \<or>
     (\<exists>h x b. nal_header h \<and> r_in_progress r \<and> r_next_rtp r = Some (s, ts) \<and> r_buffer r = h # x \<and>
        length b \<le> MAX_NAL_BYTES - (1 + length x) \<and>
        (payload = fu_payload h 0 b \<and> res = (None, r\<lparr>r_buffer := h # x @ b, r_next_rtp := Some (s + 1, ts)\<rparr>) \<or>
         payload = fu_payload h 0x40 b \<and> res = (Some (h # x @ b), h264_new)))"

lemma process_fu_a_invalid:
  "(f AND 0x80 \<noteq> 0 \<and> f AND 0x40 \<noteq> 0) \<or> f AND 0x20 \<noteq> 0 \<or> \<not> (1 \<le> f AND 0x1f \<and> f AND 0x1f \<le> 23) \<Longrightarrow>
     process_fu_a p0 f body rtp r = (None, h264_reset r)"
  by (simp only: process_fu_a_def Let_def if_True)

lemma process_fu_a_start:
  assumes "f AND 0x80 \<noteq> 0" "f AND 0x40 = 0" "f AND 0x20 = 0" "1 \<le> f AND 0x1f" "f AND 0x1f \<le> 23"
  shows "process_fu_a p0 f body (Some (s, ts)) r =
    (if stale_start (Some (s, ts)) (r_next_rtp r) \<or> length body > MAX_NAL_BYTES - 1 then (None, h264_reset r)
     else (None, r\<lparr>r_buffer := ((p0 AND 0x60) OR (f AND 0x1f)) # body, r_in_progress := True,
                   r_next_rtp := Some (s + 1, ts)\<rparr>))"
  using assms by (simp add: process_fu_a_def Let_def h264_reset_def)

lemma process_fu_a_continue:
  assumes "f AND 0x80 = 0" "f AND 0x20 = 0" "1 \<le> f AND 0x1f" "f AND 0x1f \<le> 23"
  shows "process_fu_a p0 f body (Some (s, ts)) r =
    (if r_next_rtp r \<noteq> Some (s, ts) \<or> \<not> r_in_progress r \<or> r_buffer r = [] \<or>
        hd (r_buffer r) \<noteq> (p0 AND 0x60) OR (f AND 0x1f) \<or> length body > MAX_NAL_BYTES - length (r_buffer r)
     then (None, h264_reset r)
     else if f AND 0x40 = 0 then (None, r\<lparr>r_buffer := r_buffer r @ body, r_next_rtp := Some (s + 1, ts)\<rparr>)
     else (Some (r_buffer r @ body), h264_new))"
  using assms
  by (cases r) (simp add: process_fu_a_def Let_def h264_reset_def h264_new_def split: list.splits)

lemma process_fu_a_outcome:
  assumes p: "p0 AND 0x80 = 0" "p0 AND 0x1f = 28"
  shows "packet_outcome (p0 # f # body) s ts r (process_fu_a p0 f body (Some (s, ts)) r)"
proof -
  let ?h = "(p0 AND 0x60) OR (f AND 0x1f)"
  let ?res = "process_fu_a p0 f body (Some (s, ts)) r"
  consider (rejected) "?res = (None, h264_reset r)"
    | (start) "f AND 0x80 \<noteq> 0" "f AND 0x40 = 0" "f AND 0x20 = 0" "1 \<le> f AND 0x1f" "f AND 0x1f \<le> 23"
        "\<not> length body > MAX_NAL_BYTES - 1"
        "?res = (None, r\<lparr>r_buffer := ?h # body, r_in_progress := True, r_next_rtp := Some (s + 1, ts)\<rparr>)"
    | (continue) x where "f AND 0x80 = 0" "f AND 0x20 = 0" "1 \<le> f AND 0x1f" "f AND 0x1f \<le> 23"
        "r_in_progress r" "r_next_rtp r = Some (s, ts)" "r_buffer r = ?h # x"
        "length body \<le> MAX_NAL_BYTES - (1 + length x)"
        "?res = (if f AND 0x40 = 0
           then (None, r\<lparr>r_buffer := ?h # x @ body, r_next_rtp := Some (s + 1, ts)\<rparr>)
           else (Some (?h # x @ body), h264_new))"
  proof (cases "(f AND 0x80 \<noteq> 0 \<and> f AND 0x40 \<noteq> 0) \<or> f AND 0x20 \<noteq> 0 \<or>
      \<not> (1 \<le> f AND 0x1f \<and> f AND 0x1f \<le> 23)")
    case True
    from process_fu_a_invalid [OF this] that(1) show ?thesis by blast
  next
    case ok: False
    show ?thesis
    proof (cases "f AND 0x80 = 0")
      case True
      with ok that(1) that(3) [of "tl (r_buffer r)"] process_fu_a_continue [of f p0 body s ts r]
      show ?thesis by (cases "r_buffer r") (auto split: if_splits)
    next
      case False
      with ok that(1,2) process_fu_a_start [of f p0 body s ts r]
      show ?thesis by (auto split: if_splits)
    qed
  qed
  then show ?thesis
  proof cases
    case rejected
    then show ?thesis by (auto simp: packet_outcome_def)
  next
    case start
    then have "f AND 0x80 = 0x80" using flag_values(1) [of f] by auto
    then have "p0 # f # body = fu_payload ?h 0x80 body"
      using payload_of_parts [OF p start(3,4,5), of body] start(2) by simp
    moreover have "length body + 1 \<le> MAX_NAL_BYTES"
      using start(6) by (simp add: MAX_NAL_BYTES_def)
    ultimately show ?thesis
      using start(7) header_of_parts(1) [OF start(4,5), of p0] unfolding packet_outcome_def by blast
  next
    case continue
    have "p0 # f # body = fu_payload ?h (f AND 0x40) body"
      using payload_of_parts [OF p continue(2,3,4), of body] continue(1) by simp
    moreover have "f AND 0x40 = 0 \<or> f AND 0x40 = 0x40" by (rule flag_values)
    moreover have "nal_header ?h" by (rule header_of_parts(1) [OF continue(3,4)])
    ultimately show ?thesis
      using continue unfolding packet_outcome_def by (metis (no_types))
  qed
qed

lemma process_rtp_packet_outcome: "packet_outcome payload s ts r (process_rtp_packet payload s ts r)"
proof (cases payload)
  case Nil
  then show ?thesis
    by (auto simp: process_rtp_packet_def process_payload_def packet_outcome_def)
next
  case (Cons p0 rest)
  have idle: "packet_outcome payload s ts r (None, h264_reset r)"
    by (auto simp: packet_outcome_def)
  show ?thesis
  proof (cases "length payload > MAX_NAL_BYTES \<or> p0 AND 0x80 \<noteq> 0")
    case True
    with idle Cons show ?thesis by (auto simp: process_rtp_packet_def process_payload_def)
  next
    case ok: False
    show ?thesis
    proof (cases "p0 AND 0x1f = FU_A_TYPE")
      case True
      with idle Cons ok process_fu_a_outcome [of p0] show ?thesis
        by (auto simp: process_rtp_packet_def process_payload_def FU_A_TYPE_def split: list.splits)
    next
      case False
      have single: "packet_outcome payload s ts r (Some payload, h264_reset r)" if "nal_header p0"
        using that Cons ok by (auto simp: packet_outcome_def)
      have "process_rtp_packet payload s ts r =
          (if 1 \<le> p0 AND 0x1f \<and> p0 AND 0x1f \<le> 23 then Some payload else None, h264_reset r)"
        using False ok Cons by (simp add: process_rtp_packet_def process_payload_def Let_def)
      with single idle ok show ?thesis by (auto simp: nal_header_def)
    qed
  qed
qed

section \<open>Invariant and history\<close>

definition h264_inv :: "reassembler \<Rightarrow> bool" where
  "h264_inv r \<longleftrightarrow>
     length (r_buffer r) \<le> MAX_NAL_BYTES \<and>
     (if r_in_progress r then r_buffer r \<noteq> [] \<and> nal_header (hd (r_buffer r))
      else r_buffer r = [] \<and> r_next_rtp r = None)"

definition nal_ok :: "bytes \<Rightarrow> bool" where
  "nal_ok nal \<longleftrightarrow> nal \<noteq> [] \<and> length nal \<le> MAX_NAL_BYTES \<and> nal_header (hd nal)"

lemma h264_inv_idle [simp]: "h264_inv (h264_reset r)" "h264_inv h264_new"
  by (simp_all add: h264_inv_def h264_reset_def h264_new_def)

lemma packet_outcome_inv:
  assumes "packet_outcome payload s ts r (out, r')" "h264_inv r"
  shows "h264_inv r' \<and> (case out of None \<Rightarrow> True | Some nal \<Rightarrow> nal_ok nal)"
  using assms unfolding packet_outcome_def h264_inv_def
  by (auto simp: nal_ok_def h264_reset_def h264_new_def)

text \<open>The packets of the fragment in progress are the latest packets processed.\<close>

definition tracks :: "rtp_packet list \<Rightarrow> reassembler \<Rightarrow> bool" where
  "tracks ps r \<longleftrightarrow>
     (r_in_progress r \<longrightarrow>
        (\<exists>pre h s ts b bs. ps = pre @ fu_open h s ts b bs \<and> nal_header h \<and>
           r_buffer r = h # b @ concat bs \<and> r_next_rtp r = Some (s + 1 + of_nat (length bs), ts)))"

lemma fu_middles_snoc:
  "fu_middles h s ts (bs @ [b]) = fu_middles h s ts bs @ [(fu_payload h 0 b, s + of_nat (length bs), ts)]"
  by (induction bs arbitrary: s) (simp_all add: algebra_simps)

lemma fu_open_snoc:
  "fu_open h s ts b (bs @ [e]) = fu_open h s ts b bs @ [(fu_payload h 0 e, s + 1 + of_nat (length bs), ts)]"
  by (simp add: fu_open_def fu_middles_snoc)

lemma tracks_packet:
  assumes "tracks ps r" "packet_outcome payload s ts r (out, r')"
  shows "tracks (ps @ [(payload, s, ts)]) r'"
proof -
  consider (idle) q where "r' = h264_reset q"
    | (fresh) "r' = h264_new"
    | (start) h b where "payload = fu_payload h 0x80 b" "nal_header h"
        "r' = r\<lparr>r_buffer := h # b, r_in_progress := True, r_next_rtp := Some (s + 1, ts)\<rparr>"
    | (extend) h x b where "r_in_progress r" "r_next_rtp r = Some (s, ts)" "r_buffer r = h # x"
        "payload = fu_payload h 0 b" "r' = r\<lparr>r_buffer := h # x @ b, r_next_rtp := Some (s + 1, ts)\<rparr>"
    using assms(2) unfolding packet_outcome_def by blast
  then show ?thesis
  proof cases
    case start
    then have "ps @ [(payload, s, ts)] = ps @ fu_open h s ts b []" by (simp add: fu_open_def)
    moreover have "r_buffer r' = h # b @ concat []" "r_next_rtp r' = Some (s + 1 + of_nat (length []), ts)"
      using start by simp_all
    ultimately show ?thesis using start(2) unfolding tracks_def by blast
  next
    case extend
    then obtain pre s0 ts0 b0 bs where "ps = pre @ fu_open h s0 ts0 b0 bs" "nal_header h" "x = b0 @ concat bs"
      "s = s0 + 1 + of_nat (length bs)" "ts = ts0"
      using assms(1) unfolding tracks_def by auto
    with extend have "ps @ [(payload, s, ts)] = pre @ fu_open h s0 ts b0 (bs @ [b]) \<and> nal_header h \<and>
        r_buffer r' = h # b0 @ concat (bs @ [b]) \<and> r_next_rtp r' = Some (s0 + 1 + of_nat (length (bs @ [b])), ts)"
      by (simp add: fu_open_snoc algebra_simps)
    then show ?thesis unfolding tracks_def by blast
  qed (simp_all add: tracks_def h264_reset_def h264_new_def)
qed

lemma process_all_tracks:
  "tracks ps r \<Longrightarrow> tracks (ps @ qs) (snd (process_all qs r))"
proof (induction qs arbitrary: ps r)
  case Nil
  then show ?case by simp
next
  case (Cons q qs)
  obtain payload s ts where q: "q = (payload, s, ts)" by (cases q)
  obtain out r' where r': "process_rtp_packet payload s ts r = (out, r')" by (cases "process_rtp_packet payload s ts r")
  have "tracks (ps @ [q]) r'"
    using tracks_packet [OF Cons.prems] process_rtp_packet_outcome [of payload s ts r] by (simp add: q r')
  from Cons.IH [OF this] show ?case by (auto simp: q r' split: prod.splits)
qed

lemma process_all_inv:
  "h264_inv r \<Longrightarrow> process_all ps r = (outs, r') \<Longrightarrow>
     h264_inv r' \<and> (\<forall>nal. Some nal \<in> set outs \<longrightarrow> nal_ok nal)"
proof (induction ps arbitrary: r outs)
  case Nil
  then show ?case by simp
next
  case (Cons q ps)
  obtain payload s ts where q: "q = (payload, s, ts)" by (cases q)
  obtain out r1 where r1: "process_rtp_packet payload s ts r = (out, r1)" by (cases "process_rtp_packet payload s ts r")
  have one: "h264_inv r1 \<and> (case out of None \<Rightarrow> True | Some nal \<Rightarrow> nal_ok nal)"
    using packet_outcome_inv [OF _ Cons.prems(1)] process_rtp_packet_outcome [of payload s ts r] by (simp add: r1)
  then show ?case
    using Cons.prems(2) Cons.IH [of r1] by (auto simp: q r1 split: prod.splits)
qed

section \<open>Properties\<close>

text \<open>
  Property C37. A NAL unit split into FU-A fragments with consecutive sequence numbers (wrapping at
  65536) and one timestamp comes out whole exactly when its last fragment arrives, from any
  state in which the first fragment is not older than the expected one; the reassembler is then
  back in its initial state.
\<close>

theorem fu_a_roundtrip:
  assumes "nal_header h" and "\<forall>x\<in>{b, e} \<union> set bs. length x + 2 \<le> MAX_NAL_BYTES"
    and "1 + length b + length (concat bs) + length e \<le> MAX_NAL_BYTES"
    and "\<not> stale_start (Some (s, ts)) (r_next_rtp r)"
  shows "process_all (fu_packets h s ts b bs e) r =
    (replicate (Suc (length bs)) None @ [Some (h # b @ concat bs @ e)], h264_new)"
proof -
  let ?r1 = "r\<lparr>r_buffer := h # b, r_in_progress := True, r_next_rtp := Some (s + 1, ts)\<rparr>"
  let ?r2 = "?r1\<lparr>r_buffer := h # b @ concat bs, r_next_rtp := Some (s + 1 + of_nat (length bs), ts)\<rparr>"
  have "process_rtp_packet (fu_payload h 0x80 b) s ts r = (None, ?r1)"
    using assms by (intro start_fragment) auto
  moreover have "process_all (fu_middles h (s + 1) ts bs) ?r1 = (replicate (length bs) None, ?r2)"
    using assms by (subst middle_fragments [where x = b]) auto
  moreover have "process_rtp_packet (fu_payload h 0x40 e) (s + 1 + of_nat (length bs)) ts ?r2 =
      (Some (h # (b @ concat bs) @ e), h264_new)"
    using assms by (intro end_fragment) auto
  ultimately show ?thesis
    by (simp add: fu_packets_def fu_open_def process_all_append del: replicate.simps)
       (simp add: replicate_app_Cons_same)
qed

theorem fu_a_roundtrip_witness:
  "process_all (fu_packets 0x65 0xffff 9 [1, 2] [[3], []] [4]) h264_new =
     ([None, None, None, Some [0x65, 1, 2, 3, 4]], h264_new)"
  using fu_a_roundtrip [of "0x65" "[1, 2]" "[4]" "[[3], []]" "0xffff" 9 h264_new]
  by (simp add: nal_header_def MAX_NAL_BYTES_def stale_start_def h264_new_def)

text \<open>
  Property C38. A NAL unit released by an FU-A packet is never assembled across a loss, a duplicate,
  a reordering or a timestamp change: the packets received last are exactly the start fragment,
  the middle fragments and the end fragment of that NAL unit, with consecutive sequence numbers
  and one timestamp, and the unit is their concatenation behind the rebuilt header.
\<close>

theorem fu_a_sound:
  assumes "process_all ps h264_new = (outs, r)" and "process_rtp_packet payload s ts r = (Some nal, r')"
    and "hd payload AND 0x1f = 28"
  shows "\<exists>pre h s0 b bs e. ps @ [(payload, s, ts)] = pre @ fu_packets h s0 ts b bs e \<and>
    nal_header h \<and> nal = h # b @ concat bs @ e"
proof -
  have tr: "tracks ps r"
    using process_all_tracks [of "[]" h264_new ps] assms(1) by (simp add: tracks_def h264_new_def)
  have "\<not> nal_header (hd payload)"
    using assms(3) by (auto simp: nal_header_def)
  then obtain h x e where fin: "payload = fu_payload h 0x40 e" "nal = h # x @ e" "r_in_progress r"
    "r_next_rtp r = Some (s, ts)" "r_buffer r = h # x"
    using process_rtp_packet_outcome [of payload s ts r] assms(2) unfolding packet_outcome_def by auto
  with tr obtain pre s0 b bs where "ps = pre @ fu_open h s0 ts b bs" "nal_header h" "x = b @ concat bs"
    "s = s0 + 1 + of_nat (length bs)"
    unfolding tracks_def by auto
  with fin have "ps @ [(payload, s, ts)] = pre @ fu_packets h s0 ts b bs e \<and> nal_header h \<and>
      nal = h # b @ concat bs @ e"
    by (simp add: fu_packets_def)
  then show ?thesis by blast
qed

theorem fu_a_sound_witness:
  "\<exists>pre h s0 b bs e. fu_packets 0x65 7 9 [1, 2] [[3]] [4] = pre @ fu_packets h s0 9 b bs e \<and>
    nal_header h \<and> [0x65, 1, 2, 3, 4] = h # b @ concat bs @ e"
  using fu_a_sound [of "fu_open 0x65 7 9 [1, 2] [[3]]" "[None, None]"
      "\<lparr>r_buffer = [0x65, 1, 2, 3], r_in_progress = True, r_next_rtp = Some (9, 9)\<rparr>"
      "fu_payload 0x65 0x40 [4]" 9 9 "[0x65, 1, 2, 3, 4]" h264_new]
  by (simp add: fu_packets_def fu_open_def fu_payload_def process_rtp_packet_def process_payload_def
      process_fu_a_def Let_def h264_new_def h264_reset_def MAX_NAL_BYTES_def FU_A_TYPE_def stale_start_def)

text \<open>
  On any packet sequence the pending buffer stays within 8 MiB (so the subtraction in
  the size check cannot underflow), it is empty unless a fragment is in progress, and every NAL
  unit handed to the decoder is non-empty, at most 8 MiB long and carries a single-NAL header.
\<close>

theorem h264_bounds:
  "case process_all ps h264_new of (outs, r) \<Rightarrow>
     h264_inv r \<and> (\<forall>nal. Some nal \<in> set outs \<longrightarrow> nal_ok nal)"
  using process_all_inv [of h264_new ps] by (auto split: prod.splits)

theorem h264_bounds_witness: "h264_inv (snd (process_all [([0x67, 1], 5, 6)] h264_new)) \<and> nal_ok [0x67, 1]"
  using h264_bounds [of "[([0x67, 1], 5, 6)]"]
  by (simp add: process_rtp_packet_def process_payload_def MAX_NAL_BYTES_def FU_A_TYPE_def)

end
