(* ===== verification/Video.thy ===== *)
theory Video
  imports H264 Diagnostics Events Utf8_Text "HOL-Library.Sublist"
begin

text \<open>
  \<open>src/src/video/codec.rs\<close> and \<open>service.rs\<close>: choice of the decoder, admission of NAL units to its
  pipeline, terminal errors, conversion of decoded buffers to packed BGR frames, and the handler that takes
  RTP packets to callback events. GStreamer itself is not modelled: its source queue is the list of the
  buffers that were pushed and not yet taken, a buffer that was taken is counted until its pad probe has
  run, and what the bus, the allocator and the mapped frame answer is given from outside.
\<close>

section \<open>Choice of the decoder\<close>

definition ascii_lower :: "char \<Rightarrow> char" where
  "ascii_lower c = (if 65 \<le> (of_char c :: nat) \<and> (of_char c :: nat) \<le> 90 then char_of ((of_char c :: nat) + 32) else c)"

definition detect_h264_decoder :: "string option \<Rightarrow> bool \<Rightarrow> bool \<Rightarrow> string + string" where
  "detect_h264_decoder variable has_nvv4l2 has_avdec =
     (let requested = map ascii_lower (trim (case variable of Some v \<Rightarrow> v | None \<Rightarrow> ''auto'')) in
      if requested = ''nvv4l2decoder''
      then if has_nvv4l2 then Inr ''nvv4l2decoder''
           else Inl ''UNITREE_WEBRTC_H264_DECODER=nvv4l2decoder was requested, but the plugin is not available.''
      else if requested = ''avdec_h264''
      then if has_avdec then Inr ''avdec_h264''
           else Inl ''UNITREE_WEBRTC_H264_DECODER=avdec_h264 was requested, but the plugin is not available.''
      else if requested \<noteq> [] \<and> requested \<noteq> ''auto''
      then Inl (''Unsupported UNITREE_WEBRTC_H264_DECODER='' @ [char_of (39 :: nat)] @ requested @ [char_of (39 :: nat)] @
                ''. Use auto, nvv4l2decoder, or avdec_h264.'')
      else if has_nvv4l2 then Inr ''nvv4l2decoder''
      else if has_avdec then Inr ''avdec_h264''
      else Inl (''No H264 decoder plugin found in GStreamer. '' @
                ''Install the GStreamer libav plugin (avdec_h264) or run on Jetson (nvv4l2decoder).''))"

section \<open>Packed frames\<close>

definition MAX_VIDEO_BUFFER_BYTES :: nat where [policy_defs]: "MAX_VIDEO_BUFFER_BYTES = 64 * 1024 * 1024"

record decoded_frame =
  df_data :: bytes
  df_width :: nat
  df_height :: nat

definition checked_mul :: "nat \<Rightarrow> nat \<Rightarrow> nat option" where
  "checked_mul a b = (if a * b > usize_max then None else Some (a * b))"

definition checked_add :: "nat \<Rightarrow> nat \<Rightarrow> nat option" where
  "checked_add a b = (if a + b > usize_max then None else Some (a + b))"

definition bgr_output_size :: "u32 \<Rightarrow> u32 \<Rightarrow> (nat \<times> nat) option" where
  "bgr_output_size width height =
     Option.bind (checked_mul (unat width) 3) (\<lambda>row_bytes.
     Option.bind (checked_mul row_bytes (unat height)) (\<lambda>output_bytes.
     if row_bytes = 0 \<or> height = 0 \<or> output_bytes > MAX_VIDEO_BUFFER_BYTES then None else Some (row_bytes, output_bytes)))"

text \<open>The mapped frame: dimensions of the caps and of the mapping, first plane with its offset and stride.\<close>

record mapped_frame =
  mf_width :: u32
  mf_height :: u32
  mf_stride :: int
  mf_offset :: nat
  mf_plane :: "bytes option"

fun chunks_exact :: "nat \<Rightarrow> nat \<Rightarrow> bytes \<Rightarrow> bytes list" where
  "chunks_exact stride 0 plane = []"
| "chunks_exact stride (Suc n) plane =
     (if length plane < stride then [] else take stride plane # chunks_exact stride n (drop stride plane))"

text \<open>\<open>plane.chunks_exact(stride).take(height)\<close> is \<open>chunks_exact stride height plane\<close>; \<open>None\<close> is
  \<open>FlowError::Error\<close>.\<close>

definition packed_bgr_frame :: "bool \<Rightarrow> u32 \<Rightarrow> u32 \<Rightarrow> nat \<Rightarrow> mapped_frame option \<Rightarrow> decoded_frame option" where
  "packed_bgr_frame is_bgr info_width info_height buffer_size mapped =
     (if \<not> is_bgr then None
      else Option.bind (bgr_output_size info_width info_height) (\<lambda>_.
      Option.bind mapped (\<lambda>frame.
      Option.bind (bgr_output_size (mf_width frame) (mf_height frame)) (\<lambda>(row_bytes, output_bytes).
      if mf_stride frame < 0 then None
      else let stride = nat (mf_stride frame) in
      Option.bind (checked_mul stride (unat (mf_height frame))) (\<lambda>plane_bytes.
      if stride < row_bytes \<or> plane_bytes > MAX_VIDEO_BUFFER_BYTES \<or>
         (case checked_add (mf_offset frame) plane_bytes of None \<Rightarrow> True | Some e \<Rightarrow> e > buffer_size)
      then None
      else Option.bind (mf_plane frame) (\<lambda>plane.
      if length plane < plane_bytes then None
      else Some \<lparr>df_data = concat (map (take row_bytes) (chunks_exact stride (unat (mf_height frame)) plane)),
                 df_width = unat (mf_width frame), df_height = unat (mf_height frame)\<rparr>))))))"

section \<open>The decoder\<close>

definition MAX_ENCODED_BUFFERS :: nat where [policy_defs]: "MAX_ENCODED_BUFFERS = 64"
definition MAX_ENCODED_BYTES :: nat where [policy_defs]: "MAX_ENCODED_BYTES = 8 * 1024 * 1024"

datatype h264_decode_error =
  EncodedQueueOverflow | PipelineFailed | EndOfStream | BufferAllocationFailed | BufferMappingFailed | PushFailed
| FrameChannelClosed

datatype bus_message = BusError | BusEos

record h264_decoder =
  hd_encoded :: "bytes list" \<comment> \<open>queued in the source element\<close>
  hd_taken :: nat \<comment> \<open>taken from it, pad probe not yet run\<close>
  hd_queued_buffers :: u64
  hd_frames :: "decoded_frame list"
  hd_frames_open :: bool \<comment> \<open>the sample callback's sender is alive\<close>
  hd_terminal_error :: "h264_decode_error option"
  hd_pushed :: "bytes list" \<comment> \<open>history of the buffers the pipeline accepted\<close>

definition h264_decoder_new :: h264_decoder where
  "h264_decoder_new = \<lparr>hd_encoded = [], hd_taken = 0, hd_queued_buffers = 0, hd_frames = [], hd_frames_open = True,
     hd_terminal_error = None, hd_pushed = []\<rparr>"

definition current_level_bytes :: "h264_decoder \<Rightarrow> nat" where
  "current_level_bytes d = sum_list (map length (hd_encoded d))"

datatype drain = Take_Buffer | Run_Probe

fun drain_step :: "drain \<Rightarrow> h264_decoder \<Rightarrow> h264_decoder" where
  "drain_step Take_Buffer d =
     (case hd_encoded d of [] \<Rightarrow> d | _ # rest \<Rightarrow> d\<lparr>hd_encoded := rest, hd_taken := Suc (hd_taken d)\<rparr>)"
| "drain_step Run_Probe d =
     (if hd_taken d = 0 then d else d\<lparr>hd_taken := hd_taken d - 1, hd_queued_buffers := hd_queued_buffers d - 1\<rparr>)"

definition sample_ready :: "decoded_frame \<Rightarrow> h264_decoder \<Rightarrow> h264_decoder" where
  "sample_ready frame d = d\<lparr>hd_frames := snd (channel_try_send 4 True (hd_frames d) frame)\<rparr>"

definition check_health :: "bus_message option \<Rightarrow> h264_decoder \<Rightarrow> (h264_decode_error + unit) \<times> h264_decoder" where
  "check_health message d =
     (case hd_terminal_error d of
        Some err \<Rightarrow> (Inl err, d)
      | None \<Rightarrow>
          (case message of
             None \<Rightarrow> (Inr (), d)
           | Some m \<Rightarrow>
               let err = (case m of BusEos \<Rightarrow> EndOfStream | BusError \<Rightarrow> PipelineFailed)
               in (Inl err, d\<lparr>hd_terminal_error := Some err\<rparr>)))"

text \<open>What one call of \<open>decode\<close> meets: the bus before and after, what the pipeline takes between the
  admission and the push, allocation, mapping and push.\<close>

record decode_env =
  dv_before :: "bus_message option"
  dv_drains :: "drain list"
  dv_alloc :: bool
  dv_map :: bool
  dv_push :: bool
  dv_after :: "bus_message option"

definition annex_b :: "bytes \<Rightarrow> bytes" where
  "annex_b nal_data = [0, 0, 0, 1] @ nal_data"

definition decode_inner ::
  "decode_env \<Rightarrow> bytes \<Rightarrow> h264_decoder \<Rightarrow> (h264_decode_error + decoded_frame option) \<times> h264_decoder" where
  "decode_inner v nal_data d =
     (case check_health (dv_before v) d of
        (Inl err, d1) \<Rightarrow> (Inl err, d1)
      | (Inr _, d1) \<Rightarrow>
          if nal_data = [] then (Inr None, d1)
          else
            let encoded_bytes = length nal_data + 4 in
            if encoded_bytes > MAX_ENCODED_BYTES then (Inl EncodedQueueOverflow, d1)
            else if unat (hd_queued_buffers d1) \<ge> MAX_ENCODED_BUFFERS \<or>
                    current_level_bytes d1 > MAX_ENCODED_BYTES - encoded_bytes
            then (Inl EncodedQueueOverflow, d1)
            else
              let d2 = fold drain_step (dv_drains v) d1 in
              if \<not> dv_alloc v then (Inl BufferAllocationFailed, d2)
              else if \<not> dv_map v then (Inl BufferMappingFailed, d2)
              else
                let d3 = d2\<lparr>hd_queued_buffers := hd_queued_buffers d2 + 1\<rparr> in
                if \<not> dv_push v then (Inl PushFailed, d3)
                else
                  let d4 = d3\<lparr>hd_encoded := hd_encoded d3 @ [annex_b nal_data], hd_pushed := hd_pushed d3 @ [annex_b nal_data]\<rparr>
                  in case check_health (dv_after v) d4 of
                       (Inl err, d5) \<Rightarrow> (Inl err, d5)
                     | (Inr _, d5) \<Rightarrow>
                         (case hd_frames d5 of
                            frame # rest \<Rightarrow> (Inr (Some frame), d5\<lparr>hd_frames := rest\<rparr>)
                          | [] \<Rightarrow> (if hd_frames_open d5 then Inr None else Inl FrameChannelClosed, d5)))"

definition decode :: "decode_env \<Rightarrow> bytes \<Rightarrow> h264_decoder \<Rightarrow> (h264_decode_error + decoded_frame option) \<times> h264_decoder" where
  "decode v nal_data d =
     (case decode_inner v nal_data d of
        (Inl err, d1) \<Rightarrow> (Inl err, d1\<lparr>hd_terminal_error := Some err\<rparr>)
      | (Inr frame, d1) \<Rightarrow> (Inr frame, d1))"

section \<open>The stream handler\<close>

record video_stream =
  vs_reassembler :: reassembler
  vs_decoder :: h264_decoder
  vs_frame_count :: nat
  vs_frame_drops :: repeat_log
  vs_running :: bool

definition video_start :: video_stream where
  "video_start = \<lparr>vs_reassembler = h264_new, vs_decoder = h264_decoder_new, vs_frame_count = 0,
     vs_frame_drops = repeat_log_new ''video_frame_drop'' ''callback_queue_full'', vs_running = True\<rparr>"

definition video_health_poll :: "bus_message option \<Rightarrow> video_stream \<Rightarrow> video_stream" where
  "video_health_poll message s =
     (case check_health message (vs_decoder s) of
        (Inl _, d) \<Rightarrow> s\<lparr>vs_decoder := d, vs_running := False\<rparr>
      | (Inr _, d) \<Rightarrow> s\<lparr>vs_decoder := d\<rparr>)"

text \<open>A decoded frame goes to the callback channel.\<close>

definition video_deliver ::
  "layout \<Rightarrow> instant \<Rightarrow> u64 \<Rightarrow> decoded_frame \<Rightarrow> video_stream \<times> event_bus \<Rightarrow> video_stream \<times> event_bus" where
  "video_deliver L now generation frame = (\<lambda>(s, bus).
     let s1 = s\<lparr>vs_frame_count := Suc (vs_frame_count s)\<rparr> in
     case try_send L generation (VideoFrame (df_data frame) (df_width frame) (df_height frame)) bus of
       (Inr _, bus') \<Rightarrow> (s1, bus')
     | (Inl (Full _), bus') \<Rightarrow> (s1\<lparr>vs_frame_drops := snd (rl_record now (vs_frame_drops s1))\<rparr>, bus')
     | (Inl (Disconnected _), bus') \<Rightarrow> (s1\<lparr>vs_running := False\<rparr>, bus'))"

text \<open>One packet read from the track; \<open>None\<close> is a read error.\<close>

definition video_packet ::
  "layout \<Rightarrow> instant \<Rightarrow> u64 \<Rightarrow> decode_env \<Rightarrow> rtp_packet option \<Rightarrow> video_stream \<times> event_bus \<Rightarrow> video_stream \<times> event_bus" where
  "video_packet L now generation v packet = (\<lambda>(s, bus).
     case packet of
       None \<Rightarrow> (s\<lparr>vs_running := False\<rparr>, bus)
     | Some (payload, sequence, timestamp) \<Rightarrow>
         (case process_rtp_packet payload sequence timestamp (vs_reassembler s) of
            (None, r) \<Rightarrow> (s\<lparr>vs_reassembler := r\<rparr>, bus)
          | (Some nal_data, r) \<Rightarrow>
              (case decode v nal_data (vs_decoder s) of
                 (Inl _, d) \<Rightarrow> (s\<lparr>vs_reassembler := r, vs_decoder := d, vs_running := False\<rparr>, bus)
               | (Inr None, d) \<Rightarrow> (s\<lparr>vs_reassembler := r, vs_decoder := d\<rparr>, bus)
               | (Inr (Some frame), d) \<Rightarrow>
                   video_deliver L now generation frame (s\<lparr>vs_reassembler := r, vs_decoder := d\<rparr>, bus))))"

text \<open>The stream's inputs: health polls and packets of the running handler, the pipeline's own threads, and
  everybody else's use of the callback channel.\<close>

datatype video_input =
  Health_Poll "bus_message option"
| Packet_Read instant decode_env "rtp_packet option"
| Pipeline drain
| Sample decoded_frame
| Sink_Closed
| Others event_bus

definition video_input_step ::
  "layout \<Rightarrow> u64 \<Rightarrow> video_input \<Rightarrow> video_stream \<times> event_bus \<Rightarrow> video_stream \<times> event_bus" where
  "video_input_step L generation i = (\<lambda>(s, bus).
     case i of
       Health_Poll message \<Rightarrow> (if vs_running s then video_health_poll message s else s, bus)
     | Packet_Read now v packet \<Rightarrow> if vs_running s then video_packet L now generation v packet (s, bus) else (s, bus)
     | Pipeline x \<Rightarrow> (s\<lparr>vs_decoder := drain_step x (vs_decoder s)\<rparr>, bus)
     | Sample frame \<Rightarrow> (s\<lparr>vs_decoder := sample_ready frame (vs_decoder s)\<rparr>, bus)
     | Sink_Closed \<Rightarrow> (s\<lparr>vs_decoder := (vs_decoder s)\<lparr>hd_frames_open := False\<rparr>\<rparr>, bus)
     | Others bus' \<Rightarrow> (s, bus'))"

definition video_run :: "layout \<Rightarrow> u64 \<Rightarrow> video_input list \<Rightarrow> event_bus \<Rightarrow> video_stream \<times> event_bus" where
  "video_run L generation inputs bus = fold (video_input_step L generation) inputs (video_start, bus)"

fun packets :: "video_input list \<Rightarrow> rtp_packet list" where
  "packets [] = []"
| "packets (Packet_Read now v (Some p) # is) = p # packets is"
| "packets (_ # is) = packets is"

section \<open>Frames\<close>

lemma chunks_exact_full:
  "stride * n \<le> length plane \<Longrightarrow> chunks_exact stride n plane = map (\<lambda>y. take stride (drop (stride * y) plane)) [0..<n]"
proof (induction n arbitrary: plane)
  case (Suc n)
  have "chunks_exact stride n (drop stride plane) = map (\<lambda>y. take stride (drop (stride * Suc y) plane)) [0..<n]"
    using Suc by (simp add: algebra_simps)
  moreover have "[0..<Suc n] = 0 # map Suc [0..<n]" by (simp add: map_Suc_upt upt_conv_Cons del: upt_Suc)
  ultimately show ?case using Suc.prems by (simp add: comp_def del: upt_Suc)
qed simp

lemma concat_rows_length: "(\<And>x. x \<in> set l \<Longrightarrow> length x = n) \<Longrightarrow> length (concat l) = length l * n"
  by (induction l) auto

lemma concat_rows_nth:
  "(\<And>x. x \<in> set l \<Longrightarrow> length x = n) \<Longrightarrow> y < length l \<Longrightarrow> x < n \<Longrightarrow> concat l ! (n * y + x) = l ! y ! x"
proof (induction l arbitrary: y)
  case (Cons r l)
  then show ?case by (cases y) (auto simp: nth_append add.assoc)
qed simp

lemma bgr_output_size_Some:
  "bgr_output_size w h = Some (row, out) \<longleftrightarrow>
     row = unat w * 3 \<and> out = unat w * 3 * unat h \<and> 0 < unat w \<and> 0 < unat h \<and> unat w * 3 * unat h \<le> MAX_VIDEO_BUFFER_BYTES"
proof -
  have small: "MAX_VIDEO_BUFFER_BYTES \<le> usize_max" by (simp add: policy_defs usize_max_def)
  have "unat w * 3 * unat h \<le> MAX_VIDEO_BUFFER_BYTES \<Longrightarrow> 0 < unat h \<Longrightarrow> unat w * 3 \<le> MAX_VIDEO_BUFFER_BYTES"
    by (metis Suc_leI dual_order.trans mult.right_neutral mult_le_mono2 One_nat_def)
  with small show ?thesis
    by (auto simp: bgr_output_size_def checked_mul_def Option.bind_eq_Some_conv unat_gt_0 unat_eq_zero not_less split: if_splits)
qed

lemma packed_bgr_frame_Some:
  "packed_bgr_frame is_bgr iw ih n (Some m) = Some f \<Longrightarrow>
     \<exists>plane row out. is_bgr \<and> bgr_output_size (mf_width m) (mf_height m) = Some (row, out) \<and>
       nat (mf_stride m) \<ge> row \<and> mf_offset m + nat (mf_stride m) * unat (mf_height m) \<le> n \<and>
       mf_plane m = Some plane \<and> nat (mf_stride m) * unat (mf_height m) \<le> length plane \<and>
       f = \<lparr>df_data = concat (map (take row) (chunks_exact (nat (mf_stride m)) (unat (mf_height m)) plane)),
            df_width = unat (mf_width m), df_height = unat (mf_height m)\<rparr>"
  unfolding packed_bgr_frame_def Let_def
  by (auto simp: Option.bind_eq_Some_conv checked_mul_def checked_add_def not_less split: if_splits prod.splits)

text \<open>
  A packed frame holds exactly the pixels of the mapped plane: it has three bytes per pixel and no
  padding, within 64 MiB, and byte \<open>x\<close> of row \<open>y\<close> is the byte at the row's stride; the plane it is
  read from lies inside the buffer.
\<close>

theorem packed_frame_exact:
  assumes "packed_bgr_frame is_bgr info_width info_height buffer_size (Some m) = Some f"
  shows "is_bgr \<and> df_width f = unat (mf_width m) \<and> df_height f = unat (mf_height m) \<and>
    0 < df_width f \<and> 0 < df_height f \<and>
    length (df_data f) = 3 * df_width f * df_height f \<and> length (df_data f) \<le> 64 * 1024 * 1024 \<and>
    mf_offset m + nat (mf_stride m) * df_height f \<le> buffer_size \<and>
    (\<exists>plane. mf_plane m = Some plane \<and>
      (\<forall>y < df_height f. \<forall>x < 3 * df_width f.
        nat (mf_stride m) * y + x < length plane \<and>
        df_data f ! (3 * df_width f * y + x) = plane ! (nat (mf_stride m) * y + x)))"
proof -
  let ?w = "unat (mf_width m)" and ?h = "unat (mf_height m)" and ?st = "nat (mf_stride m)"
  from packed_bgr_frame_Some [OF assms] obtain plane where bgr: is_bgr and plane: "mf_plane m = Some plane" "?st * ?h \<le> length plane"
    and size: "0 < ?w" "0 < ?h" "?w * 3 * ?h \<le> MAX_VIDEO_BUFFER_BYTES" "?w * 3 \<le> ?st" "mf_offset m + ?st * ?h \<le> buffer_size"
    and f: "f = \<lparr>df_data = concat (map (take (?w * 3)) (chunks_exact ?st ?h plane)), df_width = ?w, df_height = ?h\<rparr>"
    by (auto simp: bgr_output_size_Some)
  define rows where "rows = map (take (?w * 3)) (chunks_exact ?st ?h plane)"
  have rows: "rows = map (\<lambda>y. take (?w * 3) (drop (?st * y) plane)) [0..<?h]"
    unfolding rows_def chunks_exact_full [OF plane(2)] using size(4) by (simp add: min_def)
  have inside: "?st * y + ?w * 3 \<le> length plane" if "y < ?h" for y
  proof -
    have "?st * y + ?w * 3 \<le> ?st * Suc y" using size(4) by simp
    also have "\<dots> \<le> ?st * ?h" using that by (intro mult_le_mono2) simp
    finally show ?thesis using plane(2) by simp
  qed
  have len: "length r = ?w * 3" if "r \<in> set rows" for r
  proof -
    from that obtain y where "y < ?h" "r = take (?w * 3) (drop (?st * y) plane)" by (auto simp: rows)
    with inside [of y] show ?thesis by simp
  qed
  have data: "df_data f = concat rows" by (simp add: f rows_def)
  have count: "length rows = ?h" by (simp add: rows)
  have "length (df_data f) = ?h * (?w * 3)" unfolding data using concat_rows_length [OF len] count by simp
  then have total: "length (df_data f) = 3 * ?w * ?h" by simp
  have "?st * y + x < length plane \<and> df_data f ! (3 * ?w * y + x) = plane ! (?st * y + x)"
    if "y < ?h" "x < 3 * ?w" for x y
  proof -
    have "concat rows ! (?w * 3 * y + x) = rows ! y ! x"
      by (rule concat_rows_nth [OF len]) (use that count in auto)
    moreover have "rows ! y ! x = plane ! (?st * y + x)" using that inside [OF that(1)] by (simp add: rows)
    ultimately show ?thesis using inside [OF that(1)] that unfolding data mult.commute [of 3 ?w] by simp
  qed
  then have "\<forall>y < ?h. \<forall>x < 3 * ?w. ?st * y + x < length plane \<and> df_data f ! (3 * ?w * y + x) = plane ! (?st * y + x)" by blast
  moreover have "df_width f = ?w" "df_height f = ?h" by (simp_all add: f)
  moreover have "length (df_data f) \<le> 64 * 1024 * 1024" using size(3) total by (simp add: policy_defs)
  ultimately show ?thesis using bgr plane(1) size total by simp
qed

theorem packed_frame_exact_witness:
  "df_data \<lparr>df_data = [1, 2, 3, 5, 6, 7], df_width = 1, df_height = 2\<rparr> ! 3 = ([1, 2, 3, 4, 5, 6, 7, 8] :: bytes) ! 4"
proof -
  have "packed_bgr_frame True 1 2 8 (Some \<lparr>mf_width = 1, mf_height = 2, mf_stride = 4, mf_offset = 0, mf_plane = Some [1, 2, 3, 4, 5, 6, 7, 8]\<rparr>)
      = Some \<lparr>df_data = [1, 2, 3, 5, 6, 7], df_width = 1, df_height = 2\<rparr>"
    using chunks_exact_full [of 4 2 "[1, 2, 3, 4, 5, 6, 7, 8]"]
    by (simp add: packed_bgr_frame_def bgr_output_size_def checked_mul_def checked_add_def usize_max_def policy_defs upt_rec)
  from packed_frame_exact [OF this] show ?thesis by auto
qed

section \<open>Bounds of the decoder\<close>

definition decoder_inv :: "h264_decoder \<Rightarrow> bool" where
  "decoder_inv d \<longleftrightarrow>
     unat (hd_queued_buffers d) = length (hd_encoded d) + hd_taken d + (if hd_terminal_error d = Some PushFailed then 1 else 0) \<and>
     length (hd_encoded d) + hd_taken d \<le> MAX_ENCODED_BUFFERS \<and> current_level_bytes d \<le> MAX_ENCODED_BYTES \<and>
     length (hd_frames d) \<le> 4 \<and>
     (\<forall>b\<in>set (hd_encoded d). \<exists>nal. nal \<noteq> [] \<and> b = annex_b nal)"

lemma decoder_new_inv: "decoder_inv h264_decoder_new"
  by (simp add: decoder_inv_def h264_decoder_new_def current_level_bytes_def)

lemma unat_minus_1: "0 < unat (w :: 'a::len word) \<Longrightarrow> unat (w - 1) = unat w - 1"
  by (metis One_nat_def unat_gt_0 unat_minus_one less_numeral_extra(3) unsigned_0)

lemma unat_plus_1: "unat (w :: u64) < 2 ^ 64 - 1 \<Longrightarrow> unat (w + 1) = Suc (unat w)"
  using unat_add_lem [of w 1] by simp

lemma drain_inv: "decoder_inv d \<Longrightarrow> decoder_inv (drain_step x d)"
  by (cases x) (auto simp: decoder_inv_def current_level_bytes_def unat_minus_1 split: list.splits)

lemma drain_same [simp]:
  "hd_terminal_error (drain_step x d) = hd_terminal_error d" "hd_frames (drain_step x d) = hd_frames d"
  "hd_frames_open (drain_step x d) = hd_frames_open d" "hd_pushed (drain_step x d) = hd_pushed d"
  by (cases x; simp split: list.splits)+

lemma drain_less:
  "unat (hd_queued_buffers d) \<ge> hd_taken d \<Longrightarrow> unat (hd_queued_buffers (drain_step x d)) \<le> unat (hd_queued_buffers d)"
  "current_level_bytes (drain_step x d) \<le> current_level_bytes d"
  by (cases x; auto simp: current_level_bytes_def unat_minus_1 split: list.splits)+

lemma drains_inv:
  assumes "decoder_inv d"
  shows "decoder_inv (fold drain_step xs d) \<and> hd_terminal_error (fold drain_step xs d) = hd_terminal_error d \<and>
    hd_frames (fold drain_step xs d) = hd_frames d \<and> hd_frames_open (fold drain_step xs d) = hd_frames_open d \<and>
    hd_pushed (fold drain_step xs d) = hd_pushed d \<and>
    unat (hd_queued_buffers (fold drain_step xs d)) \<le> unat (hd_queued_buffers d) \<and>
    current_level_bytes (fold drain_step xs d) \<le> current_level_bytes d"
  using assms
proof (induction xs arbitrary: d)
  case (Cons x xs)
  have "unat (hd_queued_buffers d) \<ge> hd_taken d" using Cons.prems by (simp add: decoder_inv_def)
  with Cons.IH [OF drain_inv [OF Cons.prems, of x]] drain_less [where d = d and x = x] show ?case by auto
qed simp

lemma check_health_cases:
  "check_health m d = (r, d') \<Longrightarrow>
     (\<exists>e. r = Inl e \<and> hd_terminal_error d' = Some e \<and> d' = d\<lparr>hd_terminal_error := Some e\<rparr> \<and>
        (hd_terminal_error d = None \<longrightarrow> e \<noteq> PushFailed) \<and> (hd_terminal_error d \<noteq> None \<longrightarrow> d' = d)) \<or>
     r = Inr () \<and> hd_terminal_error d = None \<and> d' = d"
  by (auto simp: check_health_def Let_def split: option.splits bus_message.splits)

lemma terminal_inv:
  "decoder_inv d \<Longrightarrow> hd_terminal_error d = None \<Longrightarrow> e \<noteq> PushFailed \<Longrightarrow> decoder_inv (d\<lparr>hd_terminal_error := Some e\<rparr>)"
  by (simp add: decoder_inv_def current_level_bytes_def)

lemma check_health_inv: "decoder_inv d \<Longrightarrow> decoder_inv (snd (check_health m d))"
  using check_health_cases [of m d "fst (check_health m d)" "snd (check_health m d)"] terminal_inv [of d]
  by (cases "hd_terminal_error d") auto

lemma push_inv:
  assumes "decoder_inv d" "hd_terminal_error d = None" "unat (hd_queued_buffers d) < MAX_ENCODED_BUFFERS"
    "current_level_bytes d + length (annex_b nal) \<le> MAX_ENCODED_BYTES" "nal \<noteq> []"
  shows "decoder_inv (d\<lparr>hd_queued_buffers := hd_queued_buffers d + 1, hd_encoded := hd_encoded d @ [annex_b nal], hd_pushed := p\<rparr>)"
    and "decoder_inv (d\<lparr>hd_queued_buffers := hd_queued_buffers d + 1, hd_terminal_error := Some PushFailed\<rparr>)"
proof -
  have "unat (hd_queued_buffers d + 1) = Suc (unat (hd_queued_buffers d))"
    using assms(3) by (intro unat_plus_1) (simp add: policy_defs)
  then show "decoder_inv (d\<lparr>hd_queued_buffers := hd_queued_buffers d + 1, hd_encoded := hd_encoded d @ [annex_b nal], hd_pushed := p\<rparr>)"
    and "decoder_inv (d\<lparr>hd_queued_buffers := hd_queued_buffers d + 1, hd_terminal_error := Some PushFailed\<rparr>)"
    using assms by (auto simp: decoder_inv_def current_level_bytes_def)
qed

text \<open>One call of \<open>decode\<close>: the invariant is kept, an accepted NAL unit is pushed exactly once, and an error is
  the terminal error.\<close>

definition decode_ok :: "h264_decoder \<Rightarrow> bytes \<Rightarrow> (h264_decode_error + decoded_frame option) \<times> h264_decoder \<Rightarrow> bool" where
  "decode_ok d nal = (\<lambda>(r, d').
     decoder_inv d' \<and> hd_pushed d' \<in> {hd_pushed d, hd_pushed d @ [annex_b nal]} \<and>
     (\<not> isl r \<longrightarrow> hd_terminal_error d' = None \<and> (nal \<noteq> [] \<longrightarrow> hd_pushed d' = hd_pushed d @ [annex_b nal])) \<and>
     (isl r \<longrightarrow> hd_terminal_error d' = Some (projl r)))"

abbreviation encoded_full :: "bytes \<Rightarrow> h264_decoder \<Rightarrow> bool" where
  "encoded_full nal d \<equiv> length nal + 4 > MAX_ENCODED_BYTES \<or> unat (hd_queued_buffers d) \<ge> MAX_ENCODED_BUFFERS \<or>
     current_level_bytes d > MAX_ENCODED_BYTES - (length nal + 4)"

lemma decode_admitted:
  assumes inv: "decoder_inv d" and none: "hd_terminal_error d = None" and start: "check_health (dv_before v) d = (Inr (), d)"
    and room: "nal \<noteq> []" "\<not> encoded_full nal d"
  shows "decode_ok d nal (decode v nal d)"
proof -
  let ?d2 = "fold drain_step (dv_drains v) d"
  let ?d3 = "?d2\<lparr>hd_queued_buffers := hd_queued_buffers ?d2 + 1\<rparr>"
  let ?d4 = "?d3\<lparr>hd_encoded := hd_encoded ?d3 @ [annex_b nal], hd_pushed := hd_pushed ?d3 @ [annex_b nal]\<rparr>"
  note d2 = drains_inv [OF inv, of "dv_drains v"]
  have none2: "hd_terminal_error ?d2 = None" using d2 none by simp
  have "unat (hd_queued_buffers ?d2) < MAX_ENCODED_BUFFERS" "current_level_bytes ?d2 + length (annex_b nal) \<le> MAX_ENCODED_BYTES"
    using room d2 by (auto simp: annex_b_def)
  note push = push_inv [OF conjunct1 [OF d2] none2 this room(1)]
  have inv4: "decoder_inv ?d4" and term4: "hd_terminal_error ?d4 = None" using push(1) none2 by simp_all
  obtain r5 d5 where five: "check_health (dv_after v) ?d4 = (r5, d5)" by force
  have inv5: "decoder_inv d5" using check_health_inv [OF inv4, of "dv_after v"] five by simp
  have frames: "decoder_inv (d5\<lparr>hd_frames := fs\<rparr>)" if "hd_frames d5 = f # fs" for f fs
    using inv5 that by (simp add: decoder_inv_def current_level_bytes_def)
  have closed: "decoder_inv (d5\<lparr>hd_terminal_error := Some FrameChannelClosed\<rparr>)" if "hd_terminal_error d5 = None"
    using terminal_inv [OF inv5 that] by simp
  note errs = terminal_inv [OF conjunct1 [OF d2] none2, of BufferAllocationFailed]
    terminal_inv [OF conjunct1 [OF d2] none2, of BufferMappingFailed]
  have run: "decode_inner v nal d =
    (if \<not> dv_alloc v then (Inl BufferAllocationFailed, ?d2) else if \<not> dv_map v then (Inl BufferMappingFailed, ?d2)
     else if \<not> dv_push v then (Inl PushFailed, ?d3)
     else case r5 of Inl err \<Rightarrow> (Inl err, d5) | Inr _ \<Rightarrow>
       (case hd_frames d5 of frame # rest \<Rightarrow> (Inr (Some frame), d5\<lparr>hd_frames := rest\<rparr>)
        | [] \<Rightarrow> (if hd_frames_open d5 then Inr None else Inl FrameChannelClosed, d5)))"
    using room start five by (simp add: decode_inner_def Let_def split: sum.splits)
  from check_health_cases [OF five] term4 d2 show ?thesis
    unfolding decode_def run using errs push(2) inv5 frames closed
    by (auto simp: decode_ok_def split: list.splits)
qed

lemma decode_keeps:
  assumes inv: "decoder_inv d"
  shows "decode_ok d nal (decode v nal d)"
proof (cases "hd_terminal_error d")
  case (Some e)
  then have "decode v nal d = (Inl e, d)"
    by (simp add: decode_def decode_inner_def check_health_def)
  with Some inv show ?thesis by (simp add: decode_ok_def)
next
  case None
  obtain r d1 where health: "check_health (dv_before v) d = (r, d1)" by force
  have inv1: "decoder_inv d1" using check_health_inv [OF inv, of "dv_before v"] health by simp
  from check_health_cases [OF health] None
  consider (bad) e where "r = Inl e" "d1 = d\<lparr>hd_terminal_error := Some e\<rparr>" | (good) "r = Inr ()" "d1 = d"
    by auto
  then show ?thesis
  proof cases
    case bad
    with inv1 health show ?thesis by (simp add: decode_ok_def decode_def decode_inner_def)
  next
    case good
    note start = health [unfolded good]
    have "decode_inner v nal d = (Inl EncodedQueueOverflow, d)" if "nal \<noteq> []" "encoded_full nal d"
      using that start by (auto simp: decode_inner_def Let_def)
    moreover have "decode_inner v [] d = (Inr None, d)" using start by (simp add: decode_inner_def)
    ultimately show ?thesis
      using decode_admitted [OF inv None start] inv None terminal_inv [OF inv None, of EncodedQueueOverflow]
      by (cases "nal = []"; cases "encoded_full nal d") (simp_all add: decode_ok_def decode_def)
  qed
qed

section \<open>Faithful streaming\<close>

fun released :: "bytes option list \<Rightarrow> bytes list" where
  "released [] = []"
| "released (None # os) = released os"
| "released (Some nal # os) = nal # released os"

lemma released_append [simp]: "released (xs @ ys) = released xs @ released ys"
  by (induction xs rule: released.induct) simp_all

lemma process_all_snoc:
  "process_all (ps @ [(payload, s, ts)]) r =
     (let (outs, r1) = process_all ps r; (out, r2) = process_rtp_packet payload s ts r1 in (outs @ [out], r2))"
  by (induction ps r rule: process_all.induct) (auto split: prod.splits)

lemma packets_append: "packets (xs @ ys) = packets xs @ packets ys"
  by (induction xs rule: packets.induct) simp_all

lemma released_nonempty: "process_rtp_packet payload s ts r = (Some nal, r') \<Longrightarrow> nal \<noteq> []"
  unfolding process_rtp_packet_def process_payload_def
  by (auto simp: process_fu_a_def Let_def split: list.splits if_splits)

definition nal_units :: "rtp_packet list \<Rightarrow> bytes list" where
  "nal_units ps = released (fst (process_all ps h264_new))"

lemma nal_units_snoc:
  "nal_units (ps @ [(payload, s, ts)]) =
     nal_units ps @ (case fst (process_rtp_packet payload s ts (snd (process_all ps h264_new))) of None \<Rightarrow> [] | Some nal \<Rightarrow> [nal])"
  by (auto simp: nal_units_def process_all_snoc split: prod.splits option.splits)

definition stream_inv :: "rtp_packet list \<Rightarrow> video_stream \<Rightarrow> bool" where
  "stream_inv ps s \<longleftrightarrow>
     decoder_inv (vs_decoder s) \<and> prefix (hd_pushed (vs_decoder s)) (map annex_b (nal_units ps)) \<and>
     (vs_running s \<longrightarrow>
        vs_reassembler s = snd (process_all ps h264_new) \<and> hd_pushed (vs_decoder s) = map annex_b (nal_units ps) \<and>
        hd_terminal_error (vs_decoder s) = None)"

lemma stream_inv_start: "stream_inv [] video_start"
  using decoder_new_inv by (simp add: stream_inv_def video_start_def nal_units_def) (simp add: h264_decoder_new_def)

lemma deliver_decoder:
  "vs_decoder (fst (video_deliver L now g frame (s, bus))) = vs_decoder s"
  "vs_reassembler (fst (video_deliver L now g frame (s, bus))) = vs_reassembler s"
  by (auto simp: video_deliver_def Let_def split: prod.splits sum.splits send_error.splits)

lemma stream_inv_more: "stream_inv ps s \<Longrightarrow> \<not> vs_running s \<Longrightarrow> stream_inv (ps @ [q]) s"
  by (cases q) (auto simp: stream_inv_def nal_units_snoc)

lemma stream_inv_decoder:
  assumes "stream_inv ps s" "decoder_inv d" "hd_pushed d = hd_pushed (vs_decoder s)" "hd_terminal_error d = hd_terminal_error (vs_decoder s)"
  shows "stream_inv ps (s\<lparr>vs_decoder := d\<rparr>)"
  using assms by (simp add: stream_inv_def)

lemma health_poll_inv: "stream_inv ps s \<Longrightarrow> stream_inv ps (video_health_poll m s)"
proof -
  assume inv: "stream_inv ps s"
  obtain r d where check: "check_health m (vs_decoder s) = (r, d)" by force
  have "decoder_inv d" using check_health_inv [of "vs_decoder s" m] inv check by (simp add: stream_inv_def)
  moreover have "hd_pushed d = hd_pushed (vs_decoder s)" "r = Inr u \<Longrightarrow> d = vs_decoder s" for u
    using check_health_cases [OF check] by auto
  ultimately show ?thesis
    using inv by (cases r) (simp_all add: video_health_poll_def check stream_inv_def)
qed

lemma packet_inv:
  assumes inv: "stream_inv ps s" and run: "vs_running s"
  shows "stream_inv (ps @ [(payload, sq, ts)]) (fst (video_packet L now g v (Some (payload, sq, ts)) (s, bus)))"
proof -
  have now: "vs_reassembler s = snd (process_all ps h264_new)" "hd_pushed (vs_decoder s) = map annex_b (nal_units ps)" "decoder_inv (vs_decoder s)"
    using inv run by (simp_all add: stream_inv_def)
  obtain out r where rtp: "process_rtp_packet payload sq ts (vs_reassembler s) = (out, r)" by force
  then have next_r: "snd (process_all (ps @ [(payload, sq, ts)]) h264_new) = r"
    and units: "nal_units (ps @ [(payload, sq, ts)]) = nal_units ps @ (case out of None \<Rightarrow> [] | Some nal \<Rightarrow> [nal])"
    unfolding now(1) by (simp_all add: nal_units_snoc process_all_snoc case_prod_beta Let_def)
  show ?thesis
  proof (cases out)
    case None
    with rtp inv run next_r units show ?thesis by (simp add: video_packet_def stream_inv_def)
  next
    case (Some nal)
    have "nal \<noteq> []" using released_nonempty rtp Some by blast
    obtain res d where dec: "decode v nal (vs_decoder s) = (res, d)" by force
    have ok: "decode_ok (vs_decoder s) nal (res, d)" using decode_keeps [OF now(3), of nal v] dec by simp
    show ?thesis
    proof (cases res)
      case (Inl e)
      with ok now rtp Some dec units show ?thesis by (auto simp: video_packet_def stream_inv_def decode_ok_def)
    next
      case (Inr f)
      with ok now rtp Some dec units next_r run \<open>nal \<noteq> []\<close>
      have "stream_inv (ps @ [(payload, sq, ts)]) (s\<lparr>vs_reassembler := r, vs_decoder := d\<rparr>)"
        by (auto simp: stream_inv_def decode_ok_def)
      moreover have "stream_inv qs (fst (video_deliver L now g frame (s', bus)))" if "stream_inv qs s'" "vs_running s'" for qs s' frame
        using that unfolding stream_inv_def deliver_decoder by simp
      ultimately show ?thesis using Inr rtp Some dec run by (auto simp: video_packet_def split: option.splits)
    qed
  qed
qed

lemma input_inv: "stream_inv ps s \<Longrightarrow> stream_inv (ps @ packets [i]) (fst (video_input_step L g i (s, bus)))"
proof (cases i)
  case (Packet_Read now v packet)
  assume inv: "stream_inv ps s"
  show ?thesis
  proof (cases "vs_running s")
    case True
    show ?thesis
    proof (cases packet)
      case None
      with Packet_Read inv True show ?thesis by (simp add: video_input_step_def video_packet_def stream_inv_def)
    next
      case (Some p)
      obtain payload sq ts where "p = (payload, sq, ts)" by (cases p) auto
      with Packet_Read Some True packet_inv [OF inv True] show ?thesis by (simp add: video_input_step_def)
    qed
  next
    case False
    with Packet_Read inv stream_inv_more [OF inv False] show ?thesis by (cases packet) (simp_all add: video_input_step_def)
  qed
next
  case (Pipeline x)
  assume inv: "stream_inv ps s"
  then show ?thesis
    using Pipeline by (auto simp: video_input_step_def stream_inv_def drain_inv intro!: stream_inv_decoder)
next
  case (Sample frame)
  assume inv: "stream_inv ps s"
  then have "decoder_inv (sample_ready frame (vs_decoder s))"
    by (simp add: stream_inv_def decoder_inv_def sample_ready_def channel_try_send_def current_level_bytes_def)
  with inv Sample show ?thesis
    by (auto simp: video_input_step_def intro!: stream_inv_decoder) (simp_all add: sample_ready_def)
next
  case Sink_Closed
  assume inv: "stream_inv ps s"
  then have "decoder_inv ((vs_decoder s)\<lparr>hd_frames_open := False\<rparr>)"
    by (simp add: stream_inv_def decoder_inv_def current_level_bytes_def)
  with inv Sink_Closed show ?thesis by (auto simp: video_input_step_def intro!: stream_inv_decoder)
qed (simp_all add: video_input_step_def health_poll_inv)

lemma video_run_inv: "stream_inv (packets inputs) (fst (video_run L g inputs bus))"
proof (induction inputs rule: rev_induct)
  case Nil
  then show ?case by (simp add: video_run_def stream_inv_start)
next
  case (snoc i inputs)
  then show ?case
    using input_inv [OF snoc, of i L g "snd (video_run L g inputs bus)"] by (simp add: video_run_def packets_append)
qed

text \<open>
  Property C21. Video is decoded without gaps or substitutions: whatever the pipeline, the bus and the callback
  channel do, what the decoder was given is at every moment an initial part of the NAL units the RTP packets
  carry, each once, in order, behind its start code; while the handler runs it is all of them. A unit
  that cannot be queued ends the stream instead of being skipped.
\<close>

theorem video_stream_faithful:
  "let s = fst (video_run L g inputs bus) in
     prefix (hd_pushed (vs_decoder s)) (map annex_b (nal_units (packets inputs))) \<and>
     (vs_running s \<longrightarrow> hd_pushed (vs_decoder s) = map annex_b (nal_units (packets inputs)) \<and>
        hd_terminal_error (vs_decoder s) = None)"
  using video_run_inv [of inputs L g bus] by (simp add: stream_inv_def Let_def)

theorem video_stream_faithful_witness:
  "hd_pushed (vs_decoder (fst (video_run layout64 0
      [Packet_Read 0 \<lparr>dv_before = None, dv_drains = [Take_Buffer], dv_alloc = True, dv_map = True, dv_push = True, dv_after = None\<rparr>
        (Some ([0x65, 1], 7, 9))] bus0))) = [[0, 0, 0, 1, 0x65, 1]]"
proof -
  let ?v = "\<lparr>dv_before = None, dv_drains = [Take_Buffer], dv_alloc = True, dv_map = True, dv_push = True, dv_after = None\<rparr>"
  have nal: "process_rtp_packet [0x65, 1] 7 9 h264_new = (Some [0x65, 1], h264_reset h264_new)"
    by (simp add: process_rtp_packet_def process_payload_def policy_defs)
  then have "vs_running (fst (video_run layout64 0 [Packet_Read 0 ?v (Some ([0x65, 1], 7, 9))] bus0))"
    by (simp add: video_run_def video_input_step_def video_packet_def video_start_def decode_def decode_inner_def check_health_def
        h264_decoder_new_def current_level_bytes_def policy_defs)
  moreover have "nal_units [([0x65, 1], 7, 9)] = [[0x65, 1]]" using nal by (simp add: nal_units_def)
  ultimately show ?thesis
    using video_stream_faithful [of layout64 0 "[Packet_Read 0 ?v (Some ([0x65, 1], 7, 9))]" bus0]
    by (simp add: Let_def annex_b_def)
qed

text \<open>
  The decoder's queues are bounded in every interleaving of packets, health polls and pipeline
  threads: at most 64 encoded buffers of together at most 8 MiB are queued, the counter that stands for them
  never wraps below zero, and at most four decoded frames wait.
\<close>

theorem video_queue_bounded:
  "let d = vs_decoder (fst (video_run L g inputs bus)) in
     length (hd_encoded d) \<le> 64 \<and> current_level_bytes d \<le> 8 * 1024 * 1024 \<and> length (hd_frames d) \<le> 4 \<and>
     length (hd_encoded d) + hd_taken d \<le> unat (hd_queued_buffers d) \<and> unat (hd_queued_buffers d) \<le> 65"
  using video_run_inv [of inputs L g bus] by (auto simp: stream_inv_def decoder_inv_def Let_def policy_defs split: if_splits)

end
