(* ===== verification/Audio_Receive.thy ===== *)
theory Audio_Receive
  imports Data_Channel
begin

text \<open>
  \<open>src/src/audio/receive/codec.rs\<close> and \<open>service.rs\<close>: decoding of the robot's Opus packets and the handler that passes the
  samples to the callback channel, and the encoder. The Opus library is a parameter with its own state; what the
  code relies on of it is \<open>opus_contract\<close>.
\<close>

section \<open>Codec\<close>

text \<open>The library's decoder: its new state, the decoded samples per channel or an error, and the output buffer.\<close>

type_synonym 'd opus_decode = "bytes \<Rightarrow> int list \<Rightarrow> 'd \<Rightarrow> (string + nat) \<times> int list \<times> 'd"
type_synonym 'e opus_encode = "int list \<Rightarrow> bytes \<Rightarrow> 'e \<Rightarrow> (string + nat) \<times> bytes \<times> 'e"

datatype opus_channels = Mono | Stereo

record decoded_audio =
  da_data :: "int list"
  da_sample_rate :: nat
  da_channels :: nat

record 'd opus_decoder =
  od_decoder :: 'd
  od_pcm_buffer :: "int list"
  od_sample_rate :: nat
  od_channels :: nat

definition channels_of :: "nat \<Rightarrow> string + opus_channels" where
  "channels_of channels =
     (if channels = 1 then Inr Mono else if channels = 2 then Inr Stereo
      else Inl (''Unsupported channels: '' @ show_int (int channels)))"

definition opus_decoder_new :: "(nat \<Rightarrow> opus_channels \<Rightarrow> string + 'd) \<Rightarrow> nat \<Rightarrow> nat \<Rightarrow> string + 'd opus_decoder" where
  "opus_decoder_new library sample_rate channels =
     and_then (channels_of channels) (\<lambda>ch.
       case library sample_rate ch of
         Inl e \<Rightarrow> Inl (''Failed to create Opus decoder: '' @ e)
       | Inr d \<Rightarrow> Inr \<lparr>od_decoder = d, od_pcm_buffer = replicate (sample_rate * 120 div 1000 * channels) 0,
                      od_sample_rate = sample_rate, od_channels = channels\<rparr>)"

text \<open>\<open>None\<close> is the panic of slicing past the end of the buffer.\<close>

definition opus_decode_packet ::
  "'d opus_decode \<Rightarrow> bytes \<Rightarrow> 'd opus_decoder \<Rightarrow> ((string + decoded_audio) \<times> 'd opus_decoder) option" where
  "opus_decode_packet library opus_data s =
     (if opus_data = []
      then Some (Inr \<lparr>da_data = [], da_sample_rate = od_sample_rate s, da_channels = od_channels s\<rparr>, s)
      else case library opus_data (od_pcm_buffer s) (od_decoder s) of
        (r, pcm, d) \<Rightarrow>
          let s1 = s\<lparr>od_decoder := d, od_pcm_buffer := pcm\<rparr> in
          (case r of
             Inl e \<Rightarrow> Some (Inl (''Opus decode error: '' @ e), s1)
           | Inr decoded_samples \<Rightarrow>
               let actual = decoded_samples * od_channels s in
               if length pcm < actual then None
               else Some (Inr \<lparr>da_data = take actual pcm, da_sample_rate = od_sample_rate s, da_channels = od_channels s\<rparr>, s1)))"

record 'e opus_encoder =
  oe_encoder :: 'e
  oe_opus_buffer :: bytes

definition opus_encoder_new :: "(nat \<Rightarrow> opus_channels \<Rightarrow> string + 'e) \<Rightarrow> nat \<Rightarrow> nat \<Rightarrow> string + 'e opus_encoder" where
  "opus_encoder_new library sample_rate channels =
     and_then (channels_of channels) (\<lambda>ch.
       case library sample_rate ch of
         Inl e \<Rightarrow> Inl (''Failed to create Opus encoder: '' @ e)
       | Inr x \<Rightarrow> Inr \<lparr>oe_encoder = x, oe_opus_buffer = replicate 4000 0\<rparr>)"

definition opus_encode_pcm :: "'e opus_encode \<Rightarrow> int list \<Rightarrow> 'e opus_encoder \<Rightarrow> ((string + bytes) \<times> 'e opus_encoder) option" where
  "opus_encode_pcm library pcm_data s =
     (if pcm_data = [] then Some (Inr [], s)
      else case library pcm_data (oe_opus_buffer s) (oe_encoder s) of
        (r, buf, x) \<Rightarrow>
          let s1 = s\<lparr>oe_encoder := x, oe_opus_buffer := buf\<rparr> in
          (case r of
             Inl e \<Rightarrow> Some (Inl (''Opus encode error: '' @ e), s1)
           | Inr n \<Rightarrow> if length buf < n then None else Some (Inr (take n buf), s1)))"

section \<open>The stream handler\<close>

record 'd audio_stream =
  au_decoder :: "'d opus_decoder"
  au_frame_drops :: repeat_log
  au_decode_errors :: repeat_log
  au_frame_count :: nat
  au_running :: bool

definition audio_start :: "(nat \<Rightarrow> opus_channels \<Rightarrow> string + 'd) \<Rightarrow> 'd audio_stream option" where
  "audio_start library =
     (case opus_decoder_new library 48000 2 of
        Inl _ \<Rightarrow> None
      | Inr d \<Rightarrow> Some \<lparr>au_decoder = d, au_frame_drops = repeat_log_new ''audio_frame_drop'' ''callback_queue_full'',
                     au_decode_errors = repeat_log_new ''audio_decode_error'' ''invalid_opus_packet'', au_frame_count = 0, au_running = True\<rparr>)"

definition audio_deliver ::
  "layout \<Rightarrow> instant \<Rightarrow> u64 \<Rightarrow> decoded_audio \<Rightarrow> 'd audio_stream \<times> event_bus \<Rightarrow> 'd audio_stream \<times> event_bus" where
  "audio_deliver L now generation audio = (\<lambda>(s, bus).
     if da_data audio = [] then (s, bus)
     else
       let s1 = s\<lparr>au_frame_count := Suc (au_frame_count s)\<rparr> in
       case try_send L generation (AudioFrame (da_data audio) (da_sample_rate audio) (da_channels audio)) bus of
         (Inr _, bus') \<Rightarrow> (s1, bus')
       | (Inl (Full _), bus') \<Rightarrow> (s1\<lparr>au_frame_drops := snd (rl_record now (au_frame_drops s1))\<rparr>, bus')
       | (Inl (Disconnected _), bus') \<Rightarrow> (s1\<lparr>au_running := False\<rparr>, bus'))"

text \<open>One read of the track: \<open>None\<close> as the packet is a read error, \<open>None\<close> as the result a panic.\<close>

definition audio_packet ::
  "'d opus_decode \<Rightarrow> layout \<Rightarrow> instant \<Rightarrow> u64 \<Rightarrow> bytes option \<Rightarrow> 'd audio_stream \<times> event_bus \<Rightarrow> ('d audio_stream \<times> event_bus) option" where
  "audio_packet library L now generation packet = (\<lambda>(s, bus).
     if \<not> au_running s then Some (s, bus)
     else case packet of
       None \<Rightarrow> Some (s\<lparr>au_running := False\<rparr>, bus)
     | Some opus_data \<Rightarrow>
         (case opus_decode_packet library opus_data (au_decoder s) of
            None \<Rightarrow> None
          | Some (Inl _, d) \<Rightarrow> Some (s\<lparr>au_decoder := d, au_decode_errors := snd (rl_record now (au_decode_errors s))\<rparr>, bus)
          | Some (Inr audio, d) \<Rightarrow> Some (audio_deliver L now generation audio (s\<lparr>au_decoder := d\<rparr>, bus))))"

text \<open>Reads of the handler, each on the callback channel as everybody has left it by then.\<close>

fun audio_run ::
  "'d opus_decode \<Rightarrow> layout \<Rightarrow> u64 \<Rightarrow> (instant \<times> bytes option \<times> event_bus) list \<Rightarrow> 'd audio_stream \<Rightarrow> 'd audio_stream option" where
  "audio_run library L g [] s = Some s"
| "audio_run library L g ((now, packet, bus) # inputs) s =
     (case audio_packet library L now g packet (s, bus) of
        None \<Rightarrow> None
      | Some (s1, _) \<Rightarrow> audio_run library L g inputs s1)"

section \<open>Properties\<close>

text \<open>What the handler relies on: the library keeps the length of the buffer it is given, and reports no more samples
  than fit into it with two channels.\<close>

definition opus_contract :: "'d opus_decode \<Rightarrow> bool" where
  "opus_contract library \<longleftrightarrow>
     (\<forall>data pcm d. case library data pcm d of (r, pcm', d') \<Rightarrow> length pcm' = length pcm \<and> (\<forall>n. r = Inr n \<longrightarrow> 2 * n \<le> length pcm))"

definition stereo_inv :: "'d audio_stream \<Rightarrow> bool" where
  "stereo_inv s \<longleftrightarrow> length (od_pcm_buffer (au_decoder s)) = 11520 \<and> od_sample_rate (au_decoder s) = 48000 \<and> od_channels (au_decoder s) = 2"

text \<open>The samples of a packet, if there are any.\<close>

definition packet_samples :: "'d opus_decode \<Rightarrow> bytes \<Rightarrow> 'd opus_decoder \<Rightarrow> int list" where
  "packet_samples library data s =
     (if data = [] then []
      else case library data (od_pcm_buffer s) (od_decoder s) of (Inl _, _) \<Rightarrow> [] | (Inr n, pcm, _) \<Rightarrow> take (2 * n) pcm)"

lemma opus_contractD:
  assumes "opus_contract library" "library data pcm d = (r, pcm', d')"
  shows "length pcm' = length pcm" "r = Inr n \<Longrightarrow> 2 * n \<le> length pcm"
proof -
  have "case library data pcm d of (r, pcm', d') \<Rightarrow> length pcm' = length pcm \<and> (\<forall>n. r = Inr n \<longrightarrow> 2 * n \<le> length pcm)"
    by (rule assms(1) [unfolded opus_contract_def, THEN spec, THEN spec, THEN spec])
  then show "length pcm' = length pcm" "r = Inr n \<Longrightarrow> 2 * n \<le> length pcm" using assms(2) by auto
qed

lemma decode_total:
  assumes "opus_contract library" "stereo_inv s"
  shows "\<exists>r d. opus_decode_packet library data (au_decoder s) = Some (r, d) \<and>
    length (od_pcm_buffer d) = 11520 \<and> od_sample_rate d = 48000 \<and> od_channels d = 2 \<and>
    (case r of Inl _ \<Rightarrow> packet_samples library data (au_decoder s) = []
     | Inr audio \<Rightarrow> audio = \<lparr>da_data = packet_samples library data (au_decoder s), da_sample_rate = 48000, da_channels = 2\<rparr>)"
proof -
  obtain r pcm d where lib: "library data (od_pcm_buffer (au_decoder s)) (od_decoder (au_decoder s)) = (r, pcm, d)"
    by (cases "library data (od_pcm_buffer (au_decoder s)) (od_decoder (au_decoder s))")
  have con: "length pcm = 11520" "\<And>n. r = Inr n \<Longrightarrow> 2 * n \<le> 11520"
    using opus_contractD [OF assms(1) lib] assms(2) by (simp_all add: stereo_inv_def)
  show ?thesis
    using assms(2) con by (cases r) (auto simp: opus_decode_packet_def packet_samples_def lib stereo_inv_def Let_def mult.commute)
qed

lemma audio_packet_step:
  assumes "opus_contract library" "stereo_inv s" "au_running s"
  shows "\<exists>s'. stereo_inv s' \<and> audio_packet library L now g (Some data) (s, bus) = Some (s',
    if packet_samples library data (au_decoder s) = [] then bus
    else snd (try_send L g (AudioFrame (packet_samples library data (au_decoder s)) 48000 2) bus))"
proof -
  obtain r d where dec: "opus_decode_packet library data (au_decoder s) = Some (r, d)"
      and d: "length (od_pcm_buffer d) = 11520" "od_sample_rate d = 48000" "od_channels d = 2"
      and r: "case r of Inl _ \<Rightarrow> packet_samples library data (au_decoder s) = []
     | Inr audio \<Rightarrow> audio = \<lparr>da_data = packet_samples library data (au_decoder s), da_sample_rate = 48000, da_channels = 2\<rparr>"
    using decode_total [OF assms(1,2), of data] by blast
  show ?thesis
  proof (cases r)
    case (Inl e)
    then show ?thesis using assms(3) dec d r by (auto simp: audio_packet_def stereo_inv_def)
  next
    case (Inr audio)
    obtain res bus' where send: "try_send L g (AudioFrame (packet_samples library data (au_decoder s)) 48000 2) bus = (res, bus')" by force
    then show ?thesis
      using Inr assms(3) dec d r
      by (auto simp: audio_packet_def audio_deliver_def stereo_inv_def Let_def split: sum.split send_error.split)
  qed
qed

lemma audio_run_total:
  assumes "opus_contract library" "stereo_inv s"
  shows "\<exists>t. audio_run library L g inputs s = Some t \<and> stereo_inv t"
  using assms(2)
proof (induction inputs arbitrary: s)
  case (Cons i inputs)
  obtain now packet bus where i: "i = (now, packet, bus)" by (cases i)
  have "\<exists>s' b'. audio_packet library L now g packet (s, bus) = Some (s', b') \<and> stereo_inv s'"
  proof (cases "au_running s \<and> packet \<noteq> None")
    case True
    then show ?thesis using audio_packet_step [OF assms(1) Cons.prems] by blast
  next
    case False
    then show ?thesis using Cons.prems by (auto simp: audio_packet_def stereo_inv_def)
  qed
  then show ?case using Cons.IH by (auto simp: i)
qed simp

text \<open>
  Received audio is passed on exactly: as long as the Opus library keeps to its buffer, no sequence of packets makes the
  handler panic, and while it runs each packet offers the callback channel exactly the samples decoded from it - at most
  120 ms in two channels at 48 kHz - in one event, and nothing if it is empty or cannot be decoded.
\<close>

theorem audio_receive_exact:
  assumes "opus_contract library" "audio_start new_decoder = Some s0"
  shows "\<exists>s. audio_run library L g inputs s0 = Some s \<and>
    (au_running s \<longrightarrow> (\<forall>now data bus. \<exists>s'. audio_packet library L now g (Some data) (s, bus) = Some (s',
        if packet_samples library data (au_decoder s) = [] then bus
        else snd (try_send L g (AudioFrame (packet_samples library data (au_decoder s)) 48000 2) bus)) \<and>
      length (packet_samples library data (au_decoder s)) \<le> 11520))"
proof -
  have "stereo_inv s0"
    using assms(2) by (auto simp: audio_start_def opus_decoder_new_def channels_of_def stereo_inv_def split: sum.splits)
  then obtain s where s: "audio_run library L g inputs s0 = Some s" "stereo_inv s"
    using audio_run_total [OF assms(1)] by blast
  have "length (packet_samples library data (au_decoder s)) \<le> 11520" for data
    using opus_contractD [OF assms(1)] s(2) by (fastforce simp: packet_samples_def stereo_inv_def split: prod.splits sum.splits)
  then show ?thesis using s audio_packet_step [OF assms(1) s(2)] by blast
qed

text \<open>A library that decodes every packet to one sample per channel.\<close>

definition constant_opus :: "unit opus_decode" where
  "constant_opus data pcm d = (if length pcm < 2 then Inl ''short'' else Inr 1, pcm, d)"

theorem audio_receive_exact_witness:
  "opus_contract constant_opus \<and>
   (\<exists>s. audio_run constant_opus layout64 0 [(0, Some [1], bus0)] (the (audio_start (\<lambda>_ _. Inr ()))) = Some s)"
proof -
  have start: "audio_start (\<lambda>_ _. Inr ()) = Some (the (audio_start (\<lambda>_ _. Inr ())))"
    by (simp add: audio_start_def opus_decoder_new_def channels_of_def)
  have "opus_contract constant_opus" by (auto simp: opus_contract_def constant_opus_def)
  with audio_receive_exact [OF this start] show ?thesis by blast
qed

end
