(* ===== verification/Media_Sink.thy ===== *)
theory Media_Sink
  imports Video Audio_Receive
begin

text \<open>
  The interface between the media handlers (\<open>src/src/video/service.rs\<close>, \<open>src/src/audio/receive/service.rs\<close>) and the
  callback channel (\<open>src/src/protocol/events.rs\<close>): a handler touches the channel only by sends with the generation of its peer.
  What the channel needs follows for both.
\<close>

definition media_event :: "callback_event \<Rightarrow> bool" where
  "media_event ev \<longleftrightarrow> (case ev of VideoFrame _ _ _ \<Rightarrow> True | AudioFrame _ _ _ \<Rightarrow> True | _ \<Rightarrow> False)"

lemma media_event_class: "media_event ev \<Longrightarrow> \<exists>n. event_size L ev = (1, n)"
  by (cases ev) (simp_all add: media_event_def)

text \<open>What one send of a media event does to a channel: nothing, or the event joins the media queue within the budget.\<close>

definition media_offer :: "layout \<Rightarrow> u64 \<Rightarrow> event_bus \<Rightarrow> event_bus \<Rightarrow> bool" where
  "media_offer L g b b' \<longleftrightarrow>
     b' = b \<or>
     (\<exists>d. d_generation d = g \<and> d_class d = 1 \<and> sized L d \<and> eb_current b = g \<and> eb_receiver b \<and> \<not> exceeds 1 (d_bytes d) b \<and>
        b' = enqueue d b)"

lemma media_unchanged: "media_offer L g b b"
  by (simp add: media_offer_def)

lemma media_send:
  assumes "bus_inv L b" "media_event ev"
  shows "media_offer L g b (snd (try_send L g ev b))"
proof -
  obtain n where n: "event_size L ev = (1, n)" using media_event_class [OF assms(2)] by blast
  let ?d = "\<lparr>d_event = Some ev, d_generation = g, d_class = 1, d_bytes = n\<rparr>"
  have "sized L ?d" by (simp add: sized_def n)
  moreover have "try_send L g ev b = (if eb_current b \<noteq> g then (Inl (Full ev), b) else if \<not> eb_receiver b then (Inl (Disconnected ev), b)
      else if exceeds 1 n b then (Inl (Full ev), b) else (Inr (), enqueue ?d b))"
    using try_send_locked_outcome [OF assms(1) n] by (simp add: try_send_def)
  ultimately show ?thesis by (auto simp: media_offer_def intro!: exI [of _ ?d])
qed

locale media_handler =
  fixes L :: layout and generation :: u64
    and step :: "'i \<Rightarrow> 's \<times> event_bus \<Rightarrow> 's \<times> event_bus" and running :: "'s \<Rightarrow> bool"
  assumes sends: "snd (step i (s, b)) = b \<or> (\<exists>ev. media_event ev \<and> snd (step i (s, b)) = snd (try_send L generation ev b))"
    and stopped: "\<not> running s \<Longrightarrow> step i (s, b) = (s, b)"
begin

lemma stale_silent: "eb_current b \<noteq> generation \<Longrightarrow> snd (step i (s, b)) = b"
  using sends [of i s b] by (auto simp: try_send_def)

lemma offers: "bus_inv L b \<Longrightarrow> media_offer L generation b (snd (step i (s, b)))"
  using sends [of i s b] media_send [of L b _ generation] media_unchanged by metis

lemma keeps_reachable:
  assumes "bus_reachable L b"
  shows "bus_reachable L (snd (step i (s, b)))"
  using sends [of i s b] assms bus_reachable.step [OF assms bus_step.send] by auto

fun handler_run :: "('i \<times> (event_bus \<Rightarrow> event_bus)) list \<Rightarrow> 's \<times> event_bus \<Rightarrow> 's \<times> event_bus" where
  "handler_run [] x = x"
| "handler_run ((i, others) # is) x = handler_run is (case step i x of (s, b) \<Rightarrow> (s, others b))"

lemma run_keeps_reachable:
  assumes "bus_reachable L b" "\<And>f b. f \<in> snd ` set is \<Longrightarrow> bus_reachable L b \<Longrightarrow> bus_reachable L (f b)"
  shows "bus_reachable L (snd (handler_run is (s, b)))"
  using assms
proof (induction "is" arbitrary: s b)
  case (Cons p "is")
  obtain i f where p: "p = (i, f)" by force
  obtain s' b' where st: "step i (s, b) = (s', b')" by force
  have "bus_reachable L b'" using keeps_reachable [OF Cons.prems(1), of i s] st by simp
  then have "bus_reachable L (f b')" using Cons.prems(2) [of f] p by auto
  then show ?case using Cons.IH [of "f b'" s'] Cons.prems(2) p st by auto
qed simp

lemma run_stopped: "\<not> running s \<Longrightarrow> fst (handler_run is (s, b)) = s"
  by (induction "is" arbitrary: b) (auto simp: stopped split: prod.split)

end

section \<open>The two handlers\<close>

text \<open>One action of the handler itself: a health poll or a read of the track. A panic ends its task.\<close>

fun video_action :: "layout \<Rightarrow> u64 \<Rightarrow> bus_message option + (instant \<times> decode_env \<times> rtp_packet option) \<Rightarrow>
    video_stream \<times> event_bus \<Rightarrow> video_stream \<times> event_bus" where
  "video_action L g (Inl message) = video_input_step L g (Health_Poll message)"
| "video_action L g (Inr (now, v, packet)) = video_input_step L g (Packet_Read now v packet)"

definition audio_action :: "'d opus_decode \<Rightarrow> layout \<Rightarrow> u64 \<Rightarrow> instant \<times> bytes option \<Rightarrow> 'd audio_stream \<times> event_bus \<Rightarrow> 'd audio_stream \<times> event_bus" where
  "audio_action library L g = (\<lambda>(now, packet) x. case audio_packet library L now g packet x of
     None \<Rightarrow> ((fst x)\<lparr>au_running := False\<rparr>, snd x) | Some r \<Rightarrow> r)"

lemma video_deliver_sends:
  "snd (video_deliver L now g frame (s, b)) = snd (try_send L g (VideoFrame (df_data frame) (df_width frame) (df_height frame)) b)"
  by (auto simp: video_deliver_def Let_def split: prod.split sum.split send_error.split)

lemma audio_deliver_sends:
  "snd (audio_deliver L now g audio (s, b)) =
     (if da_data audio = [] then b else snd (try_send L g (AudioFrame (da_data audio) (da_sample_rate audio) (da_channels audio)) b))"
  by (auto simp: audio_deliver_def Let_def split: prod.split sum.split send_error.split)

lemma video_packet_sends:
  "snd (video_packet L now g v packet (s, b)) = b \<or> (\<exists>ev. media_event ev \<and> snd (video_packet L now g v packet (s, b)) = snd (try_send L g ev b))"
proof -
  have "media_event (VideoFrame x y z)" for x y z by (simp add: media_event_def)
  then show ?thesis by (auto simp: video_packet_def video_deliver_sends split: option.split prod.split sum.split)
qed

lemma audio_packet_sends:
  "audio_packet library L now g packet (s, b) = Some r \<Longrightarrow> snd r = b \<or> (\<exists>ev. media_event ev \<and> snd r = snd (try_send L g ev b))"
proof -
  have "media_event (AudioFrame x y z)" for x y z by (simp add: media_event_def)
  then have "snd (audio_deliver L now g audio (s', b)) = b \<or>
      (\<exists>ev. media_event ev \<and> snd (audio_deliver L now g audio (s', b)) = snd (try_send L g ev b))" for audio s'
    unfolding audio_deliver_sends by auto
  then show "audio_packet library L now g packet (s, b) = Some r \<Longrightarrow> ?thesis"
    by (auto simp: audio_packet_def split: option.splits prod.splits sum.splits if_splits)
qed

interpretation vh: media_handler L g "video_action L g" vs_running for L g
proof
  show "snd (video_action L g i (s, b)) = b \<or> (\<exists>ev. media_event ev \<and> snd (video_action L g i (s, b)) = snd (try_send L g ev b))" for i s b
    using video_packet_sends by (cases "(L, g, i)" rule: video_action.cases) (auto simp: video_input_step_def)
  show "video_action L g i (s, b) = (s, b)" if "\<not> vs_running s" for i s b
    using that by (cases "(L, g, i)" rule: video_action.cases) (auto simp: video_input_step_def)
qed

interpretation ah: media_handler L g "audio_action library L g" au_running for L g library
proof
  show "snd (audio_action library L g i (s, b)) = b \<or> (\<exists>ev. media_event ev \<and> snd (audio_action library L g i (s, b)) = snd (try_send L g ev b))" for i s b
    using audio_packet_sends [of library L "fst i" g "snd i" s b] by (auto simp: audio_action_def split: prod.split option.split)
  show "audio_action library L g i (s, b) = (s, b)" if "\<not> au_running s" for i s b
    using that by (auto simp: audio_action_def audio_packet_def split: prod.split)
qed

lemma media_offer_effect:
  assumes "bus_inv L b" "media_offer L g b b'"
  shows "eb_control b' = eb_control b \<and> eb_outstanding b' = eb_outstanding b \<and>
    (b' \<noteq> b \<longrightarrow> eb_current b = g \<and> eb_receiver b \<and> (\<exists>d. eb_media b' = eb_media b @ [d] \<and> d_generation d = g \<and> sized L d)) \<and>
    charge 1 (held b') \<le> 32 * 1024 * 1024 \<and> number 1 (held b') \<le> min (eb_capacity b) 4 \<and>
    u_bytes (eb_usage b') = [charge 0 (held b), charge 1 (held b')] \<and> u_count (eb_usage b') = [number 0 (held b), number 1 (held b')]"
proof -
  have usage: "u_bytes (eb_usage b) = [charge 0 (held b), charge 1 (held b)]" "u_count (eb_usage b) = [number 0 (held b), number 1 (held b)]"
    using assms(1) by (simp_all add: bus_inv_def accounts_def)
  have limits: "charge 1 (held b) \<le> 32 * 1024 * 1024" "number 1 (held b) \<le> min (eb_capacity b) 4"
    using inv_limits [OF assms(1), of 1] by (simp_all add: byte_limit_def count_limit_def policy_defs)
  show ?thesis
  proof (cases "b' = b")
    case False
    then obtain d where d: "d_generation d = g" "d_class d = 1" "sized L d" "eb_current b = g" "eb_receiver b" "\<not> exceeds 1 (d_bytes d) b"
        "b' = enqueue d b"
      using assms(2) by (auto simp: media_offer_def)
    have "held b' = add_mset d (held b)" by (simp add: d(2,7) enqueue_def held_def)
    then show ?thesis
      using d usage by (auto simp: enqueue_def permit_take_def exceeds_def byte_limit_def count_limit_def policy_defs)
  qed (use usage limits in simp)
qed

text \<open>
  Property C27. Media cannot leak into another session or overrun the callback channel: whatever the peer sends, and in every state of the
  channel, one action of a video or audio handler leaves control events and the events owned by callbacks alone and
  either does not touch the channel, or adds one media event of the handler's own generation at the end of the media queue, which
  happens only if that generation is current and the receiver is there; afterwards at most 32 MiB and at most four media events
  are held, and the usage under the lock is exactly what is held.
\<close>

theorem media_handlers_confined:
  assumes "bus_reachable L b" "b' = snd (video_action L g i (s, b)) \<or> b' = snd (audio_action library L g j (t, b))"
  shows "eb_control b' = eb_control b \<and> eb_outstanding b' = eb_outstanding b \<and>
    (b' \<noteq> b \<longrightarrow> eb_current b = g \<and> eb_receiver b \<and> (\<exists>d. eb_media b' = eb_media b @ [d] \<and> d_generation d = g \<and> sized L d)) \<and>
    charge 1 (held b') \<le> 32 * 1024 * 1024 \<and> number 1 (held b') \<le> min (eb_capacity b) 4 \<and>
    u_bytes (eb_usage b') = [charge 0 (held b), charge 1 (held b')] \<and> u_count (eb_usage b') = [number 0 (held b), number 1 (held b')]"
proof (rule media_offer_effect)
  show inv: "bus_inv L b" by (rule bus_reachable_inv [OF assms(1)])
  show "media_offer L g b b'" using assms(2) vh.offers [OF inv] ah.offers [OF inv] by blast
qed

definition mono_stream :: "unit audio_stream" where
  "mono_stream = \<lparr>au_decoder = \<lparr>od_decoder = (), od_pcm_buffer = [3, 4], od_sample_rate = 48000, od_channels = 2\<rparr>,
     au_frame_drops = repeat_log_new [] [], au_decode_errors = repeat_log_new [] [], au_frame_count = 0, au_running = True\<rparr>"

theorem media_handlers_confined_witness:
  "\<exists>b'. b' = snd (audio_action constant_opus layout64 0 (0, Some [1]) (mono_stream, bus0)) \<and> b' \<noteq> bus0 \<and> eb_control b' = [] \<and>
     number 1 (held b') \<le> 1 \<and> (\<exists>d. eb_media b' = [d] \<and> d_generation d = 0)"
proof -
  let ?b = "snd (audio_action constant_opus layout64 0 (0, Some [1]) (mono_stream, bus0))"
  have "?b = snd (try_send layout64 0 (AudioFrame [3, 4] 48000 2) bus0)"
    by (simp add: audio_action_def audio_packet_def opus_decode_packet_def constant_opus_def mono_stream_def audio_deliver_sends)
  then have "?b \<noteq> bus0"
    by (simp add: try_send_def try_send_locked_def bus0_def layout64_def usage_default_def byte_limit_def count_limit_def
        channel_try_send_def permit_take_def policy_defs sat_add_def sat_mul_def usize_max_def)
  with media_handlers_confined [OF bus0_reachable, of ?b layout64 0 _ _ constant_opus "(0, Some [1])" mono_stream]
  show ?thesis by (auto simp: bus0_def)
qed

end
