(* ===== verification/Peer_Setup.thy ===== *)
theory Peer_Setup
  imports Media_Sink
begin

text \<open>
  \<open>src/src/infrastructure/rtc_engine/setup.rs\<close>: building a peer, the codecs it advertises, and the ownership of its media
  handlers. The WebRTC calls answer from outside; the handlers themselves are those of \<open>Video\<close> and \<open>Audio_Receive\<close>, here
  only tasks that run, are aborted and end.
\<close>

section \<open>Codecs\<close>

datatype codec_kind = KindVideo | KindAudio | KindUnspecified

record codec_capability =
  cc_mime_type :: string
  cc_clock_rate :: nat
  cc_codec_channels :: nat

definition eq_ignore_ascii_case :: "string \<Rightarrow> string \<Rightarrow> bool" where
  "eq_ignore_ascii_case a b \<longleftrightarrow> map ascii_lower a = map ascii_lower b"

definition supported_codec :: "codec_kind \<Rightarrow> codec_capability \<Rightarrow> bool" where
  "supported_codec kind codec =
     (case kind of
        KindVideo \<Rightarrow> eq_ignore_ascii_case (cc_mime_type codec) ''video/h264'' \<and> cc_clock_rate codec = 90000
      | KindAudio \<Rightarrow>
          eq_ignore_ascii_case (cc_mime_type codec) ''audio/opus'' \<and> cc_clock_rate codec = 48000 \<and> cc_codec_channels codec = 2
      | KindUnspecified \<Rightarrow> False)"

section \<open>Resources of a peer\<close>

datatype task_life = TaskRuns | TaskAborting | TaskEnded

text \<open>What has become of the peer connection: WebRTC's \<open>close\<close> has not been called, a spawned task is about to call it, it has
  returned (with or without success), or nobody will call it to its end.\<close>

datatype peer_fate = NoPeer | PeerOpen | PeerDropped | PeerCloseEnded bool | PeerAbandoned

text \<open>Where a \<open>close\<close> of the resources is: waiting for the aborted tasks, or for the peer's own \<open>close\<close>.\<close>

datatype closing_stage = ClosingTasks "nat list" | ClosingPeer

text \<open>The peer, whether the engine owns its resources, the list of media tasks shared with the track callback (gone once
  it has been taken), the running \<open>close\<close>, the command task, and every handler ever started with its kind.\<close>

record peer_world =
  pw_peer :: peer_fate
  pw_owned :: bool
  pw_media :: "nat list option"
  pw_closing :: "closing_stage option"
  pw_command :: "task_life option"
  pw_track_handler :: bool
  pw_tasks :: "(codec_kind \<times> task_life) list"
  pw_preferences :: "(codec_kind \<times> codec_capability list) list"

definition no_peer :: peer_world where
  "no_peer = \<lparr>pw_peer = NoPeer, pw_owned = False, pw_media = None, pw_closing = None, pw_command = None, pw_track_handler = False,
     pw_tasks = [], pw_preferences = []\<rparr>"

definition register :: "peer_world \<Rightarrow> peer_world" where
  "register s = s\<lparr>pw_owned := True, pw_media := Some [], pw_command := None\<rparr>"



definition abort_task :: "nat \<Rightarrow> (codec_kind \<times> task_life) list \<Rightarrow> (codec_kind \<times> task_life) list" where
  "abort_task i ts = (if snd (ts ! i) = TaskRuns then ts[i := (fst (ts ! i), TaskAborting)] else ts)"


definition abort_command :: "task_life option \<Rightarrow> task_life option" where
  "abort_command = map_option (\<lambda>l. if l = TaskRuns then TaskAborting else l)"







section \<open>Building a peer\<close>

record setup_env =
  se_codecs :: "string + unit"
  se_interceptors :: "string + unit"
  se_peer :: "string + unit"
  se_video :: "string + unit"
  se_track :: "string + unit"
  se_transceivers :: "(codec_kind \<times> codec_capability list) list"
  se_prefer :: "nat \<Rightarrow> string + unit"
  se_channel :: "string + unit"

fun prefer_codecs ::
  "(nat \<Rightarrow> string + unit) \<Rightarrow> nat \<Rightarrow> (codec_kind \<times> codec_capability list) list \<Rightarrow> peer_world \<Rightarrow> (string + unit) \<times> peer_world" where
  "prefer_codecs f n [] s = (Inr (), s)"
| "prefer_codecs f n ((kind, codecs) # rest) s =
     (let supported = filter (supported_codec kind) codecs in
      if supported = [] then (Inl ''No implemented media codec available'', s)
      else case f n of
        Inl e \<Rightarrow> (Inl e, s)
      | Inr _ \<Rightarrow> prefer_codecs f (Suc n) rest (s\<lparr>pw_preferences := pw_preferences s @ [(kind, supported)]\<rparr>))"

definition create_peer_connection :: "setup_env \<Rightarrow> peer_world \<Rightarrow> (string + unit) \<times> peer_world" where
  "create_peer_connection v s =
     (case and_then (se_codecs v) (\<lambda>_. and_then (se_interceptors v) (\<lambda>_. se_peer v)) of
        Inl e \<Rightarrow> (Inl e, s)
      | Inr _ \<Rightarrow>
          let s1 = register (s\<lparr>pw_peer := PeerOpen\<rparr>) in
          (case and_then (se_video v) (\<lambda>_. case se_track v of Inl e \<Rightarrow> Inl (''Failed to add audio track: '' @ e) | Inr _ \<Rightarrow> Inr ()) of
             Inl e \<Rightarrow> (Inl e, s1)
           | Inr _ \<Rightarrow>
               (case prefer_codecs (se_prefer v) 0 (se_transceivers v) s1 of
                  (Inl e, s2) \<Rightarrow> (Inl e, s2)
                | (Inr _, s2) \<Rightarrow> (se_channel v, s2\<lparr>pw_track_handler := True\<rparr>))))"

section \<open>Media handlers\<close>





section \<open>Setup\<close>

lemma prefer_codecs_outcome:
  assumes "prefer_codecs f n ts s = (r, s')"
  shows "\<exists>front. s' = s\<lparr>pw_preferences := pw_preferences s @ map (\<lambda>(k, cs). (k, filter (supported_codec k) cs)) front\<rparr> \<and>
    (\<forall>(k, cs)\<in>set front. filter (supported_codec k) cs \<noteq> []) \<and> (\<exists>rest. ts = front @ rest) \<and> (r = Inr () \<longrightarrow> front = ts)"
  using assms
proof (induction f n ts s arbitrary: r s' rule: prefer_codecs.induct)
  case (1 f n s)
  then show ?case by auto
next
  case (2 f n kind codecs rest s)
  show ?case
  proof (cases "filter (supported_codec kind) codecs \<noteq> [] \<and> f n = Inr ()")
    case True
    then obtain front where d: "s' = (s\<lparr>pw_preferences := pw_preferences s @ [(kind, filter (supported_codec kind) codecs)]\<rparr>)
        \<lparr>pw_preferences := pw_preferences (s\<lparr>pw_preferences := pw_preferences s @ [(kind, filter (supported_codec kind) codecs)]\<rparr>) @
          map (\<lambda>(k, cs). (k, filter (supported_codec k) cs)) front\<rparr>"
        "\<forall>(k, cs)\<in>set front. filter (supported_codec k) cs \<noteq> []" "\<exists>r. rest = front @ r" "r = Inr () \<longrightarrow> front = rest"
      using "2.IH" [where r = r and s' = s'] "2.prems" by (auto simp: Let_def)
    then show ?thesis using True by (intro exI [of _ "(kind, codecs) # front"]) auto
  next
    case False
    then show ?thesis using "2.prems" by (intro exI [of _ "[]"]) (auto simp: Let_def split: if_splits sum.splits)
  qed
qed

lemma setup_outcome:
  assumes "create_peer_connection v no_peer = (r, s)"
  shows "pw_peer s = (if pw_owned s then PeerOpen else NoPeer) \<and> (pw_owned s \<longleftrightarrow> pw_media s = Some []) \<and> pw_tasks s = [] \<and> pw_closing s = None \<and> pw_command s = None \<and> (\<not> pw_owned s \<longrightarrow> pw_media s = None) \<and>
    (\<forall>(k, cs)\<in>set (pw_preferences s). cs \<noteq> [] \<and> list_all (supported_codec k) cs) \<and>
    (r = Inr () \<longrightarrow> pw_preferences s = map (\<lambda>(k, cs). (k, filter (supported_codec k) cs)) (se_transceivers v))"
proof -
  let ?s = "register (no_peer\<lparr>pw_peer := PeerOpen\<rparr>)"
  obtain p s2 where chosen: "prefer_codecs (se_prefer v) 0 (se_transceivers v) ?s = (p, s2)" by force
  from prefer_codecs_outcome [OF chosen] obtain front
    where d: "s2 = ?s\<lparr>pw_preferences := map (\<lambda>(k, cs). (k, filter (supported_codec k) cs)) front\<rparr>"
      "\<forall>(k, cs)\<in>set front. filter (supported_codec k) cs \<noteq> []" "p = Inr () \<longrightarrow> front = se_transceivers v"
    by (auto simp: register_def no_peer_def)
  define opened where "opened = and_then (se_codecs v) (\<lambda>_. and_then (se_interceptors v) (\<lambda>_. se_peer v))"
  define added where "added =
    and_then (se_video v) (\<lambda>_. case se_track v of Inl e \<Rightarrow> Inl (''Failed to add audio track: '' @ e) | Inr _ \<Rightarrow> Inr ())"
  consider "s = no_peer" "r \<noteq> Inr ()" | "s = ?s" "r \<noteq> Inr ()" | "s = s2" "r \<noteq> Inr ()" | "s = s2\<lparr>pw_track_handler := True\<rparr>" "p = Inr ()"
    using assms chosen unfolding create_peer_connection_def opened_def [symmetric] added_def [symmetric]
    by (cases opened; cases added; cases p) (auto simp: Let_def)
  then show ?thesis
    using d by cases (auto simp: register_def no_peer_def list_all_iff)
qed

text \<open>
  Setting up a peer leaks nothing and promises only what is implemented: whatever call fails, a peer that was opened is
  owned by the engine, so that its close will find it; every codec list advertised is a non-empty list of supported codecs of
  its transceiver, and on success it is all of them, for every transceiver.
\<close>

theorem peer_setup_exact:
  assumes "create_peer_connection v no_peer = (r, s)"
  shows "pw_peer s = (if pw_owned s then PeerOpen else NoPeer) \<and> (pw_owned s \<longleftrightarrow> pw_media s = Some []) \<and> pw_tasks s = [] \<and> pw_closing s = None \<and> pw_command s = None \<and> (\<not> pw_owned s \<longrightarrow> pw_media s = None) \<and>
    (\<forall>(k, cs)\<in>set (pw_preferences s). cs \<noteq> [] \<and> list_all (supported_codec k) cs) \<and>
    (r = Inr () \<longrightarrow> pw_preferences s = map (\<lambda>(k, cs). (k, filter (supported_codec k) cs)) (se_transceivers v))"
  by (rule setup_outcome [OF assms])

section \<open>Ownership of the handlers\<close>

lemma abort_task_length [simp]: "length (abort_task i ts) = length ts"
  by (simp add: abort_task_def)




definition ids_of :: "nat list option \<Rightarrow> nat set" where
  "ids_of x = (case x of None \<Rightarrow> {} | Some ids \<Rightarrow> set ids)"

lemma ids_of_simps [simp]: "ids_of None = {}" "ids_of (Some ids) = set ids"
  by (simp_all add: ids_of_def)

definition waited_ids :: "closing_stage option \<Rightarrow> nat set" where
  "waited_ids c = (case c of Some (ClosingTasks ids) \<Rightarrow> set ids | _ \<Rightarrow> {})"

lemma waited_ids_simps [simp]: "waited_ids None = {}" "waited_ids (Some ClosingPeer) = {}" "waited_ids (Some (ClosingTasks ids)) = set ids"
  by (simp_all add: waited_ids_def)











lemma abort_command_runs [simp]: "abort_command c \<noteq> Some TaskRuns"
  by (auto simp: abort_command_def)







section \<open>A concrete peer\<close>

definition h264_capability :: codec_capability where
  "h264_capability = \<lparr>cc_mime_type = ''video/H264'', cc_clock_rate = 90000, cc_codec_channels = 0\<rparr>"

definition vp8_capability :: codec_capability where
  "vp8_capability = \<lparr>cc_mime_type = ''video/VP8'', cc_clock_rate = 90000, cc_codec_channels = 0\<rparr>"

definition example_setup :: setup_env where
  "example_setup = \<lparr>se_codecs = Inr (), se_interceptors = Inr (), se_peer = Inr (), se_video = Inr (), se_track = Inr (),
     se_transceivers = [(KindVideo, [vp8_capability, h264_capability])], se_prefer = (\<lambda>_. Inr ()), se_channel = Inr ()\<rparr>"

lemma example_codecs: "supported_codec KindVideo h264_capability" "\<not> supported_codec KindVideo vp8_capability"
  by (simp_all add: supported_codec_def h264_capability_def vp8_capability_def eq_ignore_ascii_case_def ascii_lower_def char_of_def bit_0)

lemma example_created:
  "create_peer_connection example_setup no_peer = (Inr (), snd (create_peer_connection example_setup no_peer))"
  by (simp add: create_peer_connection_def example_setup_def example_codecs Let_def)

theorem peer_setup_exact_witness:
  "pw_preferences (snd (create_peer_connection example_setup no_peer)) = [(KindVideo, [h264_capability])]"
  using peer_setup_exact [OF example_created] by (simp add: example_setup_def example_codecs)


end
