(* ===== verification/Close_Task.thy ===== *)
theory Close_Task
  imports Connection Peer_Setup
begin

text \<open>
  \<open>CloseTask\<close>, \<open>RtcEngine::close\<close>, \<open>close_inner\<close> and \<open>prepare_offer\<close> (\<open>src/src/infrastructure/rtc_engine/engine.rs\<close>) at the grain of their
  accesses to shared state. A call of \<open>close\<close> takes an asynchronous lock, spawns the cleanup unless one is stored, and awaits
  the stored handle; if the caller is cancelled, the cleanup goes on and its handle stays for the next call. \<open>Connection\<close> takes a close
  as one step of the engine, which the session's gate allows; here any number of closes and offers run beside each other, each may be
  cancelled where it awaits something, and the cleanup is interleaved with all of them, access by access.

  The lock is Tokio's, which serves its waiters in the order of their arrival. A peer and a sender task are named by the offer that made
  them; the media handlers of a peer are in \<open>Peer_Setup\<close>.
\<close>

section \<open>State\<close>

text \<open>What the cleanup does next; the resources it has taken and the task it awaits are its locals.\<close>

datatype cleanup_stage =
  SetClosed | DropSender | TakeTask | AwaitTask nat | DropAudio | TakeResources | CloseResources nat "nat option"
| TakeChannel bool | TakePeer bool | SetClosedAgain

datatype cleanup = Running cleanup_stage | Completed | Broken \<comment> \<open>the stored handle: running, ended, ended by a panic\<close>

text \<open>What an offer does next once its first close has returned.\<close>

datatype offer_stage =
  ResetState | SetConnecting | CreatePeer | AddMedia | StorePeer | StoreChannel | StoreAudio | StoreSender | HandOver | StoreTask | Describe

text \<open>What a call goes on with after the close it is in: it returns, it builds the offer, or it returns the offer's error.\<close>

datatype after_close = Returns | Builds | Refuses

datatype point = Queued after_close | Awaiting after_close | Making offer_stage | Ended bool | Cancelled

record closing =
  cw_holder :: state_holder
  cw_sender :: "nat option" \<comment> \<open>\<open>command_tx\<close>\<close>
  cw_command :: "nat option" \<comment> \<open>\<open>command_task\<close>\<close>
  cw_audio :: "nat option"
  cw_resources :: "(nat \<times> nat option) option" \<comment> \<open>the peer and the sender task that \<open>PeerResources\<close> own\<close>
  cw_channel :: "nat option"
  cw_connection :: "nat option"
  cw_handle :: "cleanup option"
  cw_lock :: "nat option"
  cw_queue :: "nat list"
  cw_calls :: "point list"
  cw_peers :: "nat \<Rightarrow> peer_fate"
  cw_tasks :: "nat \<Rightarrow> task_life option"
  cw_covered :: "nat \<Rightarrow> bool" \<comment> \<open>history: the peers there were when the latest cleanup was spawned\<close>
  cw_touched :: bool \<comment> \<open>history: an offer has made a step since then\<close>

definition closing_new :: closing where
  "closing_new = \<lparr>cw_holder = holder_new, cw_sender = None, cw_command = None, cw_audio = None, cw_resources = None, cw_channel = None,
     cw_connection = None, cw_handle = None, cw_lock = None, cw_queue = [], cw_calls = [], cw_peers = (\<lambda>_. NoPeer), cw_tasks = (\<lambda>_. None),
     cw_covered = (\<lambda>_. False), cw_touched = False\<rparr>"

definition set_point :: "nat \<Rightarrow> point \<Rightarrow> closing \<Rightarrow> closing" where
  "set_point i p w = w\<lparr>cw_calls := (cw_calls w)[i := p]\<rparr>"

definition set_fate :: "nat \<Rightarrow> peer_fate \<Rightarrow> closing \<Rightarrow> closing" where
  "set_fate p f w = w\<lparr>cw_peers := (cw_peers w)(p := f)\<rparr>"

definition abort_sender :: "nat option \<Rightarrow> closing \<Rightarrow> closing" where
  "abort_sender t w = w\<lparr>cw_tasks := (case t of None \<Rightarrow> cw_tasks w | Some t \<Rightarrow> (cw_tasks w)(t := abort_command (cw_tasks w t)))\<rparr>"

text \<open>Dropping \<open>PeerResources\<close> on the runtime: the sender task is aborted and a task is spawned that closes the peer.\<close>

definition drop_resources :: "(nat \<times> nat option) option \<Rightarrow> closing \<Rightarrow> closing" where
  "drop_resources r w =
     (abort_sender (Option.bind r snd) w)\<lparr>cw_peers := (case r of None \<Rightarrow> cw_peers w | Some (p, _) \<Rightarrow> (cw_peers w)(p := PeerDropped))\<rparr>"

section \<open>The cleanup\<close>

text \<open>One stage of \<open>close_inner\<close>, and the next one if there is one; \<open>ok\<close> is what WebRTC's \<open>close\<close> answers.\<close>

fun cleanup_do :: "bool \<Rightarrow> cleanup_stage \<Rightarrow> closing \<Rightarrow> cleanup_stage option \<times> closing" where
  "cleanup_do ok SetClosed w = (Some DropSender, w\<lparr>cw_holder := holder_set Closed (cw_holder w)\<rparr>)"
| "cleanup_do ok DropSender w = (Some TakeTask, w\<lparr>cw_sender := None\<rparr>)"
| "cleanup_do ok TakeTask w =
     (case cw_command w of
        None \<Rightarrow> (Some DropAudio, w)
      | Some t \<Rightarrow> (Some (AwaitTask t), abort_sender (Some t) (w\<lparr>cw_command := None\<rparr>)))"
| "cleanup_do ok (AwaitTask t) w = (Some DropAudio, w\<lparr>cw_tasks := (cw_tasks w)(t := Some TaskEnded)\<rparr>)"
| "cleanup_do ok DropAudio w = (Some TakeResources, w\<lparr>cw_audio := None\<rparr>)"
| "cleanup_do ok TakeResources w =
     (case cw_resources w of
        None \<Rightarrow> (Some (TakeChannel False), w)
      | Some (p, c) \<Rightarrow> (Some (CloseResources p c), w\<lparr>cw_resources := None\<rparr>))"
| "cleanup_do ok (CloseResources p c) w = (Some (TakeChannel True), set_fate p (PeerCloseEnded ok) (abort_sender c w))"
| "cleanup_do ok (TakeChannel owned) w = (Some (TakePeer owned), w\<lparr>cw_channel := None\<rparr>)"
| "cleanup_do ok (TakePeer owned) w =
     (Some SetClosedAgain,
      case cw_connection w of
        None \<Rightarrow> w
      | Some p \<Rightarrow> (if owned then w else set_fate p (PeerCloseEnded ok) w)\<lparr>cw_connection := None\<rparr>)"
| "cleanup_do ok SetClosedAgain w = (None, w\<lparr>cw_holder := holder_set Closed (cw_holder w)\<rparr>)"

definition cleanup_step :: "bool \<Rightarrow> closing \<Rightarrow> closing" where
  "cleanup_step ok w =
     (case cw_handle w of
        Some (Running st) \<Rightarrow>
          (case cleanup_do ok st w of
             (Some st', w') \<Rightarrow> w'\<lparr>cw_handle := Some (Running st')\<rparr>
           | (None, w') \<Rightarrow> w'\<lparr>cw_handle := Some Completed\<rparr>)
      | _ \<Rightarrow> w)"

text \<open>A panic of the cleanup drops the resources it holds, with or without the peer, whose \<open>close\<close> may have been the one that panicked.\<close>

definition cleanup_panic :: "bool \<Rightarrow> closing \<Rightarrow> closing" where
  "cleanup_panic taken w =
     (case cw_handle w of
        Some (Running st) \<Rightarrow>
          (case st of
             CloseResources p c \<Rightarrow> if taken then set_fate p PeerAbandoned (abort_sender c w) else drop_resources (Some (p, c)) w
           | _ \<Rightarrow> w)\<lparr>cw_handle := Some Broken\<rparr>
      | _ \<Rightarrow> w)"

section \<open>Calls\<close>

definition join_queue :: "nat \<Rightarrow> after_close \<Rightarrow> closing \<Rightarrow> closing" where
  "join_queue i a w = (set_point i (Queued a) w)\<lparr>cw_queue := cw_queue w @ [i]\<rparr>"

fun after :: "point \<Rightarrow> after_close" where
  "after (Queued a) = a"
| "after (Awaiting a) = a"
| "after _ = Returns"

text \<open>\<open>CloseTask::run\<close>: the first waiter takes the lock and spawns a cleanup if there is none; when the handle has ended it
  is taken out, the lock goes, and the call goes on.\<close>

definition run_enter :: "closing \<Rightarrow> closing" where
  "run_enter w =
     (case cw_queue w of
        [] \<Rightarrow> w
      | i # q \<Rightarrow>
          let w1 = (set_point i (Awaiting (after (cw_calls w ! i))) w)\<lparr>cw_queue := q, cw_lock := Some i\<rparr> in
          (case cw_handle w of
             None \<Rightarrow> w1\<lparr>cw_handle := Some (Running SetClosed), cw_covered := (\<lambda>p. cw_peers w p \<noteq> NoPeer), cw_touched := False\<rparr>
           | Some _ \<Rightarrow> w1))"

fun resume :: "after_close \<Rightarrow> point" where
  "resume Returns = Ended True"
| "resume Builds = Making ResetState"
| "resume Refuses = Ended False"

definition run_leave :: "nat \<Rightarrow> closing \<Rightarrow> closing" where
  "run_leave i w = (set_point i (resume (after (cw_calls w ! i))) w)\<lparr>cw_lock := None, cw_handle := None\<rparr>"

text \<open>One stage of \<open>prepare_offer\<close> by call \<open>i\<close>, with what the WebRTC call in it answers; the next stage, the failure or the end.\<close>

datatype offer_next = Next offer_stage | Fail | Made

fun offer_do :: "bool \<Rightarrow> nat \<Rightarrow> offer_stage \<Rightarrow> closing \<Rightarrow> offer_next \<times> closing" where
  "offer_do ok i ResetState w = (Next SetConnecting, w\<lparr>cw_holder := holder_reset (cw_holder w)\<rparr>)"
| "offer_do ok i SetConnecting w = (Next CreatePeer, w\<lparr>cw_holder := holder_set Connecting (cw_holder w)\<rparr>)"
| "offer_do ok i CreatePeer w =
     (if ok then (Next AddMedia, (set_fate i PeerOpen (drop_resources (cw_resources w) w))\<lparr>cw_resources := Some (i, None)\<rparr>) else (Fail, w))"
| "offer_do ok i AddMedia w = (if ok then Next StorePeer else Fail, w)"
| "offer_do ok i StorePeer w = (Next StoreChannel, w\<lparr>cw_connection := Some i\<rparr>)"
| "offer_do ok i StoreChannel w = (Next StoreAudio, w\<lparr>cw_channel := Some i\<rparr>)"
| "offer_do ok i StoreAudio w = (Next StoreSender, w\<lparr>cw_audio := Some i\<rparr>)"
| "offer_do ok i StoreSender w = (Next HandOver, w\<lparr>cw_sender := Some i\<rparr>)"
| "offer_do ok i HandOver w =
     (let w1 = w\<lparr>cw_tasks := (cw_tasks w)(i := Some TaskRuns)\<rparr> in
      case cw_resources w of
        Some (p, _) \<Rightarrow> (Next StoreTask, w1\<lparr>cw_resources := Some (p, Some i)\<rparr>)
      | None \<Rightarrow> (Fail, abort_sender (Some i) w1))"
| "offer_do ok i StoreTask w = (Next Describe, (abort_sender (cw_command w) w)\<lparr>cw_command := Some i\<rparr>)"
| "offer_do ok i Describe w = (if ok then Made else Fail, w)"

definition offer_advance :: "bool \<Rightarrow> nat \<Rightarrow> offer_stage \<Rightarrow> closing \<Rightarrow> closing" where
  "offer_advance ok i st w =
     (case offer_do ok i st w of
        (Next st', w') \<Rightarrow> set_point i (Making st') w'
      | (Fail, w') \<Rightarrow> join_queue i Refuses w'
      | (Made, w') \<Rightarrow> set_point i (Ended True) w')\<lparr>cw_touched := True\<rparr>"

text \<open>A call can be dropped where it awaits. That releases the lock or its place in the queue, and leaves the handle where it is.\<close>

fun cancellable :: "point \<Rightarrow> bool" where
  "cancellable (Queued _) = True"
| "cancellable (Awaiting _) = True"
| "cancellable (Making st) = (st \<in> {CreatePeer, AddMedia, StorePeer, StoreChannel, StoreAudio, Describe})"
| "cancellable _ = False"

definition cancel_call :: "nat \<Rightarrow> closing \<Rightarrow> closing" where
  "cancel_call i w =
     (set_point i Cancelled w)\<lparr>cw_queue := remove1 i (cw_queue w), cw_lock := (if cw_lock w = Some i then None else cw_lock w)\<rparr>"

definition new_call :: "after_close \<Rightarrow> closing \<Rightarrow> closing" where
  "new_call a w = w\<lparr>cw_calls := cw_calls w @ [Queued a], cw_queue := cw_queue w @ [length (cw_calls w)]\<rparr>"

section \<open>Runs\<close>

definition point_at :: "closing \<Rightarrow> nat \<Rightarrow> point" where
  "point_at w i = (if i < length (cw_calls w) then cw_calls w ! i else Cancelled)"

text \<open>The steps by which the lock and the cleanup make progress.\<close>

inductive lock_step :: "closing \<Rightarrow> closing \<Rightarrow> bool" where
  enter: "cw_lock w = None \<Longrightarrow> cw_queue w \<noteq> [] \<Longrightarrow> lock_step w (run_enter w)"
| body: "cw_handle w = Some (Running st) \<Longrightarrow> lock_step w (cleanup_step ok w)"
| panic: "cw_handle w = Some (Running st) \<Longrightarrow> lock_step w (cleanup_panic taken w)"
| leave: "cw_lock w = Some i \<Longrightarrow> cw_handle w = Some Completed \<or> cw_handle w = Some Broken \<Longrightarrow> lock_step w (run_leave i w)"

text \<open>Everything else: new closes and offers, the stages of offers, cancellations, tasks of the runtime, callbacks of any peer, a sender
  task's fault, and a new generation.\<close>

inductive other_step :: "closing \<Rightarrow> closing \<Rightarrow> bool" where
  close: "other_step w (new_call Returns w)"
| offer: "other_step w (new_call Builds w)"
| advance: "point_at w i = Making st \<Longrightarrow> other_step w (offer_advance ok i st w)"
| cancel: "cancellable (point_at w i) \<Longrightarrow> other_step w (cancel_call i w)"
| dropped: "cw_peers w p = PeerDropped \<Longrightarrow> other_step w (set_fate p (PeerCloseEnded ok) w)"
| task: "cw_tasks w t = Some l \<Longrightarrow> other_step w (w\<lparr>cw_tasks := (cw_tasks w)(t := Some TaskEnded)\<rparr>)"
| callback: "cell < length (sh_cells (cw_holder w)) \<Longrightarrow> other_step w (w\<lparr>cw_holder := cell_event cell ev (cw_holder w)\<rparr>)"
| fault: "other_step w (w\<lparr>cw_holder := (cw_holder w)\<lparr>sh_cells := (sh_cells (cw_holder w))[cell := state_u8 Closed]\<rparr>\<rparr>)"
| generation: "other_step w (w\<lparr>cw_holder := holder_set Closed (cw_holder w)\<rparr>)"

definition close_step :: "closing \<Rightarrow> closing \<Rightarrow> bool" where
  "close_step w w' \<longleftrightarrow> lock_step w w' \<or> other_step w w'"

inductive close_reachable :: "closing \<Rightarrow> bool" where
  start: "close_reachable closing_new"
| step: "close_reachable w \<Longrightarrow> close_step w w' \<Longrightarrow> close_reachable w'"

section \<open>The lock\<close>

lemmas update_defs = set_point_def set_fate_def abort_sender_def drop_resources_def join_queue_def

fun is_queued :: "point \<Rightarrow> bool" where
  "is_queued (Queued _) = True"
| "is_queued _ = False"

fun is_awaiting :: "point \<Rightarrow> bool" where
  "is_awaiting (Awaiting _) = True"
| "is_awaiting _ = False"

text \<open>The queue holds exactly the calls that wait for the lock, the lock belongs to the one that awaits, and whoever awaits has a handle.\<close>

definition lock_inv :: "closing \<Rightarrow> bool" where
  "lock_inv w \<longleftrightarrow>
     distinct (cw_queue w) \<and> (\<forall>i. i \<in> set (cw_queue w) \<longleftrightarrow> is_queued (point_at w i)) \<and>
     (\<forall>i. cw_lock w = Some i \<longleftrightarrow> is_awaiting (point_at w i)) \<and> (cw_lock w \<noteq> None \<longrightarrow> cw_handle w \<noteq> None)"

lemma cleanup_do_frame [simp]:
  "cw_queue (snd (cleanup_do ok st w)) = cw_queue w" "cw_lock (snd (cleanup_do ok st w)) = cw_lock w"
  "cw_calls (snd (cleanup_do ok st w)) = cw_calls w" "cw_covered (snd (cleanup_do ok st w)) = cw_covered w"
  "cw_touched (snd (cleanup_do ok st w)) = cw_touched w" "cw_handle (snd (cleanup_do ok st w)) = cw_handle w"
  by (cases st; simp add: update_defs split: option.split prod.split)+

lemma offer_do_frame [simp]:
  "cw_queue (snd (offer_do ok i st w)) = cw_queue w" "cw_lock (snd (offer_do ok i st w)) = cw_lock w"
  "cw_calls (snd (offer_do ok i st w)) = cw_calls w" "cw_covered (snd (offer_do ok i st w)) = cw_covered w"
  "cw_handle (snd (offer_do ok i st w)) = cw_handle w"
  by (cases st; simp add: update_defs Let_def split: option.split prod.split)+

lemma cleanup_step_running:
  "cw_handle w = Some (Running st) \<Longrightarrow> cleanup_step ok w =
     (snd (cleanup_do ok st w))\<lparr>cw_handle := Some (case fst (cleanup_do ok st w) of None \<Rightarrow> Completed | Some st' \<Rightarrow> Running st')\<rparr>"
  by (simp add: cleanup_step_def split: prod.split option.split)

lemma cleanup_step_idle: "\<nexists>st. cw_handle w = Some (Running st) \<Longrightarrow> cleanup_step ok w = w"
  by (auto simp: cleanup_step_def split: option.split cleanup.split)

lemma cleanup_step_frame [simp]:
  "cw_queue (cleanup_step ok w) = cw_queue w" "cw_lock (cleanup_step ok w) = cw_lock w" "cw_calls (cleanup_step ok w) = cw_calls w"
  "cw_covered (cleanup_step ok w) = cw_covered w" "cw_touched (cleanup_step ok w) = cw_touched w"
  by (cases "\<exists>st. cw_handle w = Some (Running st)"; auto simp: cleanup_step_running cleanup_step_idle)+

lemma cleanup_panic_frame [simp]:
  "cw_queue (cleanup_panic taken w) = cw_queue w" "cw_lock (cleanup_panic taken w) = cw_lock w" "cw_calls (cleanup_panic taken w) = cw_calls w"
  "cw_covered (cleanup_panic taken w) = cw_covered w" "cw_touched (cleanup_panic taken w) = cw_touched w"
  by (simp_all add: cleanup_panic_def update_defs split: option.split cleanup.split cleanup_stage.split)

lemma cleanup_panic_handle: "cw_handle w = Some (Running st) \<Longrightarrow> cw_handle (cleanup_panic taken w) = Some Broken"
  by (simp add: cleanup_panic_def)

lemma point_at_simps [simp]:
  "i < length (cw_calls w) \<Longrightarrow> point_at (set_point i p w) j = (if j = i then p else point_at w j)"
  "point_at (new_call a w) j = (if j = length (cw_calls w) then Queued a else point_at w j)"
  by (auto simp: point_at_def set_point_def new_call_def nth_append)

lemma point_at_same: "cw_calls w' = cw_calls w \<Longrightarrow> point_at w' = point_at w"
  by (simp add: point_at_def fun_eq_iff)

lemma point_known: "point_at w i \<noteq> Cancelled \<Longrightarrow> i < length (cw_calls w) \<and> cw_calls w ! i = point_at w i"
  by (simp add: point_at_def split: if_splits)

lemma point_len: "is_queued (point_at w i) \<or> is_awaiting (point_at w i) \<or> cancellable (point_at w i) \<Longrightarrow> i < length (cw_calls w)"
  by (auto simp: point_at_def split: if_splits)

lemma lock_inv_same:
  assumes "lock_inv w" "cw_queue w' = cw_queue w" "cw_lock w' = cw_lock w" "cw_calls w' = cw_calls w" "cw_handle w \<noteq> None \<longrightarrow> cw_handle w' \<noteq> None"
  shows "lock_inv w'"
  using assms by (simp add: lock_inv_def point_at_same [OF assms(4)])

text \<open>One call moves on, with the lock, the queue and the handle as given.\<close>

lemma lock_inv_move:
  assumes "lock_inv w" "i < length (cw_calls w)" "cw_calls w' = (cw_calls w)[i := p]"
    "distinct (cw_queue w')" "\<And>j. j \<in> set (cw_queue w') \<longleftrightarrow> (if j = i then is_queued p else j \<in> set (cw_queue w))"
    "\<And>j. cw_lock w' = Some j \<longleftrightarrow> (if j = i then is_awaiting p else cw_lock w = Some j)" "cw_lock w' \<noteq> None \<longrightarrow> cw_handle w' \<noteq> None"
  shows "lock_inv w'"
proof -
  have "point_at w' j = (if j = i then p else point_at w j)" for j using assms(2,3) by (simp add: point_at_def)
  then show ?thesis using assms by (simp add: lock_inv_def)
qed

lemma lock_invD:
  assumes "lock_inv w"
  shows "distinct (cw_queue w)" "i \<in> set (cw_queue w) \<longleftrightarrow> is_queued (point_at w i)" "cw_lock w = Some i \<longleftrightarrow> is_awaiting (point_at w i)"
    "cw_lock w \<noteq> None \<Longrightarrow> cw_handle w \<noteq> None"
  using assms by (auto simp: lock_inv_def)

lemma lock_inv_lock_step: "lock_step w w' \<Longrightarrow> lock_inv w \<Longrightarrow> lock_inv w'"
proof (induction rule: lock_step.induct)
  case (enter w)
  then obtain i q where q: "cw_queue w = i # q" by (cases "cw_queue w") auto
  have i: "is_queued (point_at w i)" using lock_invD(2) [OF enter(3), of i] q by simp
  then have len: "i < length (cw_calls w)" by (simp add: point_len)
  show ?case
    using lock_invD(1) [OF enter(3)] enter(1) q
    by (intro lock_inv_move [OF enter(3) len, of "run_enter w" "Awaiting (after (cw_calls w ! i))"])
      (auto simp: run_enter_def set_point_def Let_def split: option.split)
next
  case (body w st ok)
  then show ?case by (intro lock_inv_same [OF body(2)]) (simp_all add: cleanup_step_running)
next
  case (panic w st taken)
  then show ?case by (intro lock_inv_same [OF panic(2)]) (simp_all add: cleanup_panic_handle)
next
  case (leave w i)
  have i: "is_awaiting (point_at w i)" using lock_invD(3) [OF leave(3), of i] leave(1) by simp
  then have len: "i < length (cw_calls w)" "\<not> is_queued (point_at w i)"
    by (simp add: point_len, cases "point_at w i") simp_all
  have "resume a \<noteq> Queued b" "resume a \<noteq> Awaiting b" for a b by (cases a; simp)+
  then have "\<not> is_queued (resume a)" "\<not> is_awaiting (resume a)" for a by (cases "resume a"; simp)+
  then show ?case
    using lock_invD(1,2) [OF leave(3)] leave(1) len
    by (intro lock_inv_move [OF leave(3) len(1), of "run_leave i w" "resume (after (cw_calls w ! i))"])
      (auto simp: run_leave_def set_point_def)
qed

lemma offer_advance_frame:
  assumes "offer_do ok i st w = (r, w')"
  shows "offer_advance ok i st w = (case r of Next st' \<Rightarrow> set_point i (Making st') w' | Fail \<Rightarrow> join_queue i Refuses w' | Made \<Rightarrow> set_point i (Ended True) w')
      \<lparr>cw_touched := True\<rparr>"
    "cw_queue w' = cw_queue w" "cw_lock w' = cw_lock w" "cw_calls w' = cw_calls w" "cw_covered w' = cw_covered w" "cw_handle w' = cw_handle w"
  using offer_do_frame [of ok i st w] assms by (simp_all add: offer_advance_def)

lemma lock_inv_other_step: "other_step w w' \<Longrightarrow> lock_inv w \<Longrightarrow> lock_inv w'"
proof (induction rule: other_step.induct)
  case (advance w i st ok)
  obtain r w1 where do: "offer_do ok i st w = (r, w1)" by force
  note f = offer_advance_frame [OF do]
  have len: "i < length (cw_calls w)" using point_known [of w i] advance(1) by simp
  have free: "i \<notin> set (cw_queue w)" "cw_lock w \<noteq> Some i" using lock_invD(2,3) [OF advance(2), of i] advance(1) by simp_all
  let ?p = "case r of Next st' \<Rightarrow> Making st' | Fail \<Rightarrow> Queued Refuses | Made \<Rightarrow> Ended True"
  show ?case
    using lock_invD(1,4) [OF advance(2)] free f
    by (intro lock_inv_move [OF advance(2) len, of _ ?p]) (auto simp: set_point_def join_queue_def split: offer_next.split)
next
  case (cancel w i)
  then have len: "i < length (cw_calls w)" by (simp add: point_len)
  show ?case
    using lock_invD(1,4) [OF cancel(2)]
    by (intro lock_inv_move [OF cancel(2) len, of _ Cancelled]) (auto simp: cancel_call_def set_point_def)
next
  case (close w)
  then show ?case by (auto simp: lock_inv_def) (auto simp: new_call_def point_at_def)
next
  case (offer w)
  then show ?case by (auto simp: lock_inv_def) (auto simp: new_call_def point_at_def)
qed (auto elim!: lock_inv_same simp: set_fate_def)

lemma lock_inv_reachable: "close_reachable w \<Longrightarrow> lock_inv w"
proof (induction rule: close_reachable.induct)
  case start
  then show ?case by (simp add: lock_inv_def closing_new_def point_at_def)
qed (auto simp: close_step_def lock_inv_lock_step lock_inv_other_step)

section \<open>Peers and sender tasks\<close>

definition held_peer :: "cleanup option \<Rightarrow> nat option" where
  "held_peer h = (case h of Some (Running (CloseResources p c)) \<Rightarrow> Some p | _ \<Rightarrow> None)"

definition slot :: "closing \<Rightarrow> nat option" where
  "slot w = map_option fst (cw_resources w)"

fun before_peer :: "point \<Rightarrow> bool" where
  "before_peer (Queued a) = (a = Builds)"
| "before_peer (Awaiting a) = (a = Builds)"
| "before_peer (Making st) = (st \<in> {ResetState, SetConnecting, CreatePeer})"
| "before_peer _ = False"

fun with_peer :: "point \<Rightarrow> bool" where
  "with_peer (Making st) = (st \<notin> {ResetState, SetConnecting, CreatePeer})"
| "with_peer _ = False"

text \<open>An offer has no peer before it creates one and has one while it goes on; what is stored names peers that exist; a peer whose
  \<open>close\<close> has not been called is in the slot of the engine or in the hands of the cleanup.\<close>

definition birth_inv :: "closing \<Rightarrow> bool" where
  "birth_inv w \<longleftrightarrow>
     (\<forall>i. (before_peer (point_at w i) \<or> i \<ge> length (cw_calls w) \<longrightarrow> cw_peers w i = NoPeer) \<and>
          (with_peer (point_at w i) \<longrightarrow> cw_peers w i \<noteq> NoPeer)) \<and>
     (\<forall>p. slot w = Some p \<or> held_peer (cw_handle w) = Some p \<or> cw_connection w = Some p \<longrightarrow> cw_peers w p \<noteq> NoPeer)"

definition peers_inv :: "closing \<Rightarrow> bool" where
  "peers_inv w \<longleftrightarrow> (\<forall>p. cw_peers w p = PeerOpen \<longrightarrow> slot w = Some p \<or> held_peer (cw_handle w) = Some p)"

text \<open>A sender task that runs unaborted is the engine's, or its offer is about to store it.\<close>

definition tasks_inv :: "closing \<Rightarrow> bool" where
  "tasks_inv w \<longleftrightarrow> (\<forall>t. cw_tasks w t = Some TaskRuns \<longrightarrow> cw_command w = Some t \<or> point_at w t = Making StoreTask)"

fun stage_rank :: "cleanup_stage \<Rightarrow> nat" where
  "stage_rank SetClosed = 0"
| "stage_rank DropSender = 1"
| "stage_rank TakeTask = 2"
| "stage_rank (AwaitTask _) = 3"
| "stage_rank DropAudio = 4"
| "stage_rank TakeResources = 5"
| "stage_rank (CloseResources _ _) = 6"
| "stage_rank (TakeChannel _) = 7"
| "stage_rank (TakePeer _) = 8"
| "stage_rank SetClosedAgain = 9"

fun handle_rank :: "cleanup option \<Rightarrow> nat option" where
  "handle_rank (Some (Running st)) = Some (stage_rank st)"
| "handle_rank (Some Completed) = Some 10"
| "handle_rank _ = None"

text \<open>Once the cleanup has taken the resources, the peers from before it have been closed, or it is closing the last of them.\<close>

definition covered_inv :: "closing \<Rightarrow> bool" where
  "covered_inv w \<longleftrightarrow>
     (\<forall>p. cw_covered w p \<longrightarrow> cw_peers w p \<noteq> NoPeer \<and>
        (\<forall>n. handle_rank (cw_handle w) = Some n \<longrightarrow> 5 < n \<longrightarrow> cw_peers w p = PeerOpen \<longrightarrow> held_peer (cw_handle w) = Some p))"

text \<open>What a cleanup has emptied stays empty unless an offer goes on.\<close>

definition emptied :: "nat \<Rightarrow> closing \<Rightarrow> bool" where
  "emptied n w \<longleftrightarrow>
     (0 < n \<longrightarrow> \<not> holder_live (cw_holder w)) \<and> (1 < n \<longrightarrow> cw_sender w = None) \<and> (2 < n \<longrightarrow> cw_command w = None) \<and>
     (4 < n \<longrightarrow> cw_audio w = None) \<and> (5 < n \<longrightarrow> cw_resources w = None) \<and> (7 < n \<longrightarrow> cw_channel w = None) \<and> (8 < n \<longrightarrow> cw_connection w = None)"

definition emptied_inv :: "closing \<Rightarrow> bool" where
  "emptied_inv w \<longleftrightarrow>
     sh_current (cw_holder w) < length (sh_cells (cw_holder w)) \<and>
     (\<not> cw_touched w \<longrightarrow> (\<forall>n. handle_rank (cw_handle w) = Some n \<longrightarrow> emptied n w))"

lemma held_peer_simps [simp]:
  "held_peer None = None" "held_peer (Some Completed) = None" "held_peer (Some Broken) = None"
  "held_peer (Some (Running (CloseResources p c))) = Some p"
  by (simp_all add: held_peer_def)

lemma held_peer_other [simp]:
  "held_peer (Some (Running SetClosed)) = None" "held_peer (Some (Running DropSender)) = None" "held_peer (Some (Running TakeTask)) = None"
  "held_peer (Some (Running (AwaitTask t))) = None" "held_peer (Some (Running DropAudio)) = None"
  "held_peer (Some (Running TakeResources)) = None" "held_peer (Some (Running (TakeChannel o1))) = None"
  "held_peer (Some (Running (TakePeer o1))) = None" "held_peer (Some (Running SetClosedAgain)) = None"
  by (simp_all add: held_peer_def)

text \<open>A step of the cleanup, seen by its stages.\<close>

lemma peers_inv_body: "peers_inv w \<Longrightarrow> cw_handle w = Some (Running st) \<Longrightarrow> peers_inv (cleanup_step ok w)"
  by (cases st) (auto simp: cleanup_step_running peers_inv_def slot_def update_defs split: option.split)

lemma birth_inv_body: "birth_inv w \<Longrightarrow> cw_handle w = Some (Running st) \<Longrightarrow> birth_inv (cleanup_step ok w)"
  unfolding birth_inv_def point_at_same [of "cleanup_step ok w" w, OF cleanup_step_frame(3)]
  by (cases st) (auto simp: cleanup_step_running slot_def update_defs split: option.split)

lemma tasks_inv_body: "tasks_inv w \<Longrightarrow> cw_handle w = Some (Running st) \<Longrightarrow> tasks_inv (cleanup_step ok w)"
  unfolding tasks_inv_def point_at_same [of "cleanup_step ok w" w, OF cleanup_step_frame(3)]
  by (cases st) (auto simp: cleanup_step_running update_defs split: option.split if_splits)

lemma covered_inv_body:
  "covered_inv w \<Longrightarrow> peers_inv w \<Longrightarrow> cw_handle w = Some (Running st) \<Longrightarrow> covered_inv (cleanup_step ok w)"
  by (cases st) (auto simp: cleanup_step_running covered_inv_def peers_inv_def slot_def update_defs split: option.split)

lemma emptied_inv_body: "emptied_inv w \<Longrightarrow> cw_handle w = Some (Running st) \<Longrightarrow> emptied_inv (cleanup_step ok w)"
  by (cases st)
    (auto simp: cleanup_step_running emptied_inv_def emptied_def update_defs holder_live_def holder_set_def split: option.split)

definition close_inv :: "closing \<Rightarrow> bool" where
  "close_inv w \<longleftrightarrow> lock_inv w \<and> birth_inv w \<and> peers_inv w \<and> tasks_inv w \<and> covered_inv w \<and> emptied_inv w"

lemma close_invD:
  assumes "close_inv w"
  shows "lock_inv w" "birth_inv w" "peers_inv w" "tasks_inv w" "covered_inv w" "emptied_inv w"
  using assms by (simp_all add: close_inv_def)

lemma close_invI:
  "lock_inv w \<Longrightarrow> birth_inv w \<Longrightarrow> peers_inv w \<Longrightarrow> tasks_inv w \<Longrightarrow> covered_inv w \<Longrightarrow> emptied_inv w \<Longrightarrow> close_inv w"
  by (simp add: close_inv_def)

text \<open>A call that moves on without touching a peer or a task.\<close>

lemma birth_inv_move:
  assumes "birth_inv w" "i < length (cw_calls w)" "cw_calls w' = (cw_calls w)[i := p]" "cw_peers w' = cw_peers w" "cw_resources w' = cw_resources w"
    "cw_connection w' = cw_connection w" "held_peer (cw_handle w') = held_peer (cw_handle w)"
    "before_peer p \<longrightarrow> before_peer (point_at w i)" "with_peer p \<longrightarrow> with_peer (point_at w i)"
  shows "birth_inv w'"
proof -
  have "point_at w' j = (if j = i then p else point_at w j)" for j using assms(2,3) by (simp add: point_at_def)
  then show ?thesis using assms unfolding birth_inv_def slot_def by auto
qed

lemma tasks_inv_move:
  assumes "tasks_inv w" "i < length (cw_calls w)" "cw_calls w' = (cw_calls w)[i := p]" "cw_tasks w' = cw_tasks w" "cw_command w' = cw_command w"
    "point_at w i \<noteq> Making StoreTask"
  shows "tasks_inv w'"
proof -
  have "point_at w' j = (if j = i then p else point_at w j)" for j using assms(2,3) by (simp add: point_at_def)
  then show ?thesis using assms unfolding tasks_inv_def by auto
qed

lemma close_inv_enter:
  assumes "close_inv w" "cw_lock w = None" "cw_queue w = i # q"
  shows "close_inv (run_enter w)"
proof (rule close_invI)
  note inv = close_invD [OF assms(1)]
  have i: "is_queued (point_at w i)" using lock_invD(2) [OF inv(1), of i] assms(3) by simp
  then obtain a where a: "point_at w i = Queued a" by (cases "point_at w i") auto
  have len: "i < length (cw_calls w)" "cw_calls w ! i = Queued a" using point_known [of w i] a by simp_all
  define v where "v = run_enter w"
  have v: "cw_calls v = (cw_calls w)[i := Awaiting a]" "cw_peers v = cw_peers w" "cw_resources v = cw_resources w" "cw_tasks v = cw_tasks w"
    "cw_connection v = cw_connection w" "cw_command v = cw_command w" "held_peer (cw_handle v) = held_peer (cw_handle w)"
    "cw_holder v = cw_holder w" "cw_sender v = cw_sender w" "cw_audio v = cw_audio w" "cw_channel v = cw_channel w"
    using assms(3) len by (simp_all add: v_def run_enter_def Let_def set_point_def split: option.split)
  have new: "cw_handle v = Some (Running SetClosed) \<and> cw_covered v = (\<lambda>p. cw_peers w p \<noteq> NoPeer) \<or>
      cw_handle v = cw_handle w \<and> cw_covered v = cw_covered w \<and> cw_touched v = cw_touched w"
    using assms(3) by (auto simp: v_def run_enter_def Let_def set_point_def split: option.split)
  show "lock_inv (run_enter w)" using inv(1) assms by (intro lock_inv_lock_step [OF lock_step.enter]) simp_all
  show "birth_inv (run_enter w)" using v a by (intro birth_inv_move [OF inv(2) len(1), where p = "Awaiting a"]) (simp_all add: v_def)
  show "tasks_inv (run_enter w)" using v a by (intro tasks_inv_move [OF inv(4) len(1), where p = "Awaiting a"]) (simp_all add: v_def)
  show "peers_inv (run_enter w)" using inv(3) v unfolding v_def [symmetric] by (simp add: peers_inv_def slot_def)
  show "covered_inv (run_enter w)" using inv(5) v new unfolding v_def [symmetric] by (auto simp: covered_inv_def)
  show "emptied_inv (run_enter w)" using inv(6) v new unfolding v_def [symmetric] by (auto simp: emptied_inv_def emptied_def)
qed

lemma close_inv_leave:
  assumes "close_inv w" "cw_lock w = Some i" "cw_handle w = Some Completed \<or> cw_handle w = Some Broken"
  shows "close_inv (run_leave i w)"
proof (rule close_invI)
  note inv = close_invD [OF assms(1)]
  have "is_awaiting (point_at w i)" using lock_invD(3) [OF inv(1), of i] assms(2) by simp
  then obtain a where a: "point_at w i = Awaiting a" by (cases "point_at w i") auto
  have len: "i < length (cw_calls w)" "cw_calls w ! i = Awaiting a" using point_known [of w i] a by simp_all
  have calls: "cw_calls (run_leave i w) = (cw_calls w)[i := resume a]" by (simp add: run_leave_def set_point_def len)
  have held: "held_peer (cw_handle w) = None" using assms(3) by auto
  show "lock_inv (run_leave i w)" by (rule lock_inv_lock_step [OF lock_step.leave [OF assms(2,3)] inv(1)])
  show "birth_inv (run_leave i w)"
    by (rule birth_inv_move [OF inv(2) len(1) calls]) (use held a in \<open>cases a; simp add: run_leave_def set_point_def\<close>)+
  show "tasks_inv (run_leave i w)"
    by (rule tasks_inv_move [OF inv(4) len(1) calls]) (use a in \<open>simp_all add: run_leave_def set_point_def\<close>)
  show "peers_inv (run_leave i w)" using inv(3) held by (simp add: peers_inv_def run_leave_def set_point_def slot_def)
  show "covered_inv (run_leave i w)" using inv(5) by (simp add: covered_inv_def run_leave_def set_point_def)
  show "emptied_inv (run_leave i w)" using inv(6) by (simp add: emptied_inv_def run_leave_def set_point_def)
qed

lemma close_inv_panic:
  assumes "close_inv w" "cw_handle w = Some (Running st)"
  shows "close_inv (cleanup_panic taken w)"
proof (rule close_invI)
  note inv = close_invD [OF assms(1)]
  note same = point_at_same [of "cleanup_panic taken w" w, OF cleanup_panic_frame(3)]
  show "lock_inv (cleanup_panic taken w)" by (rule lock_inv_lock_step [OF lock_step.panic [OF assms(2)] inv(1)])
  show "birth_inv (cleanup_panic taken w)"
    using inv(2) assms(2) unfolding birth_inv_def same by (cases st) (auto simp: cleanup_panic_def slot_def update_defs)
  show "tasks_inv (cleanup_panic taken w)"
    using inv(4) assms(2) unfolding tasks_inv_def same
    by (cases st) (auto simp: cleanup_panic_def update_defs split: option.splits if_splits)
  show "peers_inv (cleanup_panic taken w)"
    using inv(3) assms(2) unfolding peers_inv_def by (cases st) (auto simp: cleanup_panic_def slot_def update_defs)
  show "covered_inv (cleanup_panic taken w)"
    using inv(5) assms(2) unfolding covered_inv_def by (cases st) (auto simp: cleanup_panic_def update_defs)
  show "emptied_inv (cleanup_panic taken w)"
    using inv(6) assms(2) unfolding emptied_inv_def by (cases st) (auto simp: cleanup_panic_def update_defs)
qed

lemma close_inv_lock_step:
  assumes "lock_step w w'" "close_inv w"
  shows "close_inv w'"
  using assms
proof (induction rule: lock_step.induct)
  case (enter w)
  then show ?case using close_inv_enter by (cases "cw_queue w") auto
next
  case (body w st ok)
  note inv = close_invD [OF body(2)]
  show ?case
    using peers_inv_body [OF inv(3) body(1)] birth_inv_body [OF inv(2) body(1)] tasks_inv_body [OF inv(4) body(1)]
      covered_inv_body [OF inv(5,3) body(1)] emptied_inv_body [OF inv(6) body(1)] lock_inv_lock_step [OF lock_step.body [OF body(1)] inv(1)]
    by (intro close_invI)
qed (simp_all add: close_inv_leave close_inv_panic)

text \<open>The stages of an offer.\<close>

lemma offer_advance_point:
  assumes "i < length (cw_calls w)"
  shows "point_at (offer_advance ok i st w) j =
    (if j = i then (case fst (offer_do ok i st w) of Next st' \<Rightarrow> Making st' | Fail \<Rightarrow> Queued Refuses | Made \<Rightarrow> Ended True) else point_at w j)"
proof -
  obtain r w' where do: "offer_do ok i st w = (r, w')" by force
  note f = offer_advance_frame [OF do]
  show ?thesis using assms f(4) unfolding f(1) do by (cases r) (auto simp: point_at_def set_point_def join_queue_def)
qed

lemma offer_advance_fields:
  "cw_peers (offer_advance ok i st w) = cw_peers (snd (offer_do ok i st w))" "cw_tasks (offer_advance ok i st w) = cw_tasks (snd (offer_do ok i st w))"
  "slot (offer_advance ok i st w) = slot (snd (offer_do ok i st w))" "cw_connection (offer_advance ok i st w) = cw_connection (snd (offer_do ok i st w))"
  "cw_command (offer_advance ok i st w) = cw_command (snd (offer_do ok i st w))" "cw_holder (offer_advance ok i st w) = cw_holder (snd (offer_do ok i st w))"
  "cw_handle (offer_advance ok i st w) = cw_handle w" "cw_covered (offer_advance ok i st w) = cw_covered w" "cw_touched (offer_advance ok i st w)"
  "length (cw_calls (offer_advance ok i st w)) = length (cw_calls w)"
proof -
  obtain r w' where do: "offer_do ok i st w = (r, w')" by force
  note f = offer_advance_frame [OF do]
  show "cw_peers (offer_advance ok i st w) = cw_peers (snd (offer_do ok i st w))" "cw_tasks (offer_advance ok i st w) = cw_tasks (snd (offer_do ok i st w))"
    "slot (offer_advance ok i st w) = slot (snd (offer_do ok i st w))" "cw_connection (offer_advance ok i st w) = cw_connection (snd (offer_do ok i st w))"
    "cw_command (offer_advance ok i st w) = cw_command (snd (offer_do ok i st w))" "cw_holder (offer_advance ok i st w) = cw_holder (snd (offer_do ok i st w))"
    "cw_handle (offer_advance ok i st w) = cw_handle w" "cw_covered (offer_advance ok i st w) = cw_covered w" "cw_touched (offer_advance ok i st w)"
    "length (cw_calls (offer_advance ok i st w)) = length (cw_calls w)"
    using f(2-) unfolding f(1) do by (cases r; simp add: set_point_def join_queue_def slot_def)+
qed

lemma close_inv_advance:
  assumes "close_inv w" "point_at w i = Making st"
  shows "close_inv (offer_advance ok i st w)"
proof (rule close_invI)
  note inv = close_invD [OF assms(1)]
  have len: "i < length (cw_calls w)" using point_known [of w i] assms(2) by simp
  note point = offer_advance_point [OF len, of ok st]
  have none: "cw_peers w i = NoPeer" if "st = CreatePeer" using inv(2) assms(2) that by (simp add: birth_inv_def)
  have some: "cw_peers w i \<noteq> NoPeer" if "with_peer (Making st)" using inv(2) assms(2) that unfolding birth_inv_def by metis
  have idle: "slot w \<noteq> Some i" "held_peer (cw_handle w) \<noteq> Some i" if "st = CreatePeer"
    using inv(2) none [OF that] by (auto simp: birth_inv_def)
  show "lock_inv (offer_advance ok i st w)" by (rule lock_inv_other_step [OF other_step.advance [OF assms(2)] inv(1)])
  show "birth_inv (offer_advance ok i st w)"
    using inv(2) assms(2) none some len unfolding birth_inv_def offer_advance_fields point
    by (cases st) (auto simp: update_defs slot_def Let_def split: option.splits if_splits)
  show "peers_inv (offer_advance ok i st w)"
    using inv(3) idle unfolding peers_inv_def offer_advance_fields
    by (cases st) (auto simp: update_defs slot_def Let_def split: option.splits if_splits)
  show "tasks_inv (offer_advance ok i st w)"
    using inv(4) assms(2) unfolding tasks_inv_def offer_advance_fields point
    by (cases st) (auto simp: update_defs Let_def split: option.splits if_splits)
  show "covered_inv (offer_advance ok i st w)"
    using inv(5) none unfolding covered_inv_def offer_advance_fields
    by (cases st) (auto simp: update_defs Let_def split: option.splits if_splits)
  show "emptied_inv (offer_advance ok i st w)"
    using inv(6) offer_advance_fields(9) [of ok i st w] unfolding emptied_inv_def offer_advance_fields(6)
    by (cases st) (auto simp: update_defs Let_def holder_reset_def holder_set_def split: option.splits)
qed

lemma close_inv_cancel:
  assumes "close_inv w" "cancellable (point_at w i)"
  shows "close_inv (cancel_call i w)"
proof (rule close_invI)
  note inv = close_invD [OF assms(1)]
  have len: "i < length (cw_calls w)" using assms(2) by (simp add: point_len)
  have "point_at w i \<noteq> Making StoreTask" using assms(2) by auto
  then show "tasks_inv (cancel_call i w)"
    by (intro tasks_inv_move [OF inv(4) len, where p = Cancelled]) (simp_all add: cancel_call_def set_point_def)
  show "birth_inv (cancel_call i w)"
    by (intro birth_inv_move [OF inv(2) len, where p = Cancelled]) (simp_all add: cancel_call_def set_point_def)
  show "lock_inv (cancel_call i w)" by (rule lock_inv_other_step [OF other_step.cancel [OF assms(2)] inv(1)])
qed (use close_invD [OF assms(1)] in
  \<open>simp_all add: cancel_call_def set_point_def peers_inv_def slot_def covered_inv_def emptied_inv_def emptied_def\<close>)

lemma close_inv_new: "close_inv w \<Longrightarrow> close_inv (new_call a w)"
proof (rule close_invI)
  assume "close_inv w"
  note inv = close_invD [OF this]
  show "lock_inv (new_call a w)"
    using inv(1) by (auto simp: lock_inv_def) (auto simp: new_call_def point_at_def)
  have "cw_peers w i = NoPeer" if "i \<ge> length (cw_calls w)" for i using inv(2) that by (auto simp: birth_inv_def)
  then show "birth_inv (new_call a w)"
    using inv(2) unfolding birth_inv_def point_at_simps by (auto simp: new_call_def slot_def)
  have "point_at w (length (cw_calls w)) = Cancelled" by (simp add: point_at_def)
  then show "tasks_inv (new_call a w)" using inv(4) unfolding tasks_inv_def point_at_simps by (auto simp: new_call_def)
  show "peers_inv (new_call a w)" "covered_inv (new_call a w)" "emptied_inv (new_call a w)"
    using inv(3,5,6) by (simp_all add: new_call_def peers_inv_def slot_def covered_inv_def emptied_inv_def emptied_def)
qed

text \<open>Steps beside the calls: a peer is closed, a task ends, a cell is set.\<close>

lemma close_inv_beside:
  assumes "close_inv w" "w' = w\<lparr>cw_holder := h, cw_peers := f, cw_tasks := t\<rparr>"
    "\<And>p. f p = NoPeer \<longleftrightarrow> cw_peers w p = NoPeer" "\<And>p. f p = PeerOpen \<Longrightarrow> cw_peers w p = PeerOpen"
    "\<And>i. t i = Some TaskRuns \<Longrightarrow> cw_tasks w i = Some TaskRuns"
    "sh_current h = sh_current (cw_holder w)" "length (sh_cells h) = length (sh_cells (cw_holder w))" "holder_live h \<Longrightarrow> holder_live (cw_holder w)"
  shows "close_inv w'"
proof (rule close_invI)
  note inv = close_invD [OF assms(1)]
  have same: "point_at w' = point_at w" by (rule point_at_same) (simp add: assms(2))
  show "lock_inv w'" by (rule lock_inv_same [OF inv(1)]) (simp_all add: assms(2))
  show "birth_inv w'" using inv(2) assms(3) unfolding birth_inv_def same by (simp add: assms(2) slot_def)
  show "peers_inv w'" using inv(3) assms(4) unfolding peers_inv_def by (simp add: assms(2) slot_def)
  show "tasks_inv w'" using inv(4) assms(5) unfolding tasks_inv_def same by (simp add: assms(2))
  show "covered_inv w'" using inv(5) assms(3,4) unfolding covered_inv_def by (simp add: assms(2))
  show "emptied_inv w'" using inv(6) assms(6-8) unfolding emptied_inv_def emptied_def by (auto simp: assms(2))
qed

lemma close_inv_other_step:
  assumes "other_step w w'" "close_inv w"
  shows "close_inv w'"
  using assms
proof (induction rule: other_step.induct)
  case (dropped w p ok)
  then show ?case by (intro close_inv_beside [OF dropped(2), where h = "cw_holder w" and t = "cw_tasks w" and f = "(cw_peers w)(p := PeerCloseEnded ok)"])
      (auto simp: set_fate_def split: if_splits)
next
  case (task w t l)
  then show ?case by (intro close_inv_beside [OF task(2), where h = "cw_holder w" and f = "cw_peers w" and t = "(cw_tasks w)(t := Some TaskEnded)"])
      (auto split: if_splits)
next
  case (callback cell w ev)
  then show ?case
    by (intro close_inv_beside [OF callback(2), where h = "cell_event cell ev (cw_holder w)" and f = "cw_peers w" and t = "cw_tasks w"])
      (auto simp: cell_event_holder dest: cell_event_holder(3), simp add: cell_event_def)
next
  case (fault w cell)
  let ?h = "(cw_holder w)\<lparr>sh_cells := (sh_cells (cw_holder w))[cell := state_u8 Closed]\<rparr>"
  have "sh_current (cw_holder w) < length (sh_cells (cw_holder w))" using close_invD(6) [OF fault] by (simp add: emptied_inv_def)
  then have "holder_live ?h \<Longrightarrow> holder_live (cw_holder w)" by (cases "cell = sh_current (cw_holder w)") (simp_all add: holder_live_def)
  then show ?case by (intro close_inv_beside [OF fault, where h = ?h and f = "cw_peers w" and t = "cw_tasks w"]) auto
next
  case (generation w)
  have "sh_current (cw_holder w) < length (sh_cells (cw_holder w))" using close_invD(6) [OF generation] by (simp add: emptied_inv_def)
  then have "holder_live (holder_set Closed (cw_holder w)) \<Longrightarrow> holder_live (cw_holder w)" by (auto simp: holder_live_def holder_set_def)
  then show ?case
    by (intro close_inv_beside [OF generation, where h = "holder_set Closed (cw_holder w)" and f = "cw_peers w" and t = "cw_tasks w"])
      (auto simp: holder_set_def)
qed (simp_all add: close_inv_new close_inv_advance close_inv_cancel)

lemma close_inv_reachable: "close_reachable w \<Longrightarrow> close_inv w"
proof (induction rule: close_reachable.induct)
  case start
  then show ?case
    by (simp add: close_inv_def lock_inv_def birth_inv_def peers_inv_def tasks_inv_def covered_inv_def emptied_inv_def closing_new_def
        point_at_def slot_def holder_new_def)
qed (auto simp: close_step_def close_inv_lock_step close_inv_other_step)

section \<open>What a close leaves behind\<close>

definition engine_empty :: "closing \<Rightarrow> bool" where
  "engine_empty w \<longleftrightarrow>
     \<not> holder_live (cw_holder w) \<and> cw_sender w = None \<and> cw_command w = None \<and> cw_audio w = None \<and> cw_resources w = None \<and>
     cw_channel w = None \<and> cw_connection w = None \<and> (\<forall>p. cw_peers w p \<noteq> PeerOpen) \<and>
     (\<forall>t. cw_tasks w t = Some TaskRuns \<longrightarrow> point_at w t = Making StoreTask)"

lemma completed_empty: "close_inv w \<Longrightarrow> cw_handle w = Some Completed \<Longrightarrow> \<not> cw_touched w \<Longrightarrow> engine_empty w"
  by (auto simp: close_inv_def emptied_inv_def emptied_def peers_inv_def tasks_inv_def slot_def engine_empty_def)




section \<open>Properties\<close>


section \<open>A close returns\<close>

definition waiting :: "nat \<Rightarrow> closing \<Rightarrow> bool" where
  "waiting i w \<longleftrightarrow> is_queued (point_at w i) \<or> is_awaiting (point_at w i)"

text \<open>A stretch of a run during which call \<open>i\<close> waits, with the number of steps the lock and the cleanup make in it.\<close>

inductive waits :: "nat \<Rightarrow> nat \<Rightarrow> closing \<Rightarrow> closing \<Rightarrow> bool" for i where
  here: "waiting i w \<Longrightarrow> waits i 0 w w"
| progress: "waits i n w v \<Longrightarrow> lock_step v v' \<Longrightarrow> waiting i v' \<Longrightarrow> waits i (Suc n) w v'"
| beside: "waits i n w v \<Longrightarrow> other_step v v' \<Longrightarrow> waiting i v' \<Longrightarrow> waits i n w v'"

text \<open>The calls that are served before \<open>i\<close>, and the steps that remain until it has been served itself: a turn is entering, at most
  ten stages, and leaving.\<close>

definition position :: "nat \<Rightarrow> closing \<Rightarrow> nat" where
  "position i w = length (takeWhile (\<lambda>j. j \<noteq> i) (cw_queue w))"

definition ahead :: "nat \<Rightarrow> closing \<Rightarrow> nat" where
  "ahead i w = (if cw_lock w = Some i then 0 else position i w + (if cw_lock w = None then 0 else 1))"

fun work :: "cleanup option \<Rightarrow> nat" where
  "work None = 10"
| "work (Some (Running st)) = 10 - stage_rank st"
| "work (Some _) = 0"

definition remaining :: "nat \<Rightarrow> closing \<Rightarrow> nat" where
  "remaining i w =
     (if cw_lock w = Some i then work (cw_handle w) + 1
      else position i w * 12 + (if cw_lock w = None then work (cw_handle w) + 2 else work (cw_handle w) + 13))"

lemma stage_rank_bound: "stage_rank st \<le> 9"
  by (cases st) simp_all

lemma work_bound: "work h \<le> 10"
  by (cases h rule: work.cases) simp_all

lemma remaining_bound: "remaining i w \<le> 12 * (ahead i w + 1)" "0 < remaining i w"
  using work_bound [of "cw_handle w"] by (auto simp: remaining_def ahead_def algebra_simps)

lemma cleanup_do_rank: "fst (cleanup_do ok st w) = Some st' \<Longrightarrow> stage_rank st < stage_rank st'"
  by (cases st) (auto split: option.splits)

lemma work_body: "cw_handle w = Some (Running st) \<Longrightarrow> work (cw_handle (cleanup_step ok w)) < work (cw_handle w)"
  using cleanup_do_rank [of ok st w] stage_rank_bound [of st]
  by (cases "fst (cleanup_do ok st w)") (auto simp: cleanup_step_running intro!: diff_less_mono2)

lemma position_append: "i \<in> set (cw_queue w) \<Longrightarrow> cw_queue w' = cw_queue w @ q \<Longrightarrow> position i w' = position i w"
  by (simp add: position_def takeWhile_append1)

lemma position_remove:
  assumes "cw_queue w' = remove1 j (cw_queue w)" "j \<noteq> i"
  shows "position i w' \<le> position i w"
proof -
  have "length (takeWhile (\<lambda>j. j \<noteq> i) (remove1 j q)) \<le> length (takeWhile (\<lambda>j. j \<noteq> i) q)" for q
    using assms(2) by (induction q) auto
  then show ?thesis using assms(1) by (simp add: position_def)
qed

lemma remaining_lock_step:
  assumes "lock_step w w'" "lock_inv w" "waiting i w" "waiting i w'"
  shows "remaining i w' < remaining i w"
  using assms
proof (induction rule: lock_step.induct)
  case (enter w)
  then obtain k q where q: "cw_queue w = k # q" by (cases "cw_queue w") auto
  have v: "cw_queue (run_enter w) = q" "cw_lock (run_enter w) = Some k" "work (cw_handle (run_enter w)) = work (cw_handle w)"
    using q by (auto simp: run_enter_def set_point_def Let_def split: option.split)
  have "i \<in> set (cw_queue w)" using enter lock_invD(2,3) [of w i] by (auto simp: waiting_def)
  then show ?case using enter(1) v q by (auto simp: remaining_def position_def)
next
  case (body w st ok)
  then show ?case using work_body [of w st ok] by (auto simp: remaining_def position_def simp del: work.simps)
next
  case (panic w st taken)
  have "stage_rank st < 10" using stage_rank_bound [of st] by simp
  then show ?case using panic(1) by (auto simp: remaining_def position_def cleanup_panic_handle)
next
  case (leave w k)
  have "k < length (cw_calls w)" using lock_invD(3) [OF leave(3), of k] leave(1) by (simp add: point_len)
  then have "point_at (run_leave k w) k = resume (after (cw_calls w ! k))" by (simp add: run_leave_def set_point_def point_at_def)
  moreover have "\<not> is_queued (resume a) \<and> \<not> is_awaiting (resume a)" for a by (cases a) simp_all
  ultimately have "k \<noteq> i" using leave(5) by (auto simp: waiting_def)
  then show ?case using leave(1,2) by (auto simp: remaining_def run_leave_def set_point_def position_def)
qed

lemma remaining_other_step:
  assumes "other_step w w'" "lock_inv w" "waiting i w" "waiting i w'"
  shows "remaining i w' \<le> remaining i w"
  using assms
proof (induction rule: other_step.induct)
  case (advance w k st ok)
  obtain r w1 where do: "offer_do ok k st w = (r, w1)" by force
  note f = offer_advance_frame [OF do]
  have "cw_queue (offer_advance ok k st w) = cw_queue w @ (if r = Fail then [k] else [])" "cw_lock (offer_advance ok k st w) = cw_lock w"
    "cw_handle (offer_advance ok k st w) = cw_handle w"
    using f(2,3,6) unfolding f(1) by (cases r; simp add: set_point_def join_queue_def)+
  moreover have "i \<in> set (cw_queue w) \<or> cw_lock w = Some i" using lock_invD(2,3) [OF advance(2), of i] advance(3) by (auto simp: waiting_def)
  ultimately show ?case using position_append [of i w "offer_advance ok k st w"] by (auto simp: remaining_def)
next
  case (cancel w k)
  have "k < length (cw_calls w)" using cancel(1) by (simp add: point_len)
  then have "point_at (cancel_call k w) k = Cancelled" by (simp add: cancel_call_def set_point_def point_at_def)
  then have "k \<noteq> i" using cancel(4) by (auto simp: waiting_def)
  then have "position i (cancel_call k w) \<le> position i w" by (intro position_remove [of _ k]) (simp_all add: cancel_call_def set_point_def)
  then have "position i (cancel_call k w) * 12 \<le> position i w * 12" by simp
  moreover have "cw_lock (cancel_call k w) = (if cw_lock w = Some k then None else cw_lock w)" "cw_handle (cancel_call k w) = cw_handle w"
    by (simp_all add: cancel_call_def set_point_def)
  ultimately show ?case using \<open>k \<noteq> i\<close> by (auto simp: remaining_def)
next
  case (close w)
  have "i \<in> set (cw_queue w) \<or> cw_lock w = Some i" using lock_invD(2,3) [OF close(1), of i] close(2) by (auto simp: waiting_def)
  then show ?case using position_append [of i w "new_call Returns w"] by (auto simp: remaining_def new_call_def)
next
  case (offer w)
  have "i \<in> set (cw_queue w) \<or> cw_lock w = Some i" using lock_invD(2,3) [OF offer(1), of i] offer(2) by (auto simp: waiting_def)
  then show ?case using position_append [of i w "new_call Builds w"] by (auto simp: remaining_def new_call_def)
qed (simp_all add: remaining_def position_def set_fate_def)

lemma waiting_progress:
  assumes "lock_inv w" "waiting i w"
  shows "\<exists>w'. lock_step w w'"
proof (cases "cw_lock w")
  case None
  then have "i \<in> set (cw_queue w)" using assms lock_invD(2,3) [OF assms(1), of i] by (auto simp: waiting_def)
  then show ?thesis using lock_step.enter [OF None] by (metis empty_iff list.set(1))
next
  case (Some k)
  then obtain h where "cw_handle w = Some h" using lock_invD(4) [OF assms(1)] by auto
  then show ?thesis using lock_step.body [of w] lock_step.leave [OF Some] by (cases h) blast+
qed

text \<open>
  Property C13. Every close is served, in the order of arrival and within a bound: whatever happens beside it - new closes and offers, offers going on, calls
  cancelled, cleanups that panic, callbacks - a call that finds \<open>k\<close> calls before it has returned after at most \<open>12 * (k + 1)\<close> steps
  of the lock and the cleanup, and as long as it waits such a step is possible. (A step of the cleanup that awaits the aborted task or WebRTC's
  \<open>close\<close> is the end of that wait.)
\<close>

theorem close_returns:
  assumes "close_reachable w" "waits i n w w'"
  shows "n < 12 * (ahead i w + 1) \<and> (\<exists>v. lock_step w' v)"
proof -
  have start: "lock_inv w" by (rule lock_inv_reachable [OF assms(1)])
  have "lock_inv w' \<and> waiting i w' \<and> n + remaining i w' \<le> remaining i w"
    using assms(2) start
  proof (induction rule: waits.induct)
    case (progress n w v v')
    then show ?case using lock_inv_lock_step [of v v'] remaining_lock_step [of v v' i] by fastforce
  next
    case (beside n w v v')
    then show ?case using lock_inv_other_step [of v v'] remaining_other_step [of v v' i] by fastforce
  qed simp
  then show ?thesis
    using remaining_bound(1) [of i w] remaining_bound(2) [of i w'] waiting_progress [of w' i] by auto
qed

section \<open>Under the gate of the session\<close>

fun active :: "point \<Rightarrow> bool" where
  "active (Ended _) = False"
| "active Cancelled = False"
| "active _ = True"

text \<open>The session lets a call in only when none is in progress; a cancelled one may have left its cleanup behind.\<close>

inductive gated_reachable :: "closing \<Rightarrow> bool" where
  start: "gated_reachable closing_new"
| step: "gated_reachable w \<Longrightarrow> close_step w w' \<Longrightarrow> length (cw_calls w') = length (cw_calls w) \<or> (\<forall>i. \<not> active (point_at w i)) \<Longrightarrow>
    gated_reachable w'"

definition gate_inv :: "closing \<Rightarrow> bool" where
  "gate_inv w \<longleftrightarrow>
     (\<forall>i j. active (point_at w i) \<longrightarrow> active (point_at w j) \<longrightarrow> i = j) \<and>
     (\<forall>i st. point_at w i = Making st \<longrightarrow> cw_handle w = None) \<and> (cw_handle w \<noteq> None \<longrightarrow> \<not> cw_touched w)"

lemma gate_inv_move:
  assumes "gate_inv w" "\<And>j. active (point_at w' j) \<Longrightarrow> active (point_at w j)"
    "\<And>j st. point_at w' j = Making st \<Longrightarrow> cw_handle w' = None" "cw_handle w' \<noteq> None \<Longrightarrow> \<not> cw_touched w'"
  shows "gate_inv w'"
  using assms unfolding gate_inv_def by blast

lemma gate_inv_lock_step:
  assumes "lock_step w w'" "lock_inv w" "gate_inv w"
  shows "gate_inv w'"
  using assms
proof (induction rule: lock_step.induct)
  case (enter w)
  then obtain i q where q: "cw_queue w = i # q" by (cases "cw_queue w") auto
  have i: "is_queued (point_at w i)" using lock_invD(2) [OF enter(3), of i] q by simp
  then have len: "i < length (cw_calls w)" by (simp add: point_len)
  have point: "point_at (run_enter w) j = (if j = i then Awaiting (after (cw_calls w ! i)) else point_at w j)" for j
    using q len by (auto simp: run_enter_def set_point_def point_at_def Let_def split: option.split)
  have act: "active (point_at w i)" using i by (cases "point_at w i") auto
  then have "point_at w j \<noteq> Making st" if "j \<noteq> i" for j st using that enter(4) by (auto simp: gate_inv_def)
  then show ?case
    using act enter(4) q
    by (intro gate_inv_move [OF enter(4)])
      (auto simp: point split: if_splits, auto simp: run_enter_def set_point_def Let_def gate_inv_def split: option.splits)
next
  case (body w st ok)
  then show ?case
    by (intro gate_inv_move [OF body(3)]) (auto simp: gate_inv_def point_at_same [of "cleanup_step ok w" w])
next
  case (panic w st taken)
  then show ?case
    by (intro gate_inv_move [OF panic(3)]) (auto simp: gate_inv_def point_at_same [of "cleanup_panic taken w" w])
next
  case (leave w i)
  have i: "is_awaiting (point_at w i)" using lock_invD(3) [OF leave(3), of i] leave(1) by simp
  then have len: "i < length (cw_calls w)" by (simp add: point_len)
  have "active (point_at w i)" using i by (cases "point_at w i") auto
  moreover have "point_at (run_leave i w) j = (if j = i then resume (after (cw_calls w ! i)) else point_at w j)" for j
    using len by (auto simp: run_leave_def set_point_def point_at_def)
  ultimately show ?case
    by (intro gate_inv_move [OF leave(4)]) (auto simp: run_leave_def set_point_def split: if_splits)
qed

lemma gate_inv_other_step:
  assumes "other_step w w'" "gate_inv w" "length (cw_calls w') = length (cw_calls w) \<or> (\<forall>i. \<not> active (point_at w i))"
  shows "gate_inv w'"
  using assms
proof (induction rule: other_step.induct)
  case (advance w i st ok)
  have len: "i < length (cw_calls w)" using point_known [of w i] advance(1) by simp
  have none: "cw_handle w = None" "active (point_at w i)" using advance(1,2) by (auto simp: gate_inv_def)
  then show ?case
    using offer_advance_point [OF len, of ok st] by (intro gate_inv_move [OF advance(2)]) (auto simp: offer_advance_fields split: if_splits)
next
  case (cancel w i)
  have "i < length (cw_calls w)" using cancel(1) by (simp add: point_len)
  then have point: "point_at (cancel_call i w) j = (if j = i then Cancelled else point_at w j)" for j
    by (auto simp: cancel_call_def set_point_def point_at_def)
  then show ?case
    using cancel(2) by (intro gate_inv_move [OF cancel(2)]) (auto simp: point gate_inv_def cancel_call_def set_point_def split: if_splits)
next
  case (close w)
  then have "\<not> active (point_at w i)" for i by (simp add: new_call_def)
  moreover from this have "point_at w i \<noteq> Making st" for i st by (metis active.simps(5))
  ultimately show ?case using close(1) unfolding gate_inv_def point_at_simps by (auto simp: new_call_def)
next
  case (offer w)
  then have "\<not> active (point_at w i)" for i by (simp add: new_call_def)
  moreover from this have "point_at w i \<noteq> Making st" for i st by (metis active.simps(5))
  ultimately show ?case using offer(1) unfolding gate_inv_def point_at_simps by (auto simp: new_call_def)
qed (auto elim!: gate_inv_move simp: gate_inv_def set_fate_def point_at_def)

lemma gated_inv: "gated_reachable w \<Longrightarrow> close_reachable w \<and> gate_inv w"
proof (induction rule: gated_reachable.induct)
  case start
  show ?case by (rule conjI [OF close_reachable.start]) (simp add: gate_inv_def closing_new_def point_at_def)
next
  case (step w w')
  then show ?case
    using gate_inv_lock_step [of w w'] gate_inv_other_step [of w w'] lock_inv_reachable [of w] close_reachable.step [of w w']
    by (auto simp: close_step_def)
qed

text \<open>
  When calls come one at a time, as the session's gate has it, a close whose cleanup did not panic returns from an empty engine, also if it awaited the
  cleanup of an earlier, cancelled call; and no cleanup is there while an offer is in the making, so that it never tears down the new peer.
\<close>

theorem gated_close_empties:
  assumes "gated_reachable w" "close_step w w'" "point_at w i = Awaiting a" "point_at w' i \<noteq> Awaiting a" "point_at w' i \<noteq> Cancelled"
    "cw_handle w = Some Completed"
  shows "engine_empty w \<and> (\<forall>t. cw_tasks w t \<noteq> Some TaskRuns)"
proof -
  have inv: "close_inv w" "gate_inv w" using gated_inv [OF assms(1)] close_inv_reachable by auto
  have "engine_empty w" using completed_empty [OF inv(1) assms(6)] inv(2) assms(6) by (simp add: gate_inv_def)
  moreover have "point_at w t \<noteq> Making StoreTask" for t using inv(2) assms(6) by (auto simp: gate_inv_def)
  ultimately show ?thesis by (auto simp: engine_empty_def)
qed

section \<open>The cleanup as one step\<close>

text \<open>The engine of \<open>Rtc_Engine\<close> that a state shows.\<close>

definition engine_view :: "engine \<Rightarrow> closing \<Rightarrow> engine" where
  "engine_view e w = e\<lparr>en_holder := cw_holder w, en_commands := (if cw_sender w = None then None else en_commands e),
     en_task := (case cw_command w of None \<Rightarrow> None | Some t \<Rightarrow> if cw_tasks w t = Some TaskRuns then en_task e else None),
     en_audio_track := cw_audio w \<noteq> None, en_resources := cw_resources w \<noteq> None, en_data_channel := cw_channel w \<noteq> None,
     en_peer := cw_connection w \<noteq> None, en_offering := None\<rparr>"

text \<open>The stages one after the other; those that are left out only when there is nothing to wait for are counted as idle.\<close>

fun cleanup_run :: "nat \<Rightarrow> bool \<Rightarrow> closing \<Rightarrow> closing" where
  "cleanup_run 0 ok w = w"
| "cleanup_run (Suc n) ok w = cleanup_run n ok (cleanup_step ok w)"

lemma option_pair_cases:
  obtains "x = None" | p c where "x = Some (p, c)"
  by (cases x) auto

text \<open>
  A cleanup that runs from its first stage to its last without an offer beside it is the single step \<open>close_inner\<close> by which \<open>Rtc_Engine\<close> and
  \<open>Connection\<close> model it, whatever WebRTC answers.
\<close>

theorem cleanup_refines_close_inner:
  assumes "cw_handle w = Some (Running SetClosed)"
  shows "cw_handle (cleanup_run 10 ok w) = Some Completed \<and> engine_view e (cleanup_run 10 ok w) = close_inner (engine_view e w)"
proof -
  have holder: "holder_set Closed (holder_set Closed h) = holder_set Closed h" for h by (simp add: holder_set_def)
  have ten: "(10 :: nat) = Suc (Suc (Suc (Suc (Suc (Suc (Suc (Suc (Suc (Suc 0)))))))))" by simp
  show ?thesis
  proof (cases w)
    case (fields h s c a r ch co hd lk q cl pe ta cv tc)
    then have "hd = Some (Running SetClosed)" using assms by simp
    then show ?thesis
      unfolding fields ten cleanup_run.simps
      by (cases c; cases r rule: option_pair_cases; cases co)
        (simp_all add: cleanup_step_def update_defs engine_view_def close_inner_def Let_def holder)
  qed
qed

section \<open>An offer and a close beside each other\<close>



lemma reachable_steps:
  assumes "close_reachable w"
  shows "close_reachable (new_call Returns w)" "close_reachable (new_call Builds w)"
    "cw_lock w = None \<Longrightarrow> cw_queue w \<noteq> [] \<Longrightarrow> close_reachable (run_enter w)" "close_reachable (cleanup_run n ok w)"
    "cw_lock w = Some i \<Longrightarrow> cw_handle w = Some Completed \<Longrightarrow> close_reachable (run_leave i w)"
    "point_at w i = Making st \<Longrightarrow> close_reachable (offer_advance ok i st w)"
proof -
  have step: "lock_step w v \<Longrightarrow> close_reachable v" "other_step w v \<Longrightarrow> close_reachable v" for v
    using close_reachable.step [OF assms] by (simp_all add: close_step_def)
  show "close_reachable (new_call Returns w)" "close_reachable (new_call Builds w)"
    by (rule step(2), rule other_step.close, rule step(2), rule other_step.offer)
  show "cw_lock w = None \<Longrightarrow> cw_queue w \<noteq> [] \<Longrightarrow> close_reachable (run_enter w)" by (rule step(1), rule lock_step.enter)
  show "cw_lock w = Some i \<Longrightarrow> cw_handle w = Some Completed \<Longrightarrow> close_reachable (run_leave i w)"
    by (rule step(1), rule lock_step.leave) simp_all
  show "point_at w i = Making st \<Longrightarrow> close_reachable (offer_advance ok i st w)" by (rule step(2), rule other_step.advance)
  have "close_reachable (cleanup_step ok v)" if "close_reachable v" for v
    using that close_reachable.step [OF that, of "cleanup_step ok v"] lock_step.body [of v _ ok] cleanup_step_idle [of v ok]
    by (cases "\<exists>st. cw_handle v = Some (Running st)") (auto simp: close_step_def)
  then show "close_reachable (cleanup_run n ok w)" using assms by (induction n arbitrary: w) auto
qed

lemmas run_values = cleanup_step_def update_defs run_enter_def run_leave_def new_call_def closing_new_def eval_nat_numeral








text \<open>The close waits behind the lock while the offer's first close holds it.\<close>

theorem close_returns_witness:
  "\<exists>w. ahead 1 w = 1 \<and> waits 1 8 w (cleanup_run 8 True w) \<and> (\<exists>v. lock_step (cleanup_run 8 True w) v)"
proof -
  let ?w = "new_call Returns (run_enter (new_call Builds closing_new))"
  have reach: "close_reachable ?w"
    by (intro reachable_steps(1,2,3) close_reachable.start) (simp_all add: new_call_def closing_new_def)
  have facts: "ahead 1 ?w = 1" "waiting 1 ?w"
    by (simp_all add: ahead_def position_def waiting_def run_enter_def new_call_def closing_new_def set_point_def Let_def point_at_def)
  have stays: "waiting 1 (cleanup_step True v) = waiting 1 v" for v by (simp add: waiting_def point_at_same [of "cleanup_step True v" v])
  have shift: "waits 1 (n + m) v (cleanup_run m True u)"
    if "waits 1 n v u" "\<forall>k < m. \<exists>st. cw_handle (cleanup_run k True u) = Some (Running st)" for n m v u
    using that
  proof (induction m arbitrary: n u)
    case (Suc m)
    obtain st where "cw_handle u = Some (Running st)" using Suc.prems(2) by fastforce
    moreover have "waiting 1 u" using Suc.prems(1) by (cases rule: waits.cases) auto
    ultimately have "waits 1 (Suc n) v (cleanup_step True u)"
      using waits.progress [OF Suc.prems(1) lock_step.body] stays by simp
    moreover have "\<exists>st. cw_handle (cleanup_run k True (cleanup_step True u)) = Some (Running st)" if "k < m" for k
      using Suc.prems(2) [rule_format, of "Suc k"] that by simp
    ultimately show ?case using Suc.IH [of "Suc n" "cleanup_step True u"] by simp
  qed simp
  have "\<exists>st. cw_handle (cleanup_run k True ?w) = Some (Running st)" if "k < 8" for k
  proof -
    consider "k = 0" | "k = 1" | "k = 2" | "k = 3" | "k = 4" | "k = 5" | "k = 6" | "k = 7" using \<open>k < 8\<close> by linarith
    then show ?thesis by cases (simp_all add: run_values Let_def)
  qed
  from shift [OF waits.here [OF facts(2)], of 8] this have run: "waits 1 8 ?w (cleanup_run 8 True ?w)" by simp
  from close_returns [OF reach run] facts run show ?thesis by blast
qed

end
