(* ===== verification/Engine_Status.thy ===== *)
theory Engine_Status
  imports Connection
begin

text \<open>
  What the engine reports of its state: the status callbacks of \<open>bind_peer_connection_handlers\<close>
  (\<open>src/src/infrastructure/rtc_engine/handlers.rs\<close>) and the diagnostic of a timed-out attempt
  (\<open>timeout_diagnostic\<close>, \<open>src/src/infrastructure/rtc_engine/engine.rs\<close>). The names of the WebRTC crate's states are given from outside.
\<close>

section \<open>Status callbacks\<close>

datatype log_level = Level_Debug | Level_Warn

type_synonym status_line = "log_level \<times> string \<times> string"

definition print_status :: "string \<Rightarrow> string \<Rightarrow> status_line" where
  "print_status status_type status_message =
     (if status_message = ''failed'' then Level_Warn else Level_Debug, status_type, status_message)"

datatype ice_gatherer_state = Gatherer_New | Gatherer_Gathering | Gatherer_Complete | Gatherer_Other

datatype ice_connection_state = Ice_Checking | Ice_Completed | Ice_Failed | Ice_Closed | Ice_Other

datatype signaling_state = Sig_Have_Local_Offer | Sig_Have_Remote_Offer | Sig_Stable | Sig_Closed | Sig_Other

fun on_ice_gathering_state_change :: "ice_gatherer_state \<Rightarrow> status_line option" where
  "on_ice_gathering_state_change Gatherer_New = Some (print_status ''ICE Gathering'' ''new'')"
| "on_ice_gathering_state_change Gatherer_Gathering = Some (print_status ''ICE Gathering'' ''gathering'')"
| "on_ice_gathering_state_change Gatherer_Complete = Some (print_status ''ICE Gathering'' ''complete'')"
| "on_ice_gathering_state_change Gatherer_Other = None"

fun on_ice_connection_state_change :: "ice_connection_state \<Rightarrow> status_line option" where
  "on_ice_connection_state_change Ice_Checking = Some (print_status ''ICE Connection'' ''checking'')"
| "on_ice_connection_state_change Ice_Completed = Some (print_status ''ICE Connection'' ''completed'')"
| "on_ice_connection_state_change Ice_Failed = Some (print_status ''ICE Connection'' ''failed'')"
| "on_ice_connection_state_change Ice_Closed = Some (print_status ''ICE Connection'' ''closed'')"
| "on_ice_connection_state_change Ice_Other = None"

fun on_signaling_state_change :: "signaling_state \<Rightarrow> status_line option" where
  "on_signaling_state_change Sig_Have_Local_Offer = Some (print_status ''Signaling'' ''have_local_offer'')"
| "on_signaling_state_change Sig_Have_Remote_Offer = Some (print_status ''Signaling'' ''have_remote_offer'')"
| "on_signaling_state_change Sig_Stable = Some (print_status ''Signaling'' ''stable'')"
| "on_signaling_state_change Sig_Closed = Some (print_status ''Signaling'' ''closed'')"
| "on_signaling_state_change Sig_Other = None"

section \<open>The diagnostic of a timeout\<close>

text \<open>The states of the peer and its transports, by the names their types print.\<close>

record transport_labels =
  tl_peer :: string
  tl_ice :: string
  tl_dtls :: string
  tl_sctp :: string

definition channel_open_timeout_error :: "transport_labels \<Rightarrow> rtc_ready_state \<Rightarrow> string" where
  "channel_open_timeout_error l channel =
     ''Data channel did not open in time: peer='' @ tl_peer l @ '', ice='' @ tl_ice l @ '', dtls='' @ tl_dtls l @
     '', sctp='' @ tl_sctp l @ '', channel='' @ state_str channel"

text \<open>Neither lock is waited for; without a peer there is nothing to report.\<close>

definition timeout_diagnostic :: "bool \<Rightarrow> bool \<Rightarrow> transport_labels \<Rightarrow> engine \<Rightarrow> string option" where
  "timeout_diagnostic peer_locked state_locked l e =
     (if peer_locked \<or> \<not> en_peer e then None
      else map_option (channel_open_timeout_error l) (holder_try_get state_locked (en_holder e)))"

text \<open>The error of a timed-out attempt is one of two fixed texts, the longer one with the labels and the channel's state.\<close>

lemma timeout_text:
  "timed_out (timeout_diagnostic pl sl l e) =
     (if pl \<or> sl \<or> \<not> en_peer e then ''Connection attempt timed out''
      else ''Connection attempt timed out: '' @ channel_open_timeout_error l (holder_get (en_holder e)))"
  by (simp add: timed_out_def timeout_diagnostic_def holder_try_get_def)

lemma closed_no_diagnostic: "engine_closed e \<Longrightarrow> timeout_diagnostic pl sl l e = None"
  by (simp add: timeout_diagnostic_def engine_closed_def)

lemma warned_exactly_on_failure:
  "on_ice_connection_state_change st = Some (Level_Warn, c, m) \<longleftrightarrow> st = Ice_Failed \<and> c = ''ICE Connection'' \<and> m = ''failed''"
  by (cases st) (auto simp: print_status_def)

end
