(* ===== verification/Service_Clock.thy ===== *)
theory Service_Clock
  imports Data_Channel_Properties
begin

text \<open>
  The clock readings and random values behind the \<open>moment\<close>s and start values of \<open>src/src/datachannel/core/service.rs\<close>, its panicking
  constructor and its status reports. The system clock is an integer number of nanoseconds since the
  Unix epoch, negative before it, and may be set back.
\<close>

section \<open>Readings of the system clock\<close>

definition initial_request_sequence :: "int \<Rightarrow> u64" where
  "initial_request_sequence t = (if t < 0 then 1 else word_of_int (t div 1000))"

definition new_session_id :: "int \<Rightarrow> u64 \<Rightarrow> u64" where
  "new_session_id t random = xor (if t < 0 then 0 else word_of_int t) random"

definition now_secs_u64 :: "int \<Rightarrow> nat" where
  "now_secs_u64 t = (if t < 0 then 0 else nat (t div 1000000000))"

text \<open>\<open>Duration::as_secs_f64\<close>: whole seconds and the fraction, each rounded.\<close>

definition now_secs_f64 :: "int \<Rightarrow> fval" where
  "now_secs_f64 t =
     (if t < 0 then Finite False 0 0
      else fadd binary64 (float_of_nat binary64 (nat (t div 1000000000)))
             (fdiv binary64 (float_of_nat binary64 (nat (t mod 1000000000))) (float_of_nat binary64 1000000000)))"

definition clock_moment :: "instant \<Rightarrow> int \<Rightarrow> string \<Rightarrow> string \<Rightarrow> bool \<Rightarrow> moment" where
  "clock_moment instant t local uuid spawn =
     \<lparr>at_instant = instant, at_secs = now_secs_u64 t, at_secs_f64 = now_secs_f64 t, at_local = local, at_uuid = uuid, at_spawn = spawn\<rparr>"

section \<open>Construction and reports\<close>

text \<open>\<open>DataChannelService::new\<close> over \<open>try_new\<close>, both with the session and sequence they draw; \<open>None\<close> is the panic.\<close>

definition dc_service_try_new ::
  "('t, 'k) runtime \<Rightarrow> 't \<Rightarrow> event_bus \<Rightarrow> lidar_pool \<Rightarrow> bool \<Rightarrow> int \<Rightarrow> u64 \<Rightarrow> int \<Rightarrow> bool \<Rightarrow> string + 't dc_service" where
  "dc_service_try_new W transport events pool remote session_time random sequence_time spawned =
     dc_try_new W transport events pool remote (new_session_id session_time random) (initial_request_sequence sequence_time) spawned"

definition dc_service_new ::
  "('t, 'k) runtime \<Rightarrow> 't \<Rightarrow> event_bus \<Rightarrow> lidar_pool \<Rightarrow> bool \<Rightarrow> int \<Rightarrow> u64 \<Rightarrow> int \<Rightarrow> bool \<Rightarrow> 't dc_service option" where
  "dc_service_new W transport events pool remote session_time random sequence_time spawned =
     (case dc_service_try_new W transport events pool remote session_time random sequence_time spawned of
        Inl _ \<Rightarrow> None
      | Inr s \<Rightarrow> Some s)"

text \<open>What is reported of an error message: the number of its entries, if it has a list of them.\<close>

definition handle_error_message :: "json \<Rightarrow> nat option option" where
  "handle_error_message message =
     (if \<not> should_emit_error_log message then None else Some (map_option length (Option.bind (jget ''data'' message) as_array)))"

section \<open>Properties\<close>

text \<open>The identity of a session is the random value under a fixed permutation: it is as random as that value, and distinct
  values give distinct sessions.\<close>

lemma session_id_bijective: "bij (new_session_id t)"
proof -
  have "new_session_id t \<circ> new_session_id t = id"
    by (auto simp: new_session_id_def fun_eq_iff bit_xor_iff intro!: bit_eqI)
  then show ?thesis by (intro o_bij)
qed

lemma sequence_exact: "0 \<le> t \<Longrightarrow> t div 1000 < 2 ^ 64 \<Longrightarrow> uint (initial_request_sequence t) = t div 1000"
  by (simp add: initial_request_sequence_def take_bit_int_eq_self uint_word_of_int_eq pos_imp_zdiv_nonneg_iff)

lemma round_to_zero: "e \<le> 1024 \<Longrightarrow> round_to binary64 s 0 e = Finite s 0 0"
  by (auto simp: round_to_def round_shift_def mk_finite_def strip_zeros_step binary64_def Let_def)

lemma whole_seconds:
  "float_of_nat binary64 0 = Finite False 0 0" "float_of_nat binary64 1000000000 = Finite False 1953125 9"
  "float_of_nat binary64 1700000000 = Finite False 6640625 8" "float_of_nat binary64 1699999940 = Finite False 424999985 2"
  by (simp_all add: float_eval)

lemma plus_zero:
  "fadd binary64 (Finite False 6640625 8) (Finite False 0 0) = Finite False 6640625 8"
  "fadd binary64 (Finite False 424999985 2) (Finite False 0 0) = Finite False 424999985 2"
  by (simp_all add: binary64_def signed_mant_def, simp_all add: round_to_def, simp_all add: float_eval)

lemma set_back: "fsub binary64 (Finite False 424999985 2) (Finite False 6640625 8) = Finite True 15 2"
  by (simp add: fsub_def binary64_def signed_mant_def, simp add: round_to_def, simp add: float_eval)

text \<open>
  The rate limit runs on the system clock, not on the monotonic one. When the clock is set back by an
  hour after a frame, a frame that arrives fifty-nine minutes later is still refused.
\<close>

theorem throttle_follows_wall_clock:
  "\<exists>s1. should_process (clock_moment 0 1700000000000000000 [] [] True) ''vid'' service0 = (True, s1) \<and>
     should_process (clock_moment (59 * 60000000000) (1700000000000000000 - 60000000000) [] [] True) ''vid'' s1 = (False, s1)"
proof -
  have limit: "throttle_limit ''vid'' = Some FIFTEENTH" by (simp add: throttle_limit_def dc_types_def)
  let ?t = "1700000000000000000 :: int"
  have small: "- int (precision binary64) - int (bit_len 1953125) - 12 \<le> 1024" by (simp add: binary64_def)
  have clock: "now_secs_f64 ?t = Finite False 6640625 8" "now_secs_f64 (?t - 60000000000) = Finite False 424999985 2"
    by (simp_all add: now_secs_f64_def whole_seconds round_to_zero [OF small] plus_zero del: fadd.simps)
  have first: "fge (fsub binary64 (now_secs_f64 ?t) (Finite False 0 0)) FIFTEENTH"
    unfolding clock by (simp add: FIFTEENTH_def fsub_def binary64_def signed_mant_def, simp add: round_to_def, simp add: float_eval)
  have second: "\<not> fge (fsub binary64 (now_secs_f64 (?t - 60000000000)) (now_secs_f64 ?t)) FIFTEENTH"
    unfolding clock set_back by (simp add: FIFTEENTH_def signed_mant_def)
  show ?thesis
    using first second
    by (simp add: should_process_def limit clock_moment_def service0_def dc_initial_def hm_insert_def)
qed

end
