(* ===== verification/Video_Pipeline.thy ===== *)
theory Video_Pipeline
  imports Video
begin

text \<open>
  Construction of the decoder: \<open>H264Decoder::new\<close> and its destructor (\<open>src/src/video/codec.rs\<close>), the one-time initialisation
  of GStreamer (\<open>src/src/infrastructure/gstreamer_util.rs\<close>) and what the handler does with the outcome
  (\<open>src/src/video/service.rs\<close>). What GStreamer answers is given from outside.
\<close>

section \<open>Initialisation\<close>

text \<open>\<open>GST_INIT\<close> and \<open>INIT_RESULT\<close>: nothing yet, or the outcome of the only call of \<open>gstreamer::init\<close>. The number of calls is
  kept as a history.\<close>

record gst_state =
  gs_result :: "bool option"
  gs_calls :: nat

definition gst_unused :: gst_state where
  "gst_unused = \<lparr>gs_result = None, gs_calls = 0\<rparr>"

definition ensure_gst_init :: "bool \<Rightarrow> gst_state \<Rightarrow> (string + unit) \<times> gst_state" where
  "ensure_gst_init init_ok g =
     (let g1 = (case gs_result g of None \<Rightarrow> \<lparr>gs_result = Some init_ok, gs_calls = Suc (gs_calls g)\<rparr> | Some _ \<Rightarrow> g)
      in (if gs_result g1 = Some True then Inr () else Inl ''GStreamer initialization failed. Is GStreamer installed?'', g1))"

section \<open>The pipeline\<close>

definition pipeline_str :: "string \<Rightarrow> string" where
  "pipeline_str decoder =
     (if decoder = ''nvv4l2decoder''
      then ''appsrc name=src is-live=true do-timestamp=true format=time block=false '' @
           ''caps=video/x-h264,stream-format=byte-stream,alignment=nal '' @
           ''! h264parse '' @ ''! '' @ decoder @ '' '' @ ''! nvvidconv '' @ ''! video/x-raw,format=BGRx '' @ ''! videoconvert '' @
           ''! video/x-raw,format=BGR '' @ ''! appsink name=sink emit-signals=false sync=false '' @ ''max-buffers=2 drop=true''
      else ''appsrc name=src is-live=true do-timestamp=true format=time block=false '' @
           ''caps=video/x-h264,stream-format=byte-stream,alignment=nal '' @
           ''! h264parse '' @ ''! '' @ decoder @ '' '' @ ''! videoconvert '' @
           ''! video/x-raw,format=BGR '' @ ''! appsink name=sink emit-signals=false sync=false '' @ ''max-buffers=2 drop=true'')"

text \<open>An element looked up by its name: missing, of another type, or as expected.\<close>

datatype lookup = Missing | Other_Type | Found

record pipeline_env =
  pe_init :: bool
  pe_variable :: "string option"
  pe_nvv4l2 :: bool
  pe_avdec :: bool
  pe_launch :: "string \<Rightarrow> string + bool" \<comment> \<open>the error, or whether the element is a pipeline\<close>
  pe_src :: lookup
  pe_sink :: lookup
  pe_pad :: bool
  pe_probe :: bool
  pe_playing :: "string option" \<comment> \<open>the error of the state change\<close>

fun lookup_element :: "lookup \<Rightarrow> string \<Rightarrow> string \<Rightarrow> string + unit" where
  "lookup_element Missing missing _ = Inl missing"
| "lookup_element Other_Type _ other = Inl other"
| "lookup_element Found _ _ = Inr ()"

text \<open>The pad probe that counts the buffers out.\<close>

definition track_encoded_buffers :: "pipeline_env \<Rightarrow> string + unit" where
  "track_encoded_buffers v =
     (if \<not> pe_pad v then Inl ''appsrc source pad missing''
      else if \<not> pe_probe v then Inl ''appsrc buffer probe installation failed'' else Inr ())"

text \<open>The result carries the name of the decoder and the pipeline it was launched from.\<close>

definition h264_decoder_open :: "pipeline_env \<Rightarrow> gst_state \<Rightarrow> (string + string \<times> string \<times> h264_decoder) \<times> gst_state" where
  "h264_decoder_open v g =
     (case ensure_gst_init (pe_init v) g of
        (Inl err, g1) \<Rightarrow> (Inl err, g1)
      | (Inr _, g1) \<Rightarrow>
          (and_then (detect_h264_decoder (pe_variable v) (pe_nvv4l2 v) (pe_avdec v)) (\<lambda>decoder.
           let text = pipeline_str decoder in
           and_then (map_err (\<lambda>e. ''Failed to create GStreamer pipeline: '' @ e) (pe_launch v text)) (\<lambda>is_pipeline.
           and_then (if is_pipeline then Inr () else Inl ''Pipeline element is not a Pipeline'') (\<lambda>_.
           and_then (lookup_element (pe_src v) ''appsrc element not found in pipeline''
                       (''Element '' @ [char_of (39 :: nat)] @ ''src'' @ [char_of (39 :: nat)] @ '' is not an AppSrc'')) (\<lambda>_.
           and_then (lookup_element (pe_sink v) ''appsink element not found in pipeline''
                       (''Element '' @ [char_of (39 :: nat)] @ ''sink'' @ [char_of (39 :: nat)] @ '' is not an AppSink'')) (\<lambda>_.
           and_then (track_encoded_buffers v) (\<lambda>_.
           case pe_playing v of
             Some e \<Rightarrow> Inl (''Failed to set pipeline to Playing state: '' @ e)
           | None \<Rightarrow> Inr (decoder, text, h264_decoder_new))))))), g1))"

text \<open>The handler of a track: without a decoder it ends before it reads anything.\<close>

definition video_handler_start :: "pipeline_env \<Rightarrow> gst_state \<Rightarrow> video_stream option \<times> gst_state" where
  "video_handler_start v g =
     (case h264_decoder_open v g of
        (Inl _, g1) \<Rightarrow> (None, g1)
      | (Inr (_, _, d), g1) \<Rightarrow> (Some (video_start\<lparr>vs_decoder := d\<rparr>), g1))"

section \<open>Properties\<close>

lemma detect_available: "detect_h264_decoder variable nv av = Inr d \<Longrightarrow> d = ''nvv4l2decoder'' \<and> nv \<or> d = ''avdec_h264'' \<and> av"
  by (auto simp: detect_h264_decoder_def Let_def split: if_splits)

lemma detect_default:
  "variable = None \<Longrightarrow> (\<exists>d. detect_h264_decoder variable nv av = Inr d) \<longleftrightarrow> nv \<or> av"
proof -
  have "map ascii_lower (trim ''auto'') = ''auto''" by code_simp
  then show "variable = None \<Longrightarrow> (\<exists>d. detect_h264_decoder variable nv av = Inr d) \<longleftrightarrow> nv \<or> av"
    by (auto simp: detect_h264_decoder_def)
qed

text \<open>
  A handler starts exactly if GStreamer was initialised - by the first decoder, whose outcome stands for all later ones -
  a permitted decoder is installed, and every step of the construction succeeds; it then starts with an empty decoder, launched from
  the pipeline of a decoder that is installed. GStreamer is initialised at most once however many handlers start.
\<close>

theorem video_handler_start_exact:
  "((\<exists>s. fst (video_handler_start v g) = Some s) \<longleftrightarrow>
      (case gs_result g of None \<Rightarrow> pe_init v | Some r \<Rightarrow> r) \<and>
      (\<exists>d. detect_h264_decoder (pe_variable v) (pe_nvv4l2 v) (pe_avdec v) = Inr d \<and> pe_launch v (pipeline_str d) = Inr True) \<and>
      pe_src v = Found \<and> pe_sink v = Found \<and> pe_pad v \<and> pe_probe v \<and> pe_playing v = None) \<and>
   (\<forall>s. fst (video_handler_start v g) = Some s \<longrightarrow> s = video_start) \<and>
   gs_calls (snd (video_handler_start v g)) = gs_calls g + (if gs_result g = None then 1 else 0) \<and>
   gs_result (snd (video_handler_start v g)) = Some (case gs_result g of None \<Rightarrow> pe_init v | Some r \<Rightarrow> r)"
proof -
  have found: "lookup_element l a b = Inr u \<longleftrightarrow> l = Found" for l a b u by (cases l) auto
  have err: "map_err f r = Inr x \<longleftrightarrow> r = Inr x" for f :: "string \<Rightarrow> string" and r :: "string + bool" and x by (cases r) auto
  have open_iff: "fst (h264_decoder_open v g) = Inr (d, t, h) \<longleftrightarrow>
      (case gs_result g of None \<Rightarrow> pe_init v | Some r \<Rightarrow> r) \<and>
      detect_h264_decoder (pe_variable v) (pe_nvv4l2 v) (pe_avdec v) = Inr d \<and> t = pipeline_str d \<and> h = h264_decoder_new \<and>
      pe_launch v (pipeline_str d) = Inr True \<and> pe_src v = Found \<and> pe_sink v = Found \<and> pe_pad v \<and> pe_probe v \<and> pe_playing v = None" for d t h
    by (auto simp: h264_decoder_open_def ensure_gst_init_def Let_def and_then_Inr_iff found err track_encoded_buffers_def
        split: option.splits prod.splits sum.splits if_splits)
  have state: "snd (h264_decoder_open v g) = snd (ensure_gst_init (pe_init v) g)"
    by (auto simp: h264_decoder_open_def split: prod.splits sum.splits)
  have started: "fst (video_handler_start v g) = Some s \<longleftrightarrow> s = video_start \<and> (\<exists>d t. fst (h264_decoder_open v g) = Inr (d, t, h264_decoder_new))" for s
    using open_iff by (cases "h264_decoder_open v g") (auto simp: video_handler_start_def video_start_def split: sum.splits)
  have "snd (video_handler_start v g) = snd (ensure_gst_init (pe_init v) g)"
    unfolding state [symmetric] by (auto simp: video_handler_start_def split: prod.splits sum.splits)
  then show ?thesis
    unfolding started open_iff by (auto simp: ensure_gst_init_def Let_def split: option.splits)
qed

theorem video_handler_start_exact_witness:
  "fst (video_handler_start \<lparr>pe_init = False, pe_variable = None, pe_nvv4l2 = False, pe_avdec = True, pe_launch = (\<lambda>_. Inr True), pe_src = Found,
     pe_sink = Found, pe_pad = True, pe_probe = True, pe_playing = None\<rparr> \<lparr>gs_result = Some True, gs_calls = 1\<rparr>) = Some video_start"
proof -
  let ?v = "\<lparr>pe_init = False, pe_variable = None, pe_nvv4l2 = False, pe_avdec = True, pe_launch = (\<lambda>_. Inr True), pe_src = Found,
     pe_sink = Found, pe_pad = True, pe_probe = True, pe_playing = None\<rparr>"
  show ?thesis
    using video_handler_start_exact [of ?v "\<lparr>gs_result = Some True, gs_calls = 1\<rparr>"] detect_default [of None False True] by auto
qed

end
