(* ===== verification/Audio_Clock.thy ===== *)
theory Audio_Clock
  imports Data_Channel Complex_Main
begin

text \<open>
  The clock of the audio sender (\<open>src/src/audio/transmit/service.rs\<close>): the delay of a packet after the first
  one is the wrapping difference of the RTP timestamps, divided by 48000 in binary64 and rounded to
  nanoseconds. The float operations are compared with the real numbers they approximate.
\<close>

text \<open>\<open>None\<close> is the panic of \<open>Duration::from_secs_f64\<close>.\<close>

definition playback_delay :: "u32 \<Rightarrow> u32 \<Rightarrow> nat option" where
  "playback_delay base timestamp =
     f64_to_nanos (fdiv binary64 (float_of_nat binary64 (unat (timestamp - base))) (float_of_nat binary64 48000))"

section \<open>Values of floats\<close>

abbreviation scaled :: "nat \<Rightarrow> int \<Rightarrow> real" where
  "scaled m e \<equiv> real m * 2 powi e"

lemma scaled_half: "even m \<Longrightarrow> scaled (m div 2) (e + 1) = scaled m e"
  by (auto simp: power_int_add elim!: evenE)

lemma strip_zeros_value: "strip_zeros m e = (m', e') \<Longrightarrow> scaled m' e' = scaled m e"
proof (induction m e arbitrary: m' e' rule: strip_zeros.induct)
  case (1 m e)
  then show ?case
    using scaled_half [of m e] by (subst (asm) (2) strip_zeros.simps) (auto split: if_splits)
qed

lemma mk_finite_value: "\<exists>m' e'. mk_finite s m e = Finite s m' e' \<and> scaled m' e' = scaled m e"
  using strip_zeros_value by (auto simp: mk_finite_def split: prod.split)

lemma round_shift_error: "\<bar>real (round_shift m k) * 2 ^ k - real m\<bar> \<le> 2 ^ k / 2"
proof -
  define q r where "q = m div 2 ^ k" and "r = m mod 2 ^ k"
  have m: "m = q * 2 ^ k + r" unfolding q_def r_def by (rule div_mult_mod_eq [symmetric])
  have r: "r < 2 ^ k" by (simp add: r_def)
  have real_m: "real m = real q * 2 ^ k + real r" unfolding m by simp
  have real_r: "real r < 2 ^ k" using r by (metis of_nat_less_iff of_nat_numeral of_nat_power)
  show ?thesis
  proof (cases "2 ^ k < 2 * r \<or> (2 ^ k = 2 * r \<and> odd q)")
    case True
    then have "2 ^ k \<le> 2 * r" by auto
    then have "(2 :: real) ^ k \<le> 2 * real r" by (metis of_nat_le_iff of_nat_mult of_nat_numeral of_nat_power)
    moreover have "round_shift m k = q + 1" using True by (simp add: round_shift_def q_def r_def Let_def)
    ultimately show ?thesis using real_m real_r by (simp add: algebra_simps)
  next
    case False
    then have "2 * r \<le> 2 ^ k" by auto
    then have "2 * real r \<le> (2 :: real) ^ k" by (metis of_nat_le_iff of_nat_mult of_nat_numeral of_nat_power)
    moreover have "round_shift m k = q" using False by (simp add: round_shift_def q_def r_def Let_def)
    ultimately show ?thesis using real_m by simp
  qed
qed

text \<open>The nanoseconds of a value are within half of the exact ones.\<close>

lemma f64_to_nanos_value:
  assumes "scaled m e < 2 ^ 60"
  shows "\<exists>T. f64_to_nanos (Finite False m e) = Some T \<and> \<bar>real T - scaled m e * 10 ^ 9\<bar> \<le> 1 / 2"
proof (cases "0 \<le> e")
  case True
  define T where "T = m * 2 ^ nat e * 1000000000"
  have T: "real T = scaled m e * 10 ^ 9" using True by (simp add: T_def power_int_def)
  have "real T < 2 ^ 64 * 1000000000" using assms unfolding T by simp
  then have "T < 2 ^ 64 * 1000000000" by (metis of_nat_less_iff of_nat_mult of_nat_numeral of_nat_power)
  then show ?thesis using True T by (simp add: T_def [symmetric] Let_def)
next
  case False
  define k where "k = nat (- e)"
  define T where "T = round_shift (m * 1000000000) k"
  have powi: "(2 :: real) powi e = 1 / 2 ^ k" using False by (simp add: k_def power_int_def field_simps)
  have "\<bar>real T * 2 ^ k - real (m * 1000000000)\<bar> \<le> 2 ^ k / 2" unfolding T_def by (rule round_shift_error)
  then have err: "\<bar>real T - scaled m e * 10 ^ 9\<bar> \<le> 1 / 2"
    unfolding powi by (simp add: abs_le_iff field_simps)
  from abs_le_D1 [OF this] have "real T \<le> scaled m e * 1000000000 + 1 / 2" by simp
  also have "\<dots> < 1152921504606846976 * 1000000000 + 1 / 2" using assms by simp
  finally have "real T < 2 ^ 64 * 1000000000" by simp
  then have "T < 2 ^ 64 * 1000000000" by (metis of_nat_less_iff of_nat_mult of_nat_numeral of_nat_power)
  then show ?thesis using False err by (simp add: T_def [symmetric] k_def [symmetric] Let_def)
qed

text \<open>Rounding to a format moves a normal value by at most its share of the precision.\<close>

lemma round_to_value:
  assumes "0 < m" "min_exp fmt \<le> e" "precision fmt \<le> bit_len m" "1 < precision fmt" "int (bit_len m) + e < max_exp fmt"
  shows "\<exists>m' e'. round_to fmt s m e = Finite s m' e' \<and> \<bar>scaled m' e' - scaled m e\<bar> * 2 ^ precision fmt \<le> scaled m e"
proof -
  define k where "k = bit_len m - precision fmt"
  have k: "nat (max (int (bit_len m) - int (precision fmt)) (min_exp fmt - e)) = k"
    using assms(2,3) by (simp add: k_def max_def nat_diff_distrib)
  have err: "\<bar>real (round_shift m k) * 2 ^ k - real m\<bar> \<le> 2 ^ k / 2" by (rule round_shift_error)
  have size: "2 ^ (bit_len m - 1) \<le> m" "m < 2 ^ bit_len m" using bit_len_bounds [OF assms(1)] by auto
  have bound: "(2 ^ k / 2) * 2 ^ precision fmt \<le> real m"
  proof -
    have "k + precision fmt = Suc (bit_len m - 1)" using assms(3,4) by (simp add: k_def)
    then have "2 ^ k * 2 ^ precision fmt = 2 * (2 :: nat) ^ (bit_len m - 1)" by (metis power_add power_Suc)
    then have "2 ^ k * 2 ^ precision fmt \<le> 2 * m" using size(1) by simp
    then have "real (2 ^ k * 2 ^ precision fmt) \<le> real (2 * m)" by (rule of_nat_mono)
    then show ?thesis by simp
  qed
  have len: "bit_len (round_shift m k) \<le> bit_len m - k + 1"
  proof (rule bit_len_le)
    have "m div 2 ^ k < 2 ^ (bit_len m - k)"
      using size(2) by (simp add: k_def less_mult_imp_div_less flip: power_add)
    then show "round_shift m k < 2 ^ (bit_len m - k + 1)"
      by (simp add: round_shift_def Let_def)
  qed
  have "\<not> int (bit_len (round_shift m k)) + (e + int k) > max_exp fmt"
    using len assms(3,5) by (simp add: k_def)
  then have r: "round_to fmt s m e = mk_finite s (round_shift m k) (e + int k)" by (simp add: round_to_def k Let_def)
  obtain m' e' where f: "mk_finite s (round_shift m k) (e + int k) = Finite s m' e'" "scaled m' e' = scaled (round_shift m k) (e + int k)"
    using mk_finite_value by blast
  have "scaled m' e' - scaled m e = (real (round_shift m k) * 2 ^ k - real m) * 2 powi e"
    unfolding f(2) by (simp add: power_int_add power_int_of_nat algebra_simps)
  then have "\<bar>scaled m' e' - scaled m e\<bar> = \<bar>real (round_shift m k) * 2 ^ k - real m\<bar> * 2 powi e" by (simp add: abs_mult)
  also have "\<dots> * 2 ^ precision fmt \<le> (2 ^ k / 2) * 2 powi e * 2 ^ precision fmt"
    using err by (intro mult_right_mono) auto
  also have "\<dots> = ((2 ^ k / 2) * 2 ^ precision fmt) * 2 powi e" by simp
  also have "\<dots> \<le> scaled m e" using bound by (intro mult_right_mono) auto
  finally show ?thesis using r f(1) by auto
qed

section \<open>The clock\<close>

lemma strip_zeros_exp: "strip_zeros m e = (m', e') \<Longrightarrow> 0 < m \<Longrightarrow> e \<le> e' \<and> 0 < m'"
proof (induction m e arbitrary: m' e' rule: strip_zeros.induct)
  case (1 m e)
  from "1.prems" show ?case
    using "1.IH" [of m' e'] by (subst (asm) strip_zeros.simps) (auto split: if_splits elim!: evenE)
qed

lemma float_of_nat_value:
  assumes "0 < n" "n < 2 ^ 53"
  shows "\<exists>m e. float_of_nat binary64 n = Finite False m e \<and> scaled m e = real n \<and> 0 < m \<and> 0 \<le> e"
proof -
  have "float_of_nat binary64 n = mk_finite False n 0"
    using bit_len_le [OF assms(2)] by (simp add: float_of_nat_def binary64_def round_to_exact)
  moreover obtain m e where "strip_zeros n 0 = (m, e)" by force
  ultimately show ?thesis
    using strip_zeros_exp [of n 0 m e] strip_zeros_value [of n 0 m e] assms(1) by (simp add: mk_finite_def)
qed

lemma precision: "precision binary64 = 53"
  by (simp add: binary64_def)

lemma rate_bits: "bit_len 375 = 9"
  by (simp add: bit_len_step)

lemma rate_value: "float_of_nat binary64 48000 = Finite False 375 7"
  by (simp add: float_eval)

text \<open>The quotient before rounding.\<close>

lemma quotient_error:
  fixes m n :: nat
  assumes "0 < n"
  shows "\<bar>real (2 * (m * 2 ^ k div n) + (if m * 2 ^ k mod n = 0 then 0 else 1)) - 2 * real m * 2 ^ k / real n\<bar> \<le> 1"
proof -
  define q r where "q = m * 2 ^ k div n" and "r = m * 2 ^ k mod n"
  have eq: "m * 2 ^ k = q * n + r" unfolding q_def r_def by (rule div_mult_mod_eq [symmetric])
  have r: "r < n" using assms by (simp add: r_def)
  have "real m * 2 ^ k = real q * real n + real r" using arg_cong [OF eq, of real] by simp
  then have x: "2 * real m * 2 ^ k / real n = 2 * real q + 2 * real r / real n" using assms by (simp add: field_simps)
  define y where "y = 2 * real r / real n"
  have "0 \<le> y" "y < 2" "r = 0 \<Longrightarrow> y = 0" using r by (simp_all add: y_def field_simps)
  then show ?thesis unfolding x y_def [symmetric] q_def [symmetric] r_def [symmetric] by auto
qed

definition quotient :: "nat \<Rightarrow> nat" where
  "quotient m = 2 * (m * 2 ^ 64 div 375) + (if m * 2 ^ 64 mod 375 = 0 then 0 else 1)"

lemma quotient_bits:
  assumes "0 < m" "m < 2 ^ 32"
  shows "0 < quotient m" "56 < bit_len (quotient m)" "bit_len (quotient m) \<le> 100"
proof -
  have "1 * 2 ^ 64 div 375 \<le> m * 2 ^ 64 div 375" using assms(1) by (intro div_le_mono mult_le_mono) auto
  then have low: "2 ^ 56 < quotient m" by (simp add: quotient_def)
  have "m * 2 ^ 64 div 375 \<le> m * 2 ^ 64" by simp
  also have "\<dots> < 2 ^ 32 * 2 ^ 64" using assms(2) by simp
  finally have "quotient m < 2 ^ 100" by (simp add: quotient_def)
  then show "bit_len (quotient m) \<le> 100" by (rule bit_len_le)
  show "0 < quotient m" using low by simp
  have "(2 :: nat) ^ 56 < 2 ^ bit_len (quotient m)" using low bit_len_bounds [of "quotient m"] by simp
  from power_less_imp_less_exp [OF _ this] show "56 < bit_len (quotient m)" by simp
qed

lemma tiny_value: "(2 :: real) powi (- 40) = 1 / 1099511627776"
  by (simp add: power_int_minus)

lemma quotient_near:
  assumes "e < 32"
  shows "\<bar>scaled (quotient m) (e - 72) - scaled m e / 48000\<bar> \<le> 1 / 1099511627776"
proof -
  let ?x = "2 * real m * 2 ^ 64 / real 375"
  have exact: "scaled m e / 48000 = ?x * 2 powi (e - 72)" by (simp add: power_int_diff)
  have "\<bar>real (quotient m) - ?x\<bar> \<le> 1" unfolding quotient_def by (rule quotient_error) simp
  then have bound: "\<bar>real (quotient m) - ?x\<bar> * 2 powi (e - 72) \<le> 1 * 2 powi (e - 72)"
    by (intro mult_right_mono) auto
  have tiny: "(2 :: real) powi (e - 72) \<le> 2 powi (-40)" using assms by (intro power_int_increasing) auto
  have "scaled (quotient m) (e - 72) - scaled m e / 48000 = (real (quotient m) - ?x) * 2 powi (e - 72)"
    unfolding exact by (rule left_diff_distrib [symmetric])
  then have "\<bar>scaled (quotient m) (e - 72) - scaled m e / 48000\<bar> = \<bar>real (quotient m) - ?x\<bar> * 2 powi (e - 72)"
    by (simp only: abs_mult) simp
  also have "\<dots> \<le> 2 powi (-40)" by (rule order_trans [OF bound]) (simp only: mult_1 tiny)
  finally show ?thesis unfolding tiny_value .
qed

lemma float_of_ticks:
  assumes "0 < n" "n < 2 ^ 32"
  shows "\<exists>m e. float_of_nat binary64 n = Finite False m e \<and> scaled m e = real n \<and> 0 < m \<and> m < 2 ^ 32 \<and> 0 \<le> e \<and> e < 32"
proof -
  obtain m e where me: "float_of_nat binary64 n = Finite False m e" "scaled m e = real n" "0 < m" "0 \<le> e"
    using float_of_nat_value [of n] assms by auto
  have "real n = real (m * 2 ^ nat e)" using me(2,4) by (simp add: power_int_def)
  then have n: "n = m * 2 ^ nat e" by (rule of_nat_eq_iff [THEN iffD1])
  have "1 * 2 ^ nat e \<le> n" "m * 1 \<le> n" unfolding n using me(3) by (intro mult_le_mono; simp)+
  then have small: "m < 2 ^ 32" "(2 :: nat) ^ nat e < 2 ^ 32" using assms(2) by simp_all
  have "nat e < 32" by (rule power_less_imp_less_exp [OF _ small(2)]) simp
  with me small show ?thesis by auto
qed

lemma quotient_value:
  assumes "0 < n" "n < 2 ^ 32"
  shows "\<exists>m e. fdiv binary64 (float_of_nat binary64 n) (float_of_nat binary64 48000) = Finite False m e \<and>
    \<bar>scaled m e - real n / 48000\<bar> < 1 / 10 ^ 10"
proof -
  obtain m e where me: "float_of_nat binary64 n = Finite False m e" "scaled m e = real n" "0 < m" "m < 2 ^ 32" "0 \<le> e" "e < 32"
    using float_of_ticks [OF assms] by blast
  note Q = quotient_bits [OF me(3,4)]
  have div: "fdiv binary64 (float_of_nat binary64 n) (float_of_nat binary64 48000) = round_to binary64 False (quotient m) (e - 72)"
    unfolding me rate_value by (simp add: quotient_def precision rate_bits)
  define V where "V = scaled (quotient m) (e - 72)"
  obtain m' e' where r: "round_to binary64 False (quotient m) (e - 72) = Finite False m' e'" "\<bar>scaled m' e' - V\<bar> * 2 ^ 53 \<le> V"
    using round_to_value [of "quotient m" binary64 "e - 72" False] Q me(5,6) by (auto simp: binary64_def V_def)
  have V_near: "V - real n / 48000 \<le> 1 / 1099511627776" "real n / 48000 - V \<le> 1 / 1099511627776"
    using quotient_near [OF me(6), of m] unfolding me(2) V_def [symmetric] by (simp_all only: abs_le_iff) simp
  have "real n / 48000 < 89479" using assms(2) by simp
  with V_near have small: "V < 89480" by simp
  define v where "v = scaled m' e'"
  have "\<bar>v - V\<bar> \<le> V / 2 ^ 53" using r(2) unfolding v_def by (simp only: pos_le_divide_eq zero_less_power zero_less_numeral)
  then have "v - V \<le> 89480 / 2 ^ 53" "V - v \<le> 89480 / 2 ^ 53" using small by (simp_all only: abs_le_iff) simp_all
  with V_near have "v - real n / 48000 < 1 / 10 ^ 10" "real n / 48000 - v < 1 / 10 ^ 10" by simp_all
  then show ?thesis unfolding div r(1) v_def by (simp only: abs_less_iff fval.inject) simp
qed

lemma playback_delay_error:
  "\<exists>d. playback_delay base timestamp = Some d \<and> \<bar>48 * int d - 10 ^ 6 * int (unat (timestamp - base))\<bar> < 48"
proof -
  define n where "n = unat (timestamp - base)"
  have n: "n < 2 ^ 32" unfolding n_def using unsigned_less [of "timestamp - base"] by simp
  show ?thesis
  proof (cases "n = 0")
    case True
    have "fdiv binary64 (float_of_nat binary64 0) (float_of_nat binary64 48000) = Finite False 0 0"
      unfolding rate_value by (simp add: float_eval)
    then have "playback_delay base timestamp = Some 0"
      using True by (simp add: playback_delay_def n_def [symmetric] round_shift_def)
    then show ?thesis using True by (simp add: n_def)
  next
    case False
    then obtain m e where q: "fdiv binary64 (float_of_nat binary64 n) (float_of_nat binary64 48000) = Finite False m e"
        "\<bar>scaled m e - real n / 48000\<bar> < 1 / 10 ^ 10"
      using quotient_value [of n] n by auto
    have "real n / 48000 < 89479" using n by simp
    moreover have "scaled m e < real n / 48000 + 1 / 10 ^ 10" using q(2) by (simp only: abs_less_iff) simp
    ultimately have "scaled m e < 2 ^ 60" by simp
    then obtain T where T: "f64_to_nanos (Finite False m e) = Some T" "\<bar>real T - scaled m e * 10 ^ 9\<bar> \<le> 1 / 2"
      using f64_to_nanos_value by blast
    define x where "x = scaled m e"
    have near: "real T - x * 10 ^ 9 \<le> 1 / 2" "x * 10 ^ 9 - real T \<le> 1 / 2" "x - real n / 48000 < 1 / 10 ^ 10" "real n / 48000 - x < 1 / 10 ^ 10"
      using T(2) q(2) unfolding x_def [symmetric] by (simp_all only: abs_le_iff abs_less_iff) simp_all
    have "48 * real T - 10 ^ 6 * real n < 48" "10 ^ 6 * real n - 48 * real T < 48"
      using near by (simp_all add: field_simps)
    then have "\<bar>48 * real T - 10 ^ 6 * real n\<bar> < 48" by (simp only: abs_less_iff) simp
    then have "\<bar>48 * int T - 10 ^ 6 * int n\<bar> < 48"
      by (metis (mono_tags, opaque_lifting) of_int_abs of_int_diff of_int_less_iff of_int_mult of_int_numeral of_int_of_nat_eq of_int_power)
    then show ?thesis using q(1) T(1) by (simp add: playback_delay_def n_def)
  qed
qed

text \<open>
  Property C26. The clock of the audio sender is right: for any two timestamps, also across their wrap-around, the
  delay exists (no panic) and is the timestamp's distance at 48 kHz in nanoseconds up to less than
  one nanosecond, whatever the binary floating point does; a packet with the first timestamp is not delayed.
\<close>

theorem audio_clock_exact:
  "\<exists>d. playback_delay base timestamp = Some d \<and> \<bar>48 * int d - 10 ^ 6 * int (unat (timestamp - base))\<bar> < 48 \<and>
    playback_delay base base = Some 0"
proof -
  obtain d where "playback_delay base base = Some d" "\<bar>48 * int d\<bar> < 48"
    using playback_delay_error [of base base] by auto
  then have "playback_delay base base = Some 0" by simp
  with playback_delay_error show ?thesis by blast
qed

end
