(* ===== verification/Audio_Sender.thy ===== *)
theory Audio_Sender
  imports Audio_Clock "HOL-Library.Sublist"
begin

text \<open>
  \<open>src/src/audio/transmit/service.rs\<close>: the audio sender. Its owner plays, pauses and shuts it down; the
  pipeline's callback puts RTP packets into a queue of eight, a task parses, paces and writes them to the
  track, and a thread watches the pipeline's bus. The three workers run beside the owner: what they
  do between two of its accesses is a list of actions. The pipeline, the RTP parser and the file
  system answer from outside.
\<close>

section \<open>Sources\<close>

datatype audio_source = AudioFile string | AudioUrl string

fun source_kind :: "audio_source \<Rightarrow> string" where
  "source_kind (AudioFile _) = ''file''"
| "source_kind (AudioUrl _) = ''url''"

text \<open>\<open>char::is_control\<close> on UTF-8: U+0000 to U+001F, U+007F and U+0080 to U+009F.\<close>

fun has_control :: "string \<Rightarrow> bool" where
  "has_control [] = False"
| "has_control (c # cs) =
     ((of_char c :: nat) < 0x20 \<or> (of_char c :: nat) = 0x7F \<or>
      ((of_char c :: nat) = 0xC2 \<and> (case cs of [] \<Rightarrow> False | d # _ \<Rightarrow> 0x80 \<le> (of_char d :: nat) \<and> (of_char d :: nat) < 0xA0)) \<or>
      has_control cs)"

record file_system =
  fs_canonicalize :: "string \<Rightarrow> string option"
  fs_is_file :: "string \<Rightarrow> bool"
  fs_filename_to_uri :: "string \<Rightarrow> string option"
  fs_source_handler :: "string \<Rightarrow> bool" \<comment> \<open>an installed element handles the URI\<close>

definition to_uri :: "file_system \<Rightarrow> audio_source \<Rightarrow> string + string" where
  "to_uri F source =
     and_then
       (case source of
          AudioFile path \<Rightarrow>
            (case fs_canonicalize F path of
               None \<Rightarrow> Inl ''Failed to resolve audio file path''
             | Some p \<Rightarrow>
                 if \<not> fs_is_file F p then Inl ''Audio source must be a file''
                 else (case fs_filename_to_uri F p of None \<Rightarrow> Inl ''Failed to construct audio file URI'' | Some uri \<Rightarrow> Inr uri))
        | AudioUrl url \<Rightarrow> if has_control url then Inl ''Audio URL contains control characters'' else Inr url)
       (\<lambda>uri. if fs_source_handler F uri then Inr uri else Inl ''Unsupported or invalid audio source URI'')"

section \<open>State\<close>

datatype gst_state = GstNull | GstPlaying | GstPaused

text \<open>Where a worker is between its waits. The task waits for a packet, for its moment, or for the track; the bus
  thread is before its loop test, in \<open>timed_pop\<close>, or in the handling of an error before its
  store of \<open>is_playing\<close>, its store of \<open>bus_running\<close>, the abort and the stop of the pipeline.\<close>

datatype join_outcome = JoinOk | JoinCancelled | JoinPanicked

datatype 'p task_stage = TaskRecv | TaskSleeping 'p instant | TaskWriting 'p | TaskDone join_outcome

fun task_alive :: "'p task_stage \<Rightarrow> bool" where
  "task_alive (TaskDone _) = False"
| "task_alive _ = True"

datatype bus_stage = BusTest | BusPop | BusFailing nat | BusDone join_outcome

record 'p audio_sender =
  as_source :: audio_source
  as_is_playing :: bool
  as_bus_running :: bool
  as_packet_count :: u64
  as_task_handle :: bool
  as_bus_handle :: bool
  as_rtp_tx :: bool
  as_native_shutdown :: bool
  as_pipeline :: gst_state
  as_queue :: "bytes list"
  as_sink_tx :: bool \<comment> \<open>the callback, with its sender, is still installed\<close>
  as_sampling :: bool \<comment> \<open>the callback has passed its test\<close>
  as_queue_drops :: repeat_log
  as_task :: "'p task_stage"
  as_abort :: bool
  as_parse_errors :: repeat_log
  as_send_errors :: repeat_log
  as_first_timestamp :: "u32 option"
  as_playback_start :: "instant option"
  as_bus :: bus_stage
  as_warnings :: repeat_log
  as_accepted :: "bytes list" \<comment> \<open>history: packets the queue took\<close>
  as_consumed :: "bytes list" \<comment> \<open>history: packets the task received\<close>
  as_written :: "'p list" \<comment> \<open>history: packets the track took\<close>

definition audio_sender_new :: "audio_source \<Rightarrow> bool \<Rightarrow> 'p audio_sender" where
  "audio_sender_new source has_bus =
     \<lparr>as_source = source, as_is_playing = False, as_bus_running = True, as_packet_count = 0, as_task_handle = True,
      as_bus_handle = has_bus, as_rtp_tx = True, as_native_shutdown = False, as_pipeline = GstNull, as_queue = [], as_sink_tx = True, as_sampling = False,
      as_queue_drops = repeat_log_new ''audio_rtp_queue_drop'' ''full'', as_task = TaskRecv, as_abort = False,
      as_parse_errors = repeat_log_new ''audio_rtp_parse_error'' ''invalid_packet'',
      as_send_errors = repeat_log_new ''audio_rtp_send_error'' ''track_write_failed'',
      as_first_timestamp = None, as_playback_start = None, as_bus = (if has_bus then BusTest else BusDone JoinOk),
      as_warnings = repeat_log_new ''audio_sender_gst_warning'' ''pipeline_warning'',
      as_accepted = [], as_consumed = [], as_written = []\<rparr>"

definition audio_new :: "file_system \<Rightarrow> string + bool \<Rightarrow> string + unit \<Rightarrow> audio_source \<Rightarrow> string + 'p audio_sender" where
  "audio_new F pipeline gst_init source =
     and_then gst_init (\<lambda>_. and_then (to_uri F source) (\<lambda>uri. and_then pipeline (\<lambda>has_bus. Inr (audio_sender_new source has_bus))))"

section \<open>The callback of the pipeline\<close>

definition sample_check :: "'p audio_sender \<Rightarrow> 'p audio_sender" where
  "sample_check s = s\<lparr>as_sampling := as_sink_tx s \<and> as_is_playing s\<rparr>"

text \<open>The rest of the callback, with the pulled and mapped sample if there is one; the flag is the flow result.\<close>

definition sample_send :: "instant \<Rightarrow> bytes option \<Rightarrow> 'p audio_sender \<Rightarrow> bool \<times> 'p audio_sender" where
  "sample_send now sample s =
     (if \<not> as_sampling s then (True, s)
      else let s1 = s\<lparr>as_sampling := False\<rparr> in
        case sample of
          None \<Rightarrow> (False, s1)
        | Some rtp_data \<Rightarrow>
            (case channel_try_send 8 (task_alive (as_task s)) (as_queue s) rtp_data of
               (None, q) \<Rightarrow> (True, s1\<lparr>as_queue := q, as_accepted := as_accepted s @ [rtp_data]\<rparr>)
             | (Some True, _) \<Rightarrow> (True, s1\<lparr>as_queue_drops := snd (rl_record now (as_queue_drops s))\<rparr>)
             | (Some False, _) \<Rightarrow> (False, s1)))"

section \<open>The sending task\<close>

record 'p rtp_codec =
  rc_unmarshal :: "bytes \<Rightarrow> 'p option"
  rc_timestamp :: "'p \<Rightarrow> u32"

definition task_end :: "join_outcome \<Rightarrow> 'p audio_sender \<Rightarrow> 'p audio_sender" where
  "task_end r s = s\<lparr>as_task := TaskDone r, as_queue := []\<rparr>"

definition task_recv :: "'p rtp_codec \<Rightarrow> instant \<Rightarrow> 'p audio_sender \<Rightarrow> 'p audio_sender" where
  "task_recv C now s =
     (case (as_task s, as_queue s) of
        (TaskRecv, rtp_data # rest) \<Rightarrow>
          let s1 = s\<lparr>as_queue := rest, as_consumed := as_consumed s @ [rtp_data]\<rparr> in
          (case rc_unmarshal C rtp_data of
             None \<Rightarrow> s1\<lparr>as_parse_errors := snd (rl_record now (as_parse_errors s))\<rparr>
           | Some packet \<Rightarrow>
               (case (as_first_timestamp s, as_playback_start s) of
                  (None, None) \<Rightarrow>
                    s1\<lparr>as_first_timestamp := Some (rc_timestamp C packet), as_playback_start := Some now, as_task := TaskWriting packet\<rparr>
                | (Some base, Some start) \<Rightarrow>
                    (case playback_delay base (rc_timestamp C packet) of
                       None \<Rightarrow> task_end JoinPanicked s1
                     | Some delay \<Rightarrow> s1\<lparr>as_task := TaskSleeping packet (start + delay)\<rparr>)
                | _ \<Rightarrow> s1\<lparr>as_task := TaskWriting packet\<rparr>))
      | (TaskRecv, []) \<Rightarrow> if as_rtp_tx s \<or> as_sink_tx s then s else task_end JoinOk s
      | _ \<Rightarrow> s)"

definition task_wake :: "instant \<Rightarrow> 'p audio_sender \<Rightarrow> 'p audio_sender" where
  "task_wake now s =
     (case as_task s of
        TaskSleeping packet target \<Rightarrow> if target \<le> now then s\<lparr>as_task := TaskWriting packet\<rparr> else s
      | _ \<Rightarrow> s)"

definition task_write :: "instant \<Rightarrow> bool \<Rightarrow> 'p audio_sender \<Rightarrow> 'p audio_sender" where
  "task_write now ok s =
     (case as_task s of
        TaskWriting packet \<Rightarrow>
          let s1 = s\<lparr>as_task := TaskRecv\<rparr> in
          if ok then s1\<lparr>as_packet_count := as_packet_count s + 1, as_written := as_written s @ [packet]\<rparr>
          else s1\<lparr>as_send_errors := snd (rl_record now (as_send_errors s))\<rparr>
      | _ \<Rightarrow> s)"

text \<open>An aborted task ends at one of its waits.\<close>

definition task_cancel :: "'p audio_sender \<Rightarrow> 'p audio_sender" where
  "task_cancel s = (if as_abort s \<and> task_alive (as_task s) then task_end JoinCancelled s else s)"

section \<open>The bus thread\<close>

datatype bus_event = BusEventError | BusEventWarning | BusEventEos | BusEventOther

definition bus_test :: "'p audio_sender \<Rightarrow> 'p audio_sender" where
  "bus_test s = (if as_bus s = BusTest then s\<lparr>as_bus := if as_bus_running s then BusPop else BusDone JoinOk\<rparr> else s)"

definition bus_pop :: "instant \<Rightarrow> bus_event option \<Rightarrow> 'p audio_sender \<Rightarrow> 'p audio_sender" where
  "bus_pop now message s =
     (if as_bus s \<noteq> BusPop then s
      else case message of
        Some BusEventError \<Rightarrow> s\<lparr>as_bus := BusFailing 0\<rparr>
      | Some BusEventWarning \<Rightarrow> s\<lparr>as_bus := BusTest, as_warnings := snd (rl_record now (as_warnings s))\<rparr>
      | Some BusEventEos \<Rightarrow> s\<lparr>as_bus := BusDone JoinOk\<rparr>
      | Some BusEventOther \<Rightarrow> s\<lparr>as_bus := BusTest\<rparr>
      | None \<Rightarrow> s\<lparr>as_bus := BusTest\<rparr>)"

definition bus_fail :: "bool \<Rightarrow> 'p audio_sender \<Rightarrow> 'p audio_sender" where
  "bus_fail stopped s =
     (case as_bus s of
        BusFailing n \<Rightarrow>
          if n = 0 then s\<lparr>as_is_playing := False, as_bus := BusFailing 1\<rparr>
          else if n = 1 then s\<lparr>as_bus_running := False, as_bus := BusFailing 2\<rparr>
          else if n = 2 then s\<lparr>as_abort := True, as_bus := BusFailing 3\<rparr>
          else (if stopped then s\<lparr>as_pipeline := GstNull\<rparr> else s)\<lparr>as_bus := BusDone JoinOk\<rparr>
      | _ \<Rightarrow> s)"

section \<open>The workers beside the owner\<close>

datatype worker =
  Sample_Check | Sample_Send instant "bytes option" | Sink_Gone
| Task_Recv instant | Task_Wake instant | Task_Write instant bool | Task_Cancel
| Bus_Test | Bus_Pop instant "bus_event option" | Bus_Fail bool

fun worker_step :: "'p rtp_codec \<Rightarrow> worker \<Rightarrow> 'p audio_sender \<Rightarrow> 'p audio_sender" where
  "worker_step C Sample_Check s = sample_check s"
| "worker_step C (Sample_Send now sample) s = snd (sample_send now sample s)"
| "worker_step C Sink_Gone s = s\<lparr>as_sink_tx := False, as_sampling := False\<rparr>"
| "worker_step C (Task_Recv now) s = task_recv C now s"
| "worker_step C (Task_Wake now) s = task_wake now s"
| "worker_step C (Task_Write now ok) s = task_write now ok s"
| "worker_step C Task_Cancel s = task_cancel s"
| "worker_step C Bus_Test s = bus_test s"
| "worker_step C (Bus_Pop now message) s = bus_pop now message s"
| "worker_step C (Bus_Fail stopped) s = bus_fail stopped s"

definition workers :: "'p rtp_codec \<Rightarrow> worker list \<Rightarrow> 'p audio_sender \<Rightarrow> 'p audio_sender" where
  "workers C ws s = fold (worker_step C) ws s"

section \<open>The owner\<close>

text \<open>\<open>play\<close>, with what the workers do before its store, before the pipeline's answer and before the last test.\<close>

definition play :: "'p rtp_codec \<Rightarrow> bool \<Rightarrow> worker list \<Rightarrow> worker list \<Rightarrow> worker list \<Rightarrow> 'p audio_sender \<Rightarrow> (string + unit) \<times> 'p audio_sender" where
  "play C ok w0 w1 w2 s =
     (if \<not> as_bus_running s then (Inl ''Audio sender has stopped'', s)
      else
        let s1 = workers C w1 ((workers C w0 s)\<lparr>as_is_playing := True\<rparr>) in
        if \<not> ok then (Inl ''Failed to set audio pipeline to Playing state'', s1\<lparr>as_is_playing := False\<rparr>)
        else
          let s2 = workers C w2 (s1\<lparr>as_pipeline := GstPlaying\<rparr>) in
          if \<not> as_bus_running s2 then (Inl ''Audio sender failed during playback startup'', s2) else (Inr (), s2))"

definition pause :: "'p rtp_codec \<Rightarrow> (string + unit) \<Rightarrow> worker list \<Rightarrow> 'p audio_sender \<Rightarrow> (string + unit) \<times> 'p audio_sender" where
  "pause C paused w s =
     (case paused of
        Inl e \<Rightarrow> (Inl (''Failed to pause pipeline: '' @ e), s)
      | Inr _ \<Rightarrow> (Inr (), (workers C w (s\<lparr>as_pipeline := GstPaused\<rparr>))\<lparr>as_is_playing := False\<rparr>))"

text \<open>The native part to be stopped: \<open>Some\<close> with whether there is a bus thread to join.\<close>

definition take_native_shutdown :: "'p audio_sender \<Rightarrow> bool option \<times> 'p audio_sender" where
  "take_native_shutdown s =
     (let s1 = s\<lparr>as_is_playing := False, as_bus_running := False, as_rtp_tx := False, as_abort := as_abort s \<or> as_task_handle s\<rparr> in
      if as_native_shutdown s then (None, s1)
      else (Some (as_bus_handle s), s1\<lparr>as_native_shutdown := True, as_bus_handle := False\<rparr>))"

text \<open>\<open>join_audio_bus\<close>: \<open>None\<close> while the thread has not ended.\<close>

definition join_audio_bus :: "string + unit \<Rightarrow> bool \<Rightarrow> 'p audio_sender \<Rightarrow> (string + unit) option" where
  "join_audio_bus pipeline_result handle s =
     (case (if handle then (case as_bus s of BusDone r \<Rightarrow> Some (if r = JoinPanicked then Inl ''Audio bus worker failed'' else Inr ()) | _ \<Rightarrow> None)
            else Some (Inr ())) of
        None \<Rightarrow> None
      | Some bus_result \<Rightarrow> Some (and_then pipeline_result (\<lambda>_. bus_result)))"

definition native_stop ::
  "'p rtp_codec \<Rightarrow> bool \<Rightarrow> worker list \<Rightarrow> bool \<Rightarrow> 'p audio_sender \<Rightarrow> (string + unit) option \<times> 'p audio_sender" where
  "native_stop C stopped w handle s =
     (let s1 = workers C w (if stopped then s\<lparr>as_pipeline := GstNull\<rparr> else s)
      in (join_audio_bus (if stopped then Inr () else Inl ''Failed to stop audio pipeline'') handle s1, s1))"

definition audio_stop :: "'p rtp_codec \<Rightarrow> bool \<Rightarrow> worker list \<Rightarrow> 'p audio_sender \<Rightarrow> (string + unit) option \<times> 'p audio_sender" where
  "audio_stop C stopped w s =
     (case take_native_shutdown s of
        (None, s1) \<Rightarrow> (Some (Inr ()), s1)
      | (Some handle, s1) \<Rightarrow> native_stop C stopped w handle s1)"

text \<open>\<open>complete_audio_shutdown\<close>: the native part on a blocking worker (which can itself fail), then the task.\<close>

definition complete_audio_shutdown ::
  "'p rtp_codec \<Rightarrow> bool \<Rightarrow> bool \<Rightarrow> worker list \<Rightarrow> worker list \<Rightarrow> bool option \<Rightarrow> bool \<Rightarrow> 'p audio_sender \<Rightarrow> (string + unit) option \<times> 'p audio_sender" where
  "complete_audio_shutdown C cleanup stopped w0 w1 native task s =
     (case (case native of
              None \<Rightarrow> (Some (Inr ()), s)
            | Some handle \<Rightarrow>
                if cleanup then native_stop C stopped w0 handle s
                else (Some (Inl ''Audio cleanup worker failed''), workers C w0 s)) of
        (None, s1) \<Rightarrow> (None, s1)
      | (Some native_result, s1) \<Rightarrow>
          let s2 = workers C w1 s1 in
          if \<not> task then (Some native_result, s2)
          else (case as_task s2 of
                  TaskDone r \<Rightarrow> (Some (and_then native_result (\<lambda>_. if r = JoinPanicked then Inl ''Audio RTP worker failed'' else Inr ())), s2)
                | _ \<Rightarrow> (None, s2)))"

definition audio_shutdown ::
  "'p rtp_codec \<Rightarrow> bool \<Rightarrow> bool \<Rightarrow> worker list \<Rightarrow> worker list \<Rightarrow> 'p audio_sender \<Rightarrow> (string + unit) option \<times> 'p audio_sender" where
  "audio_shutdown C cleanup stopped w0 w1 s =
     (case take_native_shutdown s of
        (native, s1) \<Rightarrow> complete_audio_shutdown C cleanup stopped w0 w1 native (as_task_handle s1) (s1\<lparr>as_task_handle := False\<rparr>))"

definition audio_drop ::
  "'p rtp_codec \<Rightarrow> bool \<Rightarrow> bool \<Rightarrow> bool \<Rightarrow> worker list \<Rightarrow> worker list \<Rightarrow> 'p audio_sender \<Rightarrow> 'p audio_sender" where
  "audio_drop C runtime cleanup stopped w0 w1 s =
     (case take_native_shutdown s of
        (native, s1) \<Rightarrow>
          let task = as_task_handle s1; s2 = s1\<lparr>as_task_handle := False\<rparr> in
          if native = None \<and> \<not> task then s2
          else if runtime then snd (complete_audio_shutdown C cleanup stopped w0 w1 native task s2)
          else (case native of None \<Rightarrow> s2 | Some handle \<Rightarrow> snd (native_stop C stopped w0 handle s2)))"

section \<open>Runs\<close>

inductive audio_reachable :: "'p rtp_codec \<Rightarrow> 'p audio_sender \<Rightarrow> bool" for C where
  new: "audio_reachable C (audio_sender_new source has_bus)"
| worker: "audio_reachable C s \<Longrightarrow> audio_reachable C (worker_step C w s)"
| play: "audio_reachable C s \<Longrightarrow> audio_reachable C (snd (play C ok w0 w1 w2 s))"
| pause: "audio_reachable C s \<Longrightarrow> audio_reachable C (snd (pause C paused w s))"
| stop: "audio_reachable C s \<Longrightarrow> audio_reachable C (snd (audio_stop C stopped w s))"
| shutdown: "audio_reachable C s \<Longrightarrow> audio_reachable C (snd (audio_shutdown C cleanup stopped w0 w1 s))"
| drop: "audio_reachable C s \<Longrightarrow> audio_reachable C (audio_drop C runtime cleanup stopped w0 w1 s)"

section \<open>Invariant\<close>

fun in_flight :: "'p task_stage \<Rightarrow> 'p list" where
  "in_flight (TaskSleeping packet _) = [packet]"
| "in_flight (TaskWriting packet) = [packet]"
| "in_flight _ = []"

definition audio_inv :: "'p rtp_codec \<Rightarrow> 'p audio_sender \<Rightarrow> bool" where
  "audio_inv C s \<longleftrightarrow>
     length (as_queue s) \<le> 8 \<and>
     (if task_alive (as_task s) then as_accepted s = as_consumed s @ as_queue s
      else as_queue s = [] \<and> prefix (as_consumed s) (as_accepted s)) \<and>
     subseq (as_written s @ in_flight (as_task s)) (List.map_filter (rc_unmarshal C) (as_consumed s)) \<and>
     as_packet_count s = of_nat (length (as_written s)) \<and>
     (as_first_timestamp s = None \<longleftrightarrow> as_playback_start s = None)"

text \<open>What the owner's calls set leaves the invariant alone.\<close>

lemma audio_inv_frame [simp]:
  "audio_inv C (s\<lparr>as_is_playing := b\<rparr>) = audio_inv C s" "audio_inv C (s\<lparr>as_bus_running := b\<rparr>) = audio_inv C s"
  "audio_inv C (s\<lparr>as_rtp_tx := b\<rparr>) = audio_inv C s" "audio_inv C (s\<lparr>as_abort := b\<rparr>) = audio_inv C s"
  "audio_inv C (s\<lparr>as_native_shutdown := b\<rparr>) = audio_inv C s" "audio_inv C (s\<lparr>as_bus_handle := b\<rparr>) = audio_inv C s"
  "audio_inv C (s\<lparr>as_task_handle := b\<rparr>) = audio_inv C s" "audio_inv C (s\<lparr>as_pipeline := p\<rparr>) = audio_inv C s"
  "audio_inv C (s\<lparr>as_bus := u\<rparr>) = audio_inv C s" "audio_inv C (s\<lparr>as_sink_tx := b\<rparr>) = audio_inv C s"
  "audio_inv C (s\<lparr>as_sampling := b\<rparr>) = audio_inv C s"
  "audio_inv C (s\<lparr>as_warnings := l\<rparr>) = audio_inv C s" "audio_inv C (s\<lparr>as_queue_drops := l\<rparr>) = audio_inv C s"
  "audio_inv C (s\<lparr>as_parse_errors := l\<rparr>) = audio_inv C s" "audio_inv C (s\<lparr>as_send_errors := l\<rparr>) = audio_inv C s"
  by (simp_all add: audio_inv_def)

lemma subseq_written: "subseq (xs @ ys) zs \<Longrightarrow> subseq xs zs"
  by (rule subseq_order.trans [OF subseq_rev_drop_many [OF subseq_order.refl]])

lemma audio_inv_end: "audio_inv C s \<Longrightarrow> audio_inv C (task_end r s)"
  by (auto simp: audio_inv_def task_end_def subseq_written split: if_splits)

lemma map_filter_snoc [simp]:
  "List.map_filter f (xs @ [x]) = List.map_filter f xs @ (case f x of None \<Rightarrow> [] | Some y \<Rightarrow> [y])"
  by (auto simp: List.map_filter_def split: option.splits)

lemma audio_inv_send: "audio_inv C s \<Longrightarrow> audio_inv C (snd (sample_send now sample s))"
  by (auto simp: audio_inv_def sample_send_def channel_try_send_def Let_def split: option.splits prod.splits bool.splits if_splits)

lemma audio_inv_recv:
  assumes "audio_inv C s"
  shows "audio_inv C (task_recv C now s)"
proof (cases "as_task s = TaskRecv \<and> as_queue s \<noteq> []")
  case True
  then obtain x rest where q: "as_task s = TaskRecv" "as_queue s = x # rest" by (cases "as_queue s") auto
  let ?s = "s\<lparr>as_queue := rest, as_consumed := as_consumed s @ [x]\<rparr>"
  have old: "subseq (as_written s) (List.map_filter (rc_unmarshal C) (as_consumed s))"
    using assms q by (simp add: audio_inv_def)
  have new: "audio_inv C ?s"
    using assms q subseq_rev_drop_many [OF old] by (auto simp: audio_inv_def intro: subseq_rev_drop_many)
  show ?thesis
  proof (cases "rc_unmarshal C x")
    case None
    then show ?thesis using new q by (simp add: task_recv_def Let_def)
  next
    case (Some p)
    have fly: "audio_inv C (?s\<lparr>as_task := t\<rparr>)" if "in_flight t = [p]" "task_alive t" for t
      using assms q that Some old by (auto simp: audio_inv_def)
    then have base: "audio_inv C (?s\<lparr>as_first_timestamp := Some b, as_playback_start := Some i, as_task := TaskWriting p\<rparr>)" for b i
      using fly [of "TaskWriting p"] by (simp add: audio_inv_def)
    consider (first) "as_first_timestamp s = None" "as_playback_start s = None"
      | (later) b i where "as_first_timestamp s = Some b" "as_playback_start s = Some i"
      using assms by (auto simp: audio_inv_def)
    then show ?thesis
    proof cases
      case first
      then show ?thesis using base by (simp add: task_recv_def q Some Let_def)
    next
      case later
      then show ?thesis
        using fly [of "TaskSleeping p (i + delay)" for delay] audio_inv_end [OF new, of JoinPanicked]
        by (simp add: task_recv_def q Some Let_def split: option.split)
    qed
  qed
next
  case False
  then show ?thesis using assms audio_inv_end [OF assms] by (auto simp: task_recv_def split: task_stage.splits list.splits)
qed

lemma audio_inv_write: "audio_inv C s \<Longrightarrow> audio_inv C (task_write now ok s)"
  by (cases "as_task s") (auto simp: task_write_def audio_inv_def Let_def dest: subseq_written)

lemma audio_inv_worker: "audio_inv C s \<Longrightarrow> audio_inv C (worker_step C w s)"
proof (cases w)
  case (Task_Wake now)
  then show "audio_inv C s \<Longrightarrow> ?thesis" by (auto simp: task_wake_def audio_inv_def split: task_stage.split)
next
  case (Bus_Pop now message)
  then show "audio_inv C s \<Longrightarrow> ?thesis" by (auto simp: bus_pop_def split: option.split bus_event.split)
next
  case (Bus_Fail stopped)
  then show "audio_inv C s \<Longrightarrow> ?thesis" by (auto simp: bus_fail_def split: bus_stage.split)
qed (auto simp: sample_check_def audio_inv_send audio_inv_recv audio_inv_write task_cancel_def audio_inv_end bus_test_def)

lemma workers_simps [simp]: "workers C [] s = s" "workers C (w # ws) s = workers C ws (worker_step C w s)"
  by (simp_all add: workers_def)

lemma workers_preserve: "P s \<Longrightarrow> (\<And>w s. P s \<Longrightarrow> P (worker_step C w s)) \<Longrightarrow> P (workers C ws s)"
  by (induction ws arbitrary: s) auto

lemma audio_inv_workers: "audio_inv C s \<Longrightarrow> audio_inv C (workers C ws s)"
  by (rule workers_preserve [where P = "audio_inv C"]) (simp_all add: audio_inv_worker)

text \<open>What workers and pipeline keep, the end of a shutdown keeps.\<close>

lemma native_stop_preserves:
  assumes "P s" "\<And>w s. P s \<Longrightarrow> P (worker_step C w s)" "\<And>s. P s \<Longrightarrow> P (s\<lparr>as_pipeline := GstNull\<rparr>)"
  shows "P (snd (native_stop C stopped w handle s))"
  using workers_preserve [where P = P, OF assms(1,2)] workers_preserve [where P = P, OF assms(3) [OF assms(1)] assms(2)]
  by (simp add: native_stop_def Let_def)

lemma complete_preserves:
  assumes "P s" "\<And>w s. P s \<Longrightarrow> P (worker_step C w s)" "\<And>s. P s \<Longrightarrow> P (s\<lparr>as_pipeline := GstNull\<rparr>)"
  shows "P (snd (complete_audio_shutdown C cleanup stopped w0 w1 native task s))"
proof -
  define first where "first = (case native of
      None \<Rightarrow> (Some (Inr ()), s)
    | Some handle \<Rightarrow> if cleanup then native_stop C stopped w0 handle s else (Some (Inl ''Audio cleanup worker failed''), workers C w0 s))"
  have "P (snd first)"
    using assms(1) native_stop_preserves [where P = P, OF assms] workers_preserve [where P = P, OF assms(1,2)]
    by (simp add: first_def split: option.split)
  then show ?thesis
    unfolding complete_audio_shutdown_def first_def [symmetric]
    using workers_preserve [where P = P and s = "snd first", OF _ assms(2)]
    by (cases first; cases "fst first") (auto simp: Let_def split: task_stage.split)
qed

text \<open>A property of the workers that the owner's stores do not touch holds in every run.\<close>

definition owner_stores :: "bool \<times> bool \<times> bool \<times> bool \<times> bool \<times> bool \<times> bool \<times> gst_state \<Rightarrow> 'p audio_sender \<Rightarrow> 'p audio_sender" where
  "owner_stores = (\<lambda>(playing, running, tx, abort, native, bus, task, pipeline) s.
     s\<lparr>as_is_playing := playing, as_bus_running := running, as_rtp_tx := tx, as_abort := abort, as_native_shutdown := native,
       as_bus_handle := bus, as_task_handle := task, as_pipeline := pipeline\<rparr>)"

lemma audio_reachable_preserves:
  assumes "audio_reachable C s" and new: "\<And>source has_bus. P (audio_sender_new source has_bus)"
    and step: "\<And>w s. P s \<Longrightarrow> P (worker_step C w s)" and owner: "\<And>x s. P s \<Longrightarrow> P (owner_stores x s)"
  shows "P s"
proof -
  have stores: "P (s\<lparr>as_is_playing := b\<rparr>)" "P (s\<lparr>as_pipeline := g\<rparr>)" "P (s\<lparr>as_task_handle := b\<rparr>)" if "P s" for s b g
    using owner [OF that, of "(b, as_bus_running s, as_rtp_tx s, as_abort s, as_native_shutdown s, as_bus_handle s, as_task_handle s, as_pipeline s)"]
      owner [OF that, of "(as_is_playing s, as_bus_running s, as_rtp_tx s, as_abort s, as_native_shutdown s, as_bus_handle s, as_task_handle s, g)"]
      owner [OF that, of "(as_is_playing s, as_bus_running s, as_rtp_tx s, as_abort s, as_native_shutdown s, as_bus_handle s, b, as_pipeline s)"]
    by (simp_all add: owner_stores_def)
  have take: "P (snd (take_native_shutdown s))" if "P s" for s
  proof -
    have "P (s\<lparr>as_is_playing := False, as_bus_running := False, as_rtp_tx := False, as_abort := as_abort s \<or> as_task_handle s\<rparr>)"
      using owner [OF that, of "(False, False, False, as_abort s \<or> as_task_handle s, as_native_shutdown s, as_bus_handle s, as_task_handle s, as_pipeline s)"]
      by (simp add: owner_stores_def)
    moreover have "P (s\<lparr>as_is_playing := False, as_bus_running := False, as_rtp_tx := False, as_abort := as_abort s \<or> as_task_handle s,
        as_native_shutdown := True, as_bus_handle := False\<rparr>)"
      using owner [OF that, of "(False, False, False, as_abort s \<or> as_task_handle s, True, False, as_task_handle s, as_pipeline s)"]
      by (simp add: owner_stores_def)
    ultimately show ?thesis by (simp add: take_native_shutdown_def Let_def)
  qed
  note run = workers_preserve [where P = P and C = C, OF _ step]
  note native = native_stop_preserves [where P = P and C = C, OF _ step stores(2)]
  note complete = complete_preserves [where P = P and C = C, OF stores(3) step stores(2)]
  from assms(1) show ?thesis
  proof (induction rule: audio_reachable.induct)
    case (play s ok w0 w1 w2)
    then show ?case by (simp add: play_def Let_def run stores)
  next
    case (pause s paused w)
    then show ?case by (auto simp: pause_def run stores split: sum.split)
  next
    case (stop s stopped w)
    then show ?case using take [of s] by (auto simp: audio_stop_def native split: prod.split option.split)
  next
    case (shutdown s cleanup stopped w0 w1)
    then show ?case using take [of s] by (auto simp: audio_shutdown_def complete split: prod.split)
  next
    case (drop s runtime cleanup stopped w0 w1)
    then show ?case
      using take [of s] by (auto simp: audio_drop_def Let_def complete native stores split: prod.split option.split)
  qed (simp_all add: new step)
qed

lemma audio_reachable_inv: "audio_reachable C s \<Longrightarrow> audio_inv C s"
  by (erule audio_reachable_preserves)
    (auto simp: audio_inv_worker owner_stores_def, simp add: audio_inv_def audio_sender_new_def List.map_filter_def)

text \<open>No worker panics: the task's only panic is that of its clock.\<close>

definition calm :: "'p audio_sender \<Rightarrow> bool" where
  "calm s \<longleftrightarrow> as_task s \<noteq> TaskDone JoinPanicked \<and> as_bus s \<noteq> BusDone JoinPanicked"

lemma calm_recv: "calm s \<Longrightarrow> calm (task_recv C now s)"
proof -
  have "\<not> playback_delay b t = None" for b t using playback_delay_error [of b t] by auto
  then show "calm s \<Longrightarrow> ?thesis"
    by (auto simp del: not_None_eq simp: calm_def task_recv_def Let_def task_end_def split: task_stage.splits list.splits option.splits)
qed

lemma calm_worker: "calm s \<Longrightarrow> calm (worker_step C w s)"
proof (cases w)
  case (Sample_Send now sample)
  then show "calm s \<Longrightarrow> ?thesis"
    by (auto simp: calm_def sample_send_def Let_def split: option.splits prod.splits bool.splits)
next
  case (Bus_Pop now message)
  then show "calm s \<Longrightarrow> ?thesis" by (auto simp: calm_def bus_pop_def split: option.splits bus_event.splits)
qed (auto simp: calm_recv, auto simp: calm_def sample_check_def task_wake_def task_write_def Let_def task_cancel_def task_end_def
    bus_test_def bus_fail_def split: task_stage.splits bus_stage.splits)

lemma calm_reachable: "audio_reachable C s \<Longrightarrow> calm s"
  by (erule audio_reachable_preserves) (auto simp: calm_worker, auto simp: calm_def owner_stores_def audio_sender_new_def)

section \<open>Properties\<close>

text \<open>
  Property C24. In every run of the audio sender at most eight packets are queued, the packets the task receives are the
  queue's, in order and none twice, the track gets a subsequence of them in the order of the
  pipeline - each at most once - and the packet counter is the number of packets written.
\<close>

theorem audio_sender_safe:
  assumes "audio_reachable C s"
  shows "length (as_queue s) \<le> 8 \<and> prefix (as_consumed s @ as_queue s) (as_accepted s) \<and>
    subseq (as_written s) (List.map_filter (rc_unmarshal C) (as_consumed s)) \<and>
    as_packet_count s = of_nat (length (as_written s))"
  using audio_reachable_inv [OF assms] subseq_written by (auto simp: audio_inv_def split: if_splits)

section \<open>Shutdown\<close>

text \<open>An ended task, and what its end rules out.\<close>

definition silent :: "'p audio_sender \<Rightarrow> 'p audio_sender \<Rightarrow> bool" where
  "silent s0 s \<longleftrightarrow> \<not> task_alive (as_task s) \<and> \<not> as_is_playing s \<and> \<not> as_bus_running s \<and> as_queue s = [] \<and>
     as_written s = as_written s0 \<and> as_accepted s = as_accepted s0 \<and> as_packet_count s = as_packet_count s0"

lemma silent_worker: "silent s0 s \<Longrightarrow> silent s0 (worker_step C w s)"
  by (cases w) (auto simp: silent_def sample_check_def sample_send_def channel_try_send_def task_recv_def task_wake_def task_write_def
      task_cancel_def bus_test_def bus_pop_def bus_fail_def Let_def split: task_stage.splits bus_stage.splits option.splits bus_event.splits list.splits)

definition halted :: "'p audio_sender \<Rightarrow> bool" where
  "halted s \<longleftrightarrow> \<not> as_is_playing s \<and> \<not> as_bus_running s"

lemma halted_worker: "halted s \<Longrightarrow> halted (worker_step C w s)"
  by (cases w) (auto simp: halted_def sample_check_def sample_send_def task_recv_def task_wake_def task_write_def task_end_def
      task_cancel_def bus_test_def bus_pop_def bus_fail_def Let_def
      split: task_stage.splits bus_stage.splits option.splits bus_event.splits list.splits prod.splits bool.splits)

lemma halted_pipeline [simp]: "halted (s\<lparr>as_pipeline := p\<rparr>) = halted s"
  by (simp add: halted_def)

lemma complete_joins:
  "complete_audio_shutdown C cleanup stopped w0 w1 native True s = (Some r, s') \<Longrightarrow> \<not> task_alive (as_task s')"
  by (auto simp: complete_audio_shutdown_def Let_def split: option.splits prod.splits task_stage.splits if_splits)

lemma shutdown_halts:
  assumes "audio_reachable C s" "as_task_handle s" "audio_shutdown C cleanup stopped w0 w1 s = (Some r, s')"
  shows "silent s' s'"
proof -
  have inv: "audio_inv C s'" using audio_reachable_inv [OF audio_reachable.shutdown [OF assms(1)]] assms(3) by (metis snd_conv)
  obtain native s1 where take: "take_native_shutdown s = (native, s1)" by force
  then have s1: "halted (s1\<lparr>as_task_handle := False\<rparr>)" "as_task_handle s1"
    using assms(2) by (auto simp: take_native_shutdown_def halted_def Let_def split: if_splits)
  have complete: "complete_audio_shutdown C cleanup stopped w0 w1 native True (s1\<lparr>as_task_handle := False\<rparr>) = (Some r, s')"
    using assms(3) take s1(2) by (simp add: audio_shutdown_def)
  have "halted s'"
    using complete_preserves [where P = halted and C = C, OF s1(1) halted_worker] complete by (metis halted_pipeline snd_conv)
  moreover have "\<not> task_alive (as_task s')" by (rule complete_joins [OF complete])
  ultimately show ?thesis using inv by (auto simp: silent_def halted_def audio_inv_def)
qed

text \<open>
  Property C22. A shutdown is final: once it has returned, with success or with an error, the task has ended, and
  whatever the workers still do, no packet is accepted or written any more, the queue stays empty
  and the sender neither plays nor can be played.
\<close>

theorem audio_shutdown_final:
  assumes "audio_reachable C s" "as_task_handle s" "audio_shutdown C cleanup stopped w0 w1 s = (Some r, s')"
  shows "let t = workers C ws s' in
    as_written t = as_written s' \<and> as_accepted t = as_accepted s' \<and> as_packet_count t = as_packet_count s' \<and> as_queue t = [] \<and>
    \<not> as_is_playing t \<and> fst (play C ok p0 p1 p2 t) = Inl ''Audio sender has stopped''"
  using workers_preserve [where P = "silent s'", OF shutdown_halts [OF assms] silent_worker, of C ws]
  by (simp add: silent_def Let_def play_def)

section \<open>A shutdown returns\<close>

text \<open>Six more steps of the bus thread, whatever it was doing, and one of the task.\<close>

definition bus_finish :: "worker list" where
  "bus_finish = [Bus_Fail True, Bus_Fail True, Bus_Fail True, Bus_Fail True, Bus_Pop 0 None, Bus_Test]"

lemma workers_append [simp]: "workers C (v @ w) s = workers C w (workers C v s)"
  by (simp add: workers_def)

lemma bus_fail_stage:
  "as_bus (bus_fail b s) = (case as_bus s of BusFailing n \<Rightarrow> if n < 3 then BusFailing (Suc n) else BusDone JoinOk | x \<Rightarrow> x)"
  "\<not> as_bus_running s \<Longrightarrow> \<not> as_bus_running (bus_fail b s)"
  by (auto simp: bus_fail_def numeral_2_eq_2 numeral_3_eq_3 less_Suc_eq split: bus_stage.split)

lemma bus_pop_stage:
  "as_bus (bus_pop now None s) = (if as_bus s = BusPop then BusTest else as_bus s)" "as_bus_running (bus_pop now None s) = as_bus_running s"
  by (simp_all add: bus_pop_def)

lemma bus_finishes:
  assumes "\<not> as_bus_running s"
  shows "as_bus (workers C bus_finish s) = BusDone (case as_bus s of BusDone r \<Rightarrow> r | _ \<Rightarrow> JoinOk)"
proof -
  let ?t = "bus_fail True (bus_fail True (bus_fail True (bus_fail True s)))"
  have run: "\<not> as_bus_running ?t" using assms by (intro bus_fail_stage(2))
  have "as_bus ?t = (case as_bus s of BusFailing n \<Rightarrow> BusDone JoinOk | x \<Rightarrow> x)"
    by (cases "as_bus s") (simp_all add: bus_fail_stage(1))
  moreover have "as_bus (workers C bus_finish s) = as_bus (bus_test (bus_pop 0 None ?t))" by (simp add: bus_finish_def)
  ultimately show ?thesis
    using run by (cases "as_bus s") (simp_all add: bus_test_def bus_pop_stage)
qed

definition stopping :: "'p audio_sender \<Rightarrow> bool" where
  "stopping s \<longleftrightarrow> halted s \<and> as_abort s \<and> calm s"

lemma abort_worker: "as_abort s \<Longrightarrow> as_abort (worker_step C w s)"
  by (cases w) (auto simp: sample_check_def sample_send_def task_recv_def task_wake_def task_write_def task_end_def task_cancel_def
      bus_test_def bus_pop_def bus_fail_def Let_def
      split: task_stage.splits bus_stage.splits option.splits bus_event.splits list.splits prod.splits bool.splits)

lemma stopping_workers: "stopping s \<Longrightarrow> stopping (workers C ws s)"
  by (rule workers_preserve [where P = stopping]) (auto simp: stopping_def halted_worker abort_worker calm_worker)

lemma stopping_take:
  assumes "calm s" "as_task_handle s" "take_native_shutdown s = (native, s1)"
  shows "stopping (s1\<lparr>as_task_handle := b, as_pipeline := p\<rparr>)" "stopping (s1\<lparr>as_task_handle := b\<rparr>)" "as_task_handle s1"
    "native = None \<longleftrightarrow> as_native_shutdown s"
  using assms by (auto simp: take_native_shutdown_def Let_def stopping_def halted_def calm_def split: if_splits)

lemma native_stop_returns:
  assumes "stopping s" "stopping (s\<lparr>as_pipeline := GstNull\<rparr>)"
  shows "\<exists>s'. native_stop C stopped (v @ bus_finish) handle s =
    (Some (if stopped then Inr () else Inl ''Failed to stop audio pipeline''), s') \<and> stopping s'"
proof -
  let ?s = "workers C v (if stopped then s\<lparr>as_pipeline := GstNull\<rparr> else s)"
  have s: "stopping ?s" using assms by (simp add: stopping_workers)
  then have "as_bus (workers C bus_finish ?s) = BusDone (case as_bus ?s of BusDone r \<Rightarrow> r | _ \<Rightarrow> JoinOk)"
    by (intro bus_finishes) (simp add: stopping_def halted_def)
  moreover have "(case as_bus ?s of BusDone r \<Rightarrow> r | _ \<Rightarrow> JoinOk) \<noteq> JoinPanicked"
    using s by (auto simp: stopping_def calm_def split: bus_stage.split)
  ultimately show ?thesis
    using stopping_workers [OF s, of C bus_finish] by (auto simp: native_stop_def Let_def join_audio_bus_def)
qed

lemma task_cancelled:
  assumes "stopping s"
  shows "\<exists>r. as_task (workers C (v @ [Task_Cancel]) s) = TaskDone r \<and> r \<noteq> JoinPanicked"
proof -
  have s: "stopping (workers C v s)" by (rule stopping_workers [OF assms])
  then show ?thesis
    by (cases "as_task (workers C v s)") (auto simp: task_cancel_def task_end_def stopping_def calm_def)
qed

text \<open>
  Property C23. A shutdown returns: from every state of every run, whatever the workers have done since it started,
  six more steps of the bus thread and the cancellation of the task let it return, and its result is
  an error exactly if the cleanup worker or the stop of the pipeline failed - the workers themselves
  cannot panic. A pipeline that cannot be stopped does not keep the bus thread from being joined.
\<close>

theorem audio_shutdown_returns:
  assumes "audio_reachable C s" "as_task_handle s"
  shows "\<exists>s'. audio_shutdown C cleanup stopped (v0 @ bus_finish) (v1 @ [Task_Cancel]) s =
    (Some (if as_native_shutdown s then Inr ()
           else if \<not> cleanup then Inl ''Audio cleanup worker failed''
           else if \<not> stopped then Inl ''Failed to stop audio pipeline'' else Inr ()), s')"
proof -
  obtain native s1 where take: "take_native_shutdown s = (native, s1)" by force
  note taken = stopping_take [OF calm_reachable [OF assms(1)] assms(2) take]
  have s1: "stopping (s1\<lparr>as_task_handle := False, as_pipeline := GstNull\<rparr>)" "stopping (s1\<lparr>as_task_handle := False\<rparr>)"
    "as_task_handle s1" "native = None \<longleftrightarrow> as_native_shutdown s"
    by (rule taken)+
  obtain nr s2 where first: "(case native of
        None \<Rightarrow> (Some (Inr ()), s1\<lparr>as_task_handle := False\<rparr>)
      | Some handle \<Rightarrow> if cleanup then native_stop C stopped (v0 @ bus_finish) handle (s1\<lparr>as_task_handle := False\<rparr>)
          else (Some (Inl ''Audio cleanup worker failed''), workers C (v0 @ bus_finish) (s1\<lparr>as_task_handle := False\<rparr>))) = (Some nr, s2)"
      and nr: "nr = (if as_native_shutdown s then Inr () else if \<not> cleanup then Inl ''Audio cleanup worker failed''
           else if \<not> stopped then Inl ''Failed to stop audio pipeline'' else Inr ())" and s2: "stopping s2"
  proof (cases native)
    case None
    then show ?thesis using s1 that by simp
  next
    case (Some handle)
    then show ?thesis
      using s1 that native_stop_returns [OF s1(2) s1(1), of C stopped v0 handle] stopping_workers [OF s1(2), of C "v0 @ bus_finish"]
      by (cases cleanup) auto
  qed
  obtain r where r: "as_task (workers C (v1 @ [Task_Cancel]) s2) = TaskDone r" "r \<noteq> JoinPanicked" using task_cancelled [OF s2] by blast
  then show ?thesis
    unfolding audio_shutdown_def take prod.case complete_audio_shutdown_def first nr using s1(3) by (simp add: Let_def)
qed

section \<open>A failure of the pipeline\<close>

fun failure_seen :: "'p audio_sender \<Rightarrow> bool" where
  "failure_seen s =
     (case as_bus s of
        BusFailing n \<Rightarrow> (1 \<le> n \<longrightarrow> \<not> as_is_playing s) \<and> (2 \<le> n \<longrightarrow> \<not> as_bus_running s) \<and> (3 \<le> n \<longrightarrow> as_abort s)
      | BusDone _ \<Rightarrow> \<not> as_is_playing s \<and> \<not> as_bus_running s \<and> as_abort s
      | _ \<Rightarrow> False)"

lemma failure_worker: "failure_seen s \<Longrightarrow> failure_seen (worker_step C w s)"
proof (cases w)
  case (Bus_Fail stopped)
  then show "failure_seen s \<Longrightarrow> ?thesis" by (cases "as_bus s") (auto simp: bus_fail_def)
qed (auto simp: sample_check_def sample_send_def task_recv_def task_wake_def task_write_def task_end_def task_cancel_def bus_test_def
    bus_pop_def Let_def split: task_stage.splits bus_stage.splits option.splits bus_event.splits list.splits prod.splits bool.splits)

text \<open>
  A terminal error of the pipeline ends playback: once the bus thread has dealt with it, whatever the other
  workers did meanwhile, the sender does not play, every later \<open>play\<close> is refused and changes nothing,
  and the task ends at its cancellation.
\<close>

theorem audio_failure_final:
  assumes "as_bus s = BusPop" "as_bus (workers C ws (bus_pop now (Some BusEventError) s)) = BusDone r"
  shows "let t = workers C ws (bus_pop now (Some BusEventError) s) in
    \<not> as_is_playing t \<and> play C ok w0 w1 w2 t = (Inl ''Audio sender has stopped'', t) \<and> \<not> task_alive (as_task (task_cancel t))"
proof -
  have "failure_seen (bus_pop now (Some BusEventError) s)" using assms(1) by (simp add: bus_pop_def)
  from workers_preserve [where P = failure_seen, OF this failure_worker, of C ws] assms(2) show ?thesis
    by (auto simp: Let_def play_def task_cancel_def task_end_def)
qed








section \<open>A concrete sender\<close>

definition raw_codec :: "bytes rtp_codec" where
  "raw_codec = \<lparr>rc_unmarshal = Some, rc_timestamp = (\<lambda>_. 0)\<rparr>"

definition one_written :: "bytes audio_sender" where
  "one_written = workers raw_codec [Bus_Test, Sample_Check, Sample_Send 0 (Some [7]), Task_Recv 0, Task_Write 0 True]
     (snd (play raw_codec True [] [] [] (audio_sender_new (AudioUrl ''u'') True)))"

lemma workers_reachable: "audio_reachable C s \<Longrightarrow> audio_reachable C (workers C ws s)"
  by (induction ws arbitrary: s) (auto intro: audio_reachable.worker)

lemma one_written_reachable: "audio_reachable raw_codec one_written"
  unfolding one_written_def by (intro workers_reachable audio_reachable.play audio_reachable.new)

lemma one_written_value:
  "as_written one_written = [[7]]" "as_task_handle one_written" "\<not> as_native_shutdown one_written" "as_bus one_written = BusPop"
  "as_consumed one_written = [[7]]"
  by (simp_all add: one_written_def play_def Let_def bus_test_def sample_check_def sample_send_def channel_try_send_def task_recv_def
      task_write_def audio_sender_new_def raw_codec_def)

theorem audio_sender_safe_witness: "as_packet_count one_written = 1 \<and> subseq [[7 :: u8]] [[7]]"
  using audio_sender_safe [OF one_written_reachable] by (simp add: one_written_value)

theorem audio_shutdown_returns_witness:
  "\<exists>s'. audio_shutdown raw_codec True False bus_finish [Task_Cancel] one_written = (Some (Inl ''Failed to stop audio pipeline''), s')"
  using audio_shutdown_returns [OF one_written_reachable one_written_value(2), of True False "[]" "[]"] by (simp add: one_written_value)

lemma one_written_shutdown:
  "\<exists>s'. audio_shutdown raw_codec True True [Bus_Pop 0 None, Bus_Test] [Task_Cancel] one_written = (Some (Inr ()), s')"
  by (simp add: audio_shutdown_def take_native_shutdown_def complete_audio_shutdown_def native_stop_def join_audio_bus_def Let_def
      one_written_def play_def bus_test_def bus_pop_def sample_check_def sample_send_def channel_try_send_def task_recv_def
      task_write_def task_cancel_def task_end_def audio_sender_new_def raw_codec_def)

theorem audio_shutdown_final_witness:
  "\<exists>s'. audio_shutdown raw_codec True True [Bus_Pop 0 None, Bus_Test] [Task_Cancel] one_written = (Some (Inr ()), s') \<and>
     as_accepted (workers raw_codec [Sample_Check, Sample_Send 1 (Some [8])] s') = as_accepted s'"
proof -
  obtain s' where s': "audio_shutdown raw_codec True True [Bus_Pop 0 None, Bus_Test] [Task_Cancel] one_written = (Some (Inr ()), s')"
    using one_written_shutdown by blast
  from audio_shutdown_final [OF one_written_reachable one_written_value(2) s', of "[Sample_Check, Sample_Send 1 (Some [8])]"] s'
  show ?thesis unfolding Let_def by blast
qed

theorem audio_failure_final_witness:
  "fst (play raw_codec True [] [] [] (workers raw_codec [Bus_Fail True, Bus_Fail True, Bus_Fail True, Bus_Fail True]
     (bus_pop 0 (Some BusEventError) one_written))) = Inl ''Audio sender has stopped''"
proof -
  have "as_bus (workers raw_codec [Bus_Fail True, Bus_Fail True, Bus_Fail True, Bus_Fail True]
      (bus_pop 0 (Some BusEventError) one_written)) = BusDone JoinOk"
    by (simp add: bus_fail_stage(1) bus_pop_def one_written_value)
  from audio_failure_final [OF one_written_value(4) this, of True "[]" "[]" "[]"] show ?thesis by (simp only: Let_def fst_conv)
qed


end
